(* ===== verification/Prelude.thy ===== *)
theory Prelude
  imports Main "HOL-Library.Word"
begin

text \<open>
  Shared vocabulary of the development: the C integer types, byte-addressed memory with
  pointers as 32-bit words, C strings and byte ranges in memory, the faults a computation
  of the kernel can end in, reachable states of a step relation, and the lemmas on them
  that the component theories use.
\<close>

unbundle bit_operations_syntax

section \<open>C integer types, memory and faults\<close>

type_synonym u8 = "8 word"
type_synonym u16 = "16 word"
type_synonym u32 = "32 word"

text \<open>
  Memory maps every 32-bit address to a byte; pointer arithmetic wraps at \<open>2 ^ 32\<close> as it
  does on the machine. A pointer is an address, the null pointer is \<open>0\<close>.
\<close>

type_synonym ptr = u32
type_synonym mem = "u32 \<Rightarrow> u8"
type_synonym bytes = "u8 list"

abbreviation (input) NULL :: ptr where
  "NULL \<equiv> 0"

text \<open>
  The ways a piece of the code leaves the defined behaviour of C or of the processor: an
  integer division by zero (exception 0), an access outside an array, a page fault
  (exception 14).
\<close>

datatype fault = Divide_Error | Out_Of_Bounds | Page_Fault

text \<open>An ASCII literal of the source as the bytes the compiler stores for it.\<close>

definition asc :: "string \<Rightarrow> bytes" where
  "asc s = map of_char s"

section \<open>Ranges of memory\<close>

text \<open>
  \<open>in_rng p n a\<close>: the address \<open>a\<close> is one of the \<open>n\<close> bytes that start at \<open>p\<close>,
  possibly across the wrap-around.
\<close>

definition in_rng :: "ptr \<Rightarrow> nat \<Rightarrow> ptr \<Rightarrow> bool" where
  "in_rng p n a \<longleftrightarrow> unat (a - p) < n"

definition disjnt_rng :: "ptr \<Rightarrow> nat \<Rightarrow> ptr \<Rightarrow> nat \<Rightarrow> bool" where
  "disjnt_rng p n q k \<longleftrightarrow> (\<forall>a. \<not> (in_rng p n a \<and> in_rng q k a))"

text \<open>The \<open>n\<close> bytes at \<open>p\<close>, and memory after writing the bytes \<open>bs\<close> at \<open>p\<close>.\<close>

definition rd_bytes :: "mem \<Rightarrow> ptr \<Rightarrow> nat \<Rightarrow> bytes" where
  "rd_bytes m p n = map (\<lambda>i. m (p + of_nat i)) [0..<n]"

definition wr_bytes :: "mem \<Rightarrow> ptr \<Rightarrow> bytes \<Rightarrow> mem" where
  "wr_bytes m p bs = (\<lambda>a. if unat (a - p) < length bs then bs ! unat (a - p) else m a)"

text \<open>\<open>cstr m p s\<close>: the NUL-terminated string at \<open>p\<close> is \<open>s\<close>.\<close>

fun cstr :: "mem \<Rightarrow> ptr \<Rightarrow> bytes \<Rightarrow> bool" where
  "cstr m p [] \<longleftrightarrow> m p = 0"
| "cstr m p (c # cs) \<longleftrightarrow> m p = c \<and> c \<noteq> 0 \<and> cstr m (p + 1) cs"

section \<open>Reachable states\<close>

inductive reachable :: "('s \<Rightarrow> bool) \<Rightarrow> ('s \<Rightarrow> 's \<Rightarrow> bool) \<Rightarrow> 's \<Rightarrow> bool"
  for init :: "'s \<Rightarrow> bool" and step :: "'s \<Rightarrow> 's \<Rightarrow> bool" where
  start: "init s \<Longrightarrow> reachable init step s"
| next_state: "reachable init step s \<Longrightarrow> step s t \<Longrightarrow> reachable init step t"

named_theorems mem_simps

section \<open>Addresses\<close>

lemma unat_of_nat32 [simp]: "n < 4294967296 \<Longrightarrow> unat (of_nat n :: u32) = n"
  by (simp add: unat_of_nat)

lemma sint_of_nat32 [simp]: "n < 2147483648 \<Longrightarrow> sint (of_nat n :: u32) = int n"
  by (simp add: signed_of_nat signed_take_bit_int_eq_self)

lemma word_of_int_eq32:
  "0 \<le> x \<Longrightarrow> x < 4294967296 \<Longrightarrow> 0 \<le> y \<Longrightarrow> y < 4294967296 \<Longrightarrow>
    (word_of_int x :: u32) = word_of_int y \<longleftrightarrow> x = y"
  by (simp add: word_of_int_eq_iff take_bit_int_eq_self)

lemma unat_lt32 [simp]: "unat (a :: u32) < 4294967296"
  using unsigned_less[of a] by simp

lemma unat_diff_self_add [simp]:
  "n < 4294967296 \<Longrightarrow> unat ((p + of_nat n) - p :: u32) = n"
  by simp

lemma addr_eq_iff [simp]:
  assumes "i < 4294967296" "j < 4294967296"
  shows "((p :: u32) + of_nat i = p + of_nat j) \<longleftrightarrow> i = j"
proof -
  have "((p :: u32) + of_nat i = p + of_nat j) \<longleftrightarrow> (of_nat i :: u32) = of_nat j"
    by simp
  also have "\<dots> \<longleftrightarrow> i = j"
    using assms by (metis unat_of_nat32)
  finally show ?thesis .
qed

lemma addr_self_iff [simp]:
  "i < 4294967296 \<Longrightarrow> ((p :: u32) + of_nat i = p) \<longleftrightarrow> i = 0"
  using addr_eq_iff[of i 0 p] by simp

lemma addr_Suc: "(p + 1) + of_nat n = p + of_nat (Suc n)" for p :: u32
  by simp

lemma addr_decomp: "a = p + of_nat (unat (a - p))" for a p :: u32
  by simp

lemma addr_off_iff: "k < 4294967296 \<Longrightarrow> a = v + of_nat k \<longleftrightarrow> unat (a - v) = k" for a v :: u32
  using addr_decomp[of a v] by auto

lemma unat_minus_Suc:
  "a \<noteq> p \<Longrightarrow> unat (a - (p + 1)) = unat (a - p) - 1" for a p :: u32
proof -
  assume "a \<noteq> p"
  then have "a - p \<noteq> 0" by simp
  then have "unat ((a - p) - 1) = unat (a - p) - 1"
    by (simp add: unat_minus_one)
  then show ?thesis by (simp add: algebra_simps)
qed

lemma unat_diff_0_iff: "unat (a - p) = 0 \<longleftrightarrow> a = p" for a p :: u32
  by (simp add: unat_eq_0)

lemma in_rngI [intro]: "i < n \<Longrightarrow> n \<le> 4294967296 \<Longrightarrow> in_rng p n (p + of_nat i)"
  by (simp add: in_rng_def)

lemma in_rng_self [simp]: "in_rng p n p \<longleftrightarrow> 0 < n"
  by (simp add: in_rng_def)

lemma in_rng_0 [simp]: "\<not> in_rng p 0 a"
  by (simp add: in_rng_def)

lemma in_rng_mono: "in_rng p n a \<Longrightarrow> n \<le> k \<Longrightarrow> in_rng p k a"
  by (simp add: in_rng_def)

lemma in_rng_exD: "in_rng p n a \<Longrightarrow> \<exists>i < n. a = p + of_nat i"
  unfolding in_rng_def by (metis addr_decomp)

lemma disjnt_rng_sym: "disjnt_rng p n q k \<Longrightarrow> disjnt_rng q k p n"
  by (auto simp: disjnt_rng_def)

lemma disjnt_rngD1: "disjnt_rng p n q k \<Longrightarrow> in_rng p n a \<Longrightarrow> \<not> in_rng q k a"
  by (auto simp: disjnt_rng_def)

lemma disjnt_rngD2: "disjnt_rng p n q k \<Longrightarrow> in_rng q k a \<Longrightarrow> \<not> in_rng p n a"
  by (auto simp: disjnt_rng_def)

lemma disjnt_rng_mono:
  "disjnt_rng p n q k \<Longrightarrow> n' \<le> n \<Longrightarrow> k' \<le> k \<Longrightarrow> disjnt_rng p n' q k'"
  unfolding disjnt_rng_def by (blast intro: in_rng_mono)

lemma in_rng_unat:
  assumes "unat p + n \<le> 4294967296"
  shows "in_rng p n a \<longleftrightarrow> unat p \<le> unat a \<and> unat a < unat p + n"
proof (cases "p \<le> a")
  case True
  then show ?thesis by (simp add: in_rng_def unat_sub word_le_nat_alt) linarith
next
  case False
  then have lt: "unat a < unat p" by (simp add: word_le_nat_alt)
  have le: "unat p \<le> 4294967296 + unat a" using unat_lt32[of p] by linarith
  have "a - p = of_nat (4294967296 + unat a - unat p)"
    using le by (simp add: of_nat_diff)
  moreover have "4294967296 + unat a - unat p < 4294967296" using lt le by linarith
  ultimately have "unat (a - p) = 4294967296 + unat a - unat p" by (simp only: unat_of_nat32)
  with assms lt show ?thesis by (simp add: in_rng_def)
qed

lemma disjnt_rng_below:
  "unat p + n \<le> unat q \<Longrightarrow> unat q + k \<le> 4294967296 \<Longrightarrow> disjnt_rng p n q k"
  by (auto simp: disjnt_rng_def in_rng_unat)

lemma in_rng_Suc_iff:
  "in_rng p (Suc n) a \<longleftrightarrow> a = p \<or> in_rng (p + 1) n a \<and> a \<noteq> p"
proof (cases "a = p")
  case False
  then have "0 < unat (a - p)" by (simp add: unat_gt_0)
  with False show ?thesis
    unfolding in_rng_def by (auto simp: unat_minus_Suc)
qed simp

lemma unat_diff_split:
  assumes "n \<le> k" "k < 4294967296" "\<not> in_rng p n a"
  shows "unat (a - (p + of_nat n)) = unat (a - p) - n"
proof -
  have le: "(of_nat n :: u32) \<le> a - p"
    using assms by (simp add: in_rng_def word_le_nat_alt)
  have "unat ((a - p) - of_nat n) = unat (a - p) - unat (of_nat n :: u32)"
    using le by (rule unat_sub)
  then show ?thesis
    using assms by (simp add: algebra_simps)
qed

section \<open>Reading and writing ranges\<close>

lemma length_rd_bytes [simp]: "length (rd_bytes m p n) = n"
  by (simp add: rd_bytes_def)

lemma nth_rd_bytes [simp]: "i < n \<Longrightarrow> rd_bytes m p n ! i = m (p + of_nat i)"
  by (simp add: rd_bytes_def)

lemma rd_bytes_0 [simp]: "rd_bytes m p 0 = []"
  by (simp add: rd_bytes_def)

lemma rd_bytes_Suc: "rd_bytes m p (Suc n) = m p # rd_bytes m (p + 1) n"
  by (rule nth_equalityI) (auto simp: nth_Cons algebra_simps split: nat.split)

lemma rd_bytes_add: "rd_bytes m p (n + k) = rd_bytes m p n @ rd_bytes m (p + of_nat n) k"
  by (induction n arbitrary: p) (simp_all add: rd_bytes_Suc addr_Suc del: of_nat_Suc)

lemma rd_bytes_cong:
  "(\<And>a. in_rng p n a \<Longrightarrow> m a = m' a) \<Longrightarrow> n \<le> 4294967296 \<Longrightarrow> rd_bytes m p n = rd_bytes m' p n"
  by (rule nth_equalityI) auto

lemma take_rd_bytes [simp]: "k \<le> n \<Longrightarrow> take k (rd_bytes m p n) = rd_bytes m p k"
  by (rule nth_equalityI) auto

lemma wr_bytes_Nil [simp]: "wr_bytes m p [] = m"
  by (simp add: wr_bytes_def)

lemma wr_bytes_in: "i < length bs \<Longrightarrow> i < 4294967296 \<Longrightarrow> wr_bytes m p bs (p + of_nat i) = bs ! i"
  by (simp add: wr_bytes_def)

lemma wr_bytes_out [mem_simps]: "\<not> in_rng p (length bs) a \<Longrightarrow> wr_bytes m p bs a = m a"
  by (simp add: wr_bytes_def in_rng_def)

lemma wr_bytes_Cons: "length bs < 4294967296 \<Longrightarrow> wr_bytes m p (b # bs) = wr_bytes (m(p := b)) (p + 1) bs"
proof
  fix a assume len: "length bs < 4294967296"
  show "wr_bytes m p (b # bs) a = wr_bytes (m(p := b)) (p + 1) bs a"
  proof (cases "a = p")
    case True
    have "unat (- 1 :: u32) = 4294967295" by (simp add: unsigned_minus_1_eq_mask mask_eq_exp_minus_1)
    then have "\<not> in_rng (p + 1) (length bs) p"
      using len by (simp add: in_rng_def)
    with True show ?thesis by (simp add: wr_bytes_out) (simp add: wr_bytes_def)
  next
    case False
    then have "0 < unat (a - p)" by (simp add: unat_gt_0)
    with False show ?thesis
      by (auto simp: wr_bytes_def unat_minus_Suc nth_Cons split: nat.split)
  qed
qed

lemma wr_bytes_single: "wr_bytes m p [b] = m(p := b)"
  by (simp add: wr_bytes_Cons)

lemma wr_bytes_append:
  assumes "length bs + length cs \<le> 4294967296"
  shows "wr_bytes m p (bs @ cs) = wr_bytes (wr_bytes m p bs) (p + of_nat (length bs)) cs"
proof (cases "cs = []")
  case False
  with assms have lt: "length bs < 4294967296" by (cases cs) auto
  show ?thesis
  proof
    fix a
    show "wr_bytes m p (bs @ cs) a = wr_bytes (wr_bytes m p bs) (p + of_nat (length bs)) cs a"
    proof (cases "in_rng p (length bs) a")
      case True
      then obtain i where i: "i < length bs" "a = p + of_nat i" by (blast dest: in_rng_exD)
      have "unat (a - (p + of_nat (length bs))) = 4294967296 + i - length bs"
      proof -
        have "a - (p + of_nat (length bs)) = of_nat (4294967296 + i - length bs)"
          using i lt by (simp add: of_nat_diff)
        moreover have "4294967296 + i - length bs < 4294967296" using i lt by simp
        ultimately show ?thesis by (simp only: unat_of_nat32)
      qed
      then have "\<not> in_rng (p + of_nat (length bs)) (length cs) a"
        using assms i by (simp add: in_rng_def)
      with True show ?thesis
        by (simp add: wr_bytes_out) (simp add: wr_bytes_def in_rng_def nth_append)
    next
      case False
      have "unat (a - (p + of_nat (length bs))) = unat (a - p) - length bs"
        using unat_diff_split[OF order_refl lt False] .
      with False show ?thesis
        by (auto simp: wr_bytes_def in_rng_def nth_append)
    qed
  qed
qed simp

lemma wr_bytes_snoc:
  "length bs < 4294967296 \<Longrightarrow>
    wr_bytes m p (bs @ [b]) = (wr_bytes m p bs)(p + of_nat (length bs) := b)"
  by (simp add: wr_bytes_append wr_bytes_single)

lemma rd_wr_bytes [simp]:
  "length bs \<le> 4294967296 \<Longrightarrow> rd_bytes (wr_bytes m p bs) p (length bs) = bs"
  by (rule nth_equalityI) (auto simp: wr_bytes_in)

lemma rd_wr_bytes_disjnt [mem_simps]:
  "disjnt_rng q (length bs) p n \<Longrightarrow> n \<le> 4294967296 \<Longrightarrow>
    rd_bytes (wr_bytes m q bs) p n = rd_bytes m p n"
  by (rule rd_bytes_cong) (auto simp: wr_bytes_out dest: disjnt_rngD2)

lemma wr_rd_bytes_id: "wr_bytes m p (rd_bytes m p n) = m"
  by (rule ext) (simp add: wr_bytes_def)

lemma wr_bytes_twice: "length bs = length cs \<Longrightarrow> wr_bytes (wr_bytes m p bs) p cs = wr_bytes m p cs"
  by (rule ext) (simp add: wr_bytes_def)

lemma wr_bytes_commute:
  "disjnt_rng p (length bs) q (length cs) \<Longrightarrow>
    wr_bytes (wr_bytes m p bs) q cs = wr_bytes (wr_bytes m q cs) p bs"
  by (rule ext) (auto simp: wr_bytes_def disjnt_rng_def in_rng_def)

lemma in_rng_offset:
  assumes "in_rng (p + of_nat a) n x" "a + n \<le> k" "k \<le> 4294967296"
  shows "in_rng p k x"
proof -
  obtain i where "i < n" "x = p + of_nat (a + i)"
    using in_rng_exD[OF assms(1)] by (auto simp: add.assoc)
  with assms(2,3) show ?thesis by (simp only: in_rngI)
qed

lemma disjnt_rng_offsets:
  assumes "a + n \<le> b" "b + k \<le> 4294967296"
  shows "disjnt_rng (p + of_nat a) n (p + of_nat b) k"
proof -
  have False if ia: "in_rng (p + of_nat a) n x" and ib: "in_rng (p + of_nat b) k x" for x
  proof -
    obtain i where i: "i < n" "x = p + of_nat (a + i)"
      using in_rng_exD[OF ia] by (auto simp: add.assoc)
    obtain j where j: "j < k" "x = p + of_nat (b + j)"
      using in_rng_exD[OF ib] by (auto simp: add.assoc)
    have "a + i = b + j"
      using assms i j addr_eq_iff[of "a + i" "b + j" p] by (simp del: of_nat_add)
    with assms i j show False by simp
  qed
  then show ?thesis by (auto simp: disjnt_rng_def)
qed

section \<open>Forward copies\<close>

text \<open>
  A byte-by-byte copy in increasing order delivers the original bytes exactly when no write
  hits a byte that is still to be read.
\<close>

definition fwd_ok :: "ptr \<Rightarrow> ptr \<Rightarrow> nat \<Rightarrow> bool" where
  "fwd_ok d s n \<longleftrightarrow> (\<forall>i j. i < j \<and> j < n \<longrightarrow> d + of_nat i \<noteq> s + of_nat j)"

fun copy_fwd :: "mem \<Rightarrow> ptr \<Rightarrow> ptr \<Rightarrow> nat \<Rightarrow> mem" where
  "copy_fwd m d s 0 = m"
| "copy_fwd m d s (Suc n) = copy_fwd (m(d := m s)) (d + 1) (s + 1) n"

lemma fwd_okD: "fwd_ok d s n \<Longrightarrow> i < j \<Longrightarrow> j < n \<Longrightarrow> d + of_nat i \<noteq> s + of_nat j"
  by (simp add: fwd_ok_def)

lemma fwd_ok_Suc:
  assumes "fwd_ok d s (Suc n)"
  shows "fwd_ok (d + 1) (s + 1) n" and "j < n \<Longrightarrow> (s + 1) + of_nat j \<noteq> d"
proof -
  show "fwd_ok (d + 1) (s + 1) n"
    unfolding fwd_ok_def
  proof (intro allI impI)
    fix i j assume "i < j \<and> j < n"
    then have "d + of_nat (Suc i) \<noteq> s + of_nat (Suc j)"
      by (intro fwd_okD[OF assms]) auto
    then show "(d + 1) + of_nat i \<noteq> (s + 1) + of_nat j" by (simp only: addr_Suc not_False_eq_True)
  qed
  show "(s + 1) + of_nat j \<noteq> d" if "j < n"
    unfolding addr_Suc using fwd_okD[OF assms, of 0 "Suc j"] that
    by (auto simp del: of_nat_Suc)
qed

lemma copy_fwd_eq:
  "fwd_ok d s n \<Longrightarrow> n \<le> 4294967296 \<Longrightarrow> copy_fwd m d s n = wr_bytes m d (rd_bytes m s n)"
proof (induction n arbitrary: m d s)
  case (Suc n)
  let ?m = "m(d := m s)"
  have keep: "rd_bytes ?m (s + 1) n = rd_bytes m (s + 1) n"
    by (rule nth_equalityI) (auto dest: fwd_ok_Suc(2)[OF Suc.prems(1)])
  have "copy_fwd m d s (Suc n) = wr_bytes ?m (d + 1) (rd_bytes ?m (s + 1) n)"
    using Suc.IH[OF fwd_ok_Suc(1)[OF Suc.prems(1)]] Suc.prems(2) by simp
  also have "\<dots> = wr_bytes m d (m s # rd_bytes m (s + 1) n)"
    using Suc.prems(2) by (simp add: keep wr_bytes_Cons)
  finally show ?case by (simp add: rd_bytes_Suc)
qed simp

lemma copy_fwd_add:
  "copy_fwd m d s (n + k) = copy_fwd (copy_fwd m d s n) (d + of_nat n) (s + of_nat n) k"
  by (induction n arbitrary: m d s) (simp_all add: addr_Suc del: of_nat_Suc)

lemma fwd_ok_add:
  assumes "fwd_ok d s (n + k)"
  shows "fwd_ok d s n" and "fwd_ok (d + of_nat n) (s + of_nat n) k"
proof -
  show "fwd_ok d s n" using assms by (auto simp: fwd_ok_def)
  show "fwd_ok (d + of_nat n) (s + of_nat n) k"
    unfolding fwd_ok_def
  proof (intro allI impI)
    fix i j assume "i < j \<and> j < k"
    then have "d + of_nat (n + i) \<noteq> s + of_nat (n + j)"
      by (intro fwd_okD[OF assms]) auto
    then show "d + of_nat n + of_nat i \<noteq> s + of_nat n + of_nat j" by (simp add: add.assoc)
  qed
qed

lemma disjnt_fwd_ok:
  assumes "disjnt_rng d n s n" "n \<le> 4294967296"
  shows "fwd_ok d s n"
  unfolding fwd_ok_def
proof (intro allI impI notI)
  fix i j assume ij: "i < j \<and> j < n" and eq: "d + of_nat i = s + of_nat j"
  have "in_rng d n (d + of_nat i)" "in_rng s n (s + of_nat j)"
    using ij assms(2) by auto
  with eq assms(1) show False by (metis disjnt_rngD1)
qed

lemma below_fwd_ok:
  assumes "unat d \<le> unat s" "unat s + n \<le> 4294967296"
  shows "fwd_ok d s n"
  unfolding fwd_ok_def
proof (intro allI impI notI)
  fix i j assume ij: "i < j \<and> j < n" and eq: "d + of_nat i = s + of_nat j"
  have "unat (d + of_nat i) = unat d + i" "unat (s + of_nat j) = unat s + j"
    using assms ij by (simp_all add: unat_word_ariths)
  with eq ij assms(1) show False by simp
qed

text \<open>
  The interface of a memory copy routine, as the callers that swap screen pages rely on it,
  and what they conclude from it.
\<close>

locale mem_copier =
  fixes copy :: "mem \<Rightarrow> ptr \<Rightarrow> ptr \<Rightarrow> nat \<Rightarrow> mem"
    and limit :: nat
  assumes copy_spec: "disjnt_rng d n s n \<Longrightarrow> n < limit \<Longrightarrow> copy m d s n = wr_bytes m d (rd_bytes m s n)"
    and limit_le: "limit \<le> 4294967296"
begin

lemma copy_delivers:
  "disjnt_rng d n s n \<Longrightarrow> n < limit \<Longrightarrow> rd_bytes (copy m d s n) d n = rd_bytes m s n"
  using limit_le rd_wr_bytes[of "rd_bytes m s n" m d] by (simp add: copy_spec)

lemma copy_frame:
  "disjnt_rng d n s n \<Longrightarrow> n < limit \<Longrightarrow> \<not> in_rng d n a \<Longrightarrow> copy m d s n a = m a"
  by (simp add: copy_spec wr_bytes_out)

lemma copy_keeps_other:
  assumes "disjnt_rng d n s n" "n < limit" "disjnt_rng d n q k" "k \<le> 4294967296"
  shows "rd_bytes (copy m d s n) q k = rd_bytes m q k"
  using assms by (simp add: copy_spec rd_wr_bytes_disjnt)

end

section \<open>C strings\<close>

lemma cstr_nonzero: "cstr m p s \<Longrightarrow> c \<in> set s \<Longrightarrow> c \<noteq> 0"
  by (induction s arbitrary: p) auto

lemma cstr_nth: "cstr m p s \<Longrightarrow> i < length s \<Longrightarrow> m (p + of_nat i) = s ! i"
proof (induction s arbitrary: p i)
  case (Cons c cs)
  then show ?case
  proof (cases i)
    case (Suc j)
    then have "m ((p + 1) + of_nat j) = cs ! j" using Cons by auto
    with Suc show ?thesis by (simp only: addr_Suc nth_Cons_Suc)
  qed auto
qed simp

lemma cstr_end: "cstr m p s \<Longrightarrow> m (p + of_nat (length s)) = 0"
proof (induction s arbitrary: p)
  case (Cons c cs)
  then have "m ((p + 1) + of_nat (length cs)) = 0" by auto
  then show ?case by (simp only: addr_Suc length_Cons)
qed simp

lemma cstr_nth_nonzero: "cstr m p s \<Longrightarrow> i < length s \<Longrightarrow> m (p + of_nat i) \<noteq> 0"
  by (metis cstr_nth cstr_nonzero nth_mem)

lemma cstr_rd_bytes: "cstr m p s \<Longrightarrow> rd_bytes m p (length s) = s"
  by (rule nth_equalityI) (auto simp: cstr_nth)

lemma cstr_iff:
  "cstr m p s \<longleftrightarrow> rd_bytes m p (length s) = s \<and> m (p + of_nat (length s)) = 0 \<and> 0 \<notin> set s"
proof (induction s arbitrary: p)
  case (Cons c cs)
  show ?case
    by (auto simp: Cons.IH rd_bytes_Suc simp del: of_nat_Suc simp flip: addr_Suc)
qed simp

lemma cstr_unique: "cstr m p s \<Longrightarrow> cstr m p t \<Longrightarrow> s = t"
proof (induction s arbitrary: p t)
  case Nil
  then show ?case by (cases t) auto
next
  case (Cons c cs)
  then show ?case by (cases t) auto
qed

lemma cstr_wr_bytes:
  assumes "length s < 4294967296" "0 \<notin> set s"
  shows "cstr (wr_bytes m p (s @ [0])) p s"
proof -
  have "rd_bytes (wr_bytes m p (s @ [0])) p (length s) = s"
    using assms(1) by (intro nth_equalityI) (auto simp: wr_bytes_in nth_append)
  moreover have "wr_bytes m p (s @ [0]) (p + of_nat (length s)) = 0"
    using assms(1) by (subst wr_bytes_in) auto
  ultimately show ?thesis using assms(2) by (simp add: cstr_iff)
qed

lemma cstr_cong:
  "(\<And>a. in_rng p (Suc (length s)) a \<Longrightarrow> m a = m' a) \<Longrightarrow> length s < 4294967296 \<Longrightarrow>
    cstr m p s \<longleftrightarrow> cstr m' p s"
proof -
  assume eq: "\<And>a. in_rng p (Suc (length s)) a \<Longrightarrow> m a = m' a" and len: "length s < 4294967296"
  have "rd_bytes m p (length s) = rd_bytes m' p (length s)"
    using len by (intro rd_bytes_cong eq) (auto elim: in_rng_mono)
  moreover have "m (p + of_nat (length s)) = m' (p + of_nat (length s))"
    using len by (intro eq) auto
  ultimately show ?thesis by (simp add: cstr_iff)
qed

lemma cstr_wr_bytes_disjnt [mem_simps]:
  "disjnt_rng q (length bs) p (Suc (length s)) \<Longrightarrow> length s < 4294967296 \<Longrightarrow>
    cstr (wr_bytes m q bs) p s \<longleftrightarrow> cstr m p s"
  by (rule cstr_cong) (auto simp: wr_bytes_out dest: disjnt_rngD2)

text \<open>
  The idiom \<^verbatim>\<open>while (s[i] != '\0') d[j++] = s[i++];\<close> on memory that the loop itself changes:
  the index after the last byte and the new memory, \<open>None\<close> if the loop does not end.
\<close>

partial_function (option) copy_nul :: "mem \<Rightarrow> ptr \<Rightarrow> ptr \<Rightarrow> u32 \<Rightarrow> u32 \<Rightarrow> (u32 \<times> mem) option" where
  "copy_nul m s d i j =
    (if m (s + i) \<noteq> 0 then copy_nul (m(d + j := m (s + i))) s d (i + 1) (j + 1) else Some (j, m))"

lemma in_rng_tail: "in_rng (p + 1) n a \<Longrightarrow> in_rng p (Suc n) a"
  by (cases "a = p") (auto simp: in_rng_Suc_iff)

lemma disjnt_rng_tail: "disjnt_rng d (Suc n) s (Suc k) \<Longrightarrow> disjnt_rng (d + 1) n (s + 1) k"
  unfolding disjnt_rng_def by (blast intro: in_rng_tail)

lemma copy_nul_cstr:
  "cstr m (s + i) str \<Longrightarrow> disjnt_rng (d + j) (length str) (s + i) (Suc (length str)) \<Longrightarrow>
    length str < 4294967296 \<Longrightarrow>
    copy_nul m s d i j = Some (j + of_nat (length str), wr_bytes m (d + j) str)"
proof (induction str arbitrary: m i j)
  case Nil
  then show ?case by (subst copy_nul.simps) simp
next
  case (Cons c cs)
  let ?m = "m(d + j := m (s + i))"
  have dis: "disjnt_rng (d + j + 1) (length cs) (s + i + 1) (Suc (length cs))"
    using Cons.prems(2) by (intro disjnt_rng_tail) simp
  have "\<not> in_rng (s + i) (Suc (length (c # cs))) (d + j)"
    using Cons.prems(2) by (rule disjnt_rngD1) simp
  then have out: "\<not> in_rng (s + i + 1) (Suc (length cs)) (d + j)"
    by (auto dest: in_rng_tail)
  have "cstr ?m (s + i + 1) cs \<longleftrightarrow> cstr m (s + i + 1) cs"
    using Cons.prems(3) out by (intro cstr_cong) auto
  with Cons.prems(1) have c: "cstr ?m (s + (i + 1)) cs" by (simp only: cstr.simps add.assoc)
  have "copy_nul ?m s d (i + 1) (j + 1) =
      Some (j + 1 + of_nat (length cs), wr_bytes ?m (d + (j + 1)) cs)"
    using dis Cons.prems(3) by (intro Cons.IH c) (simp_all only: add.assoc length_Cons Suc_lessD)
  with Cons.prems show ?case
    by (subst copy_nul.simps) (simp add: wr_bytes_Cons algebra_simps)
qed

section \<open>Invariants of step relations\<close>

text \<open>
  The interface between a component's steps and its clients: a property that holds initially
  and that every step keeps holds in every reachable state.
\<close>

locale step_invariant =
  fixes init :: "'s \<Rightarrow> bool"
    and step :: "'s \<Rightarrow> 's \<Rightarrow> bool"
    and inv :: "'s \<Rightarrow> bool"
  assumes init_inv: "init s \<Longrightarrow> inv s"
    and step_inv: "inv s \<Longrightarrow> step s t \<Longrightarrow> inv t"
begin

lemma reachable_inv: "reachable init step s \<Longrightarrow> inv s"
  by (induction rule: reachable.induct) (auto intro: init_inv step_inv)

end

end
