(* ===== verification/Char_Util.thy ===== *)
theory Char_Util
  imports Prelude
begin

text \<open>
  The string helpers of \<^verbatim>\<open>student-distrib/utils/char_util.c\<close>, over byte-addressed memory:
  every function takes the memory and pointers, and a function that writes returns the new
  memory next to its \<^verbatim>\<open>int32_t\<close> result. \<^verbatim>\<open>print_buf\<close> needs the console and is in the
  theory of the console.
\<close>

section \<open>Definitions\<close>

function string_length_loop :: "mem \<Rightarrow> ptr \<Rightarrow> nat \<Rightarrow> int" where
  "string_length_loop m s count =
    (if m (s + of_nat count) \<noteq> 0
     then if count + 1 > 1000000 then - 1 else string_length_loop m s (count + 1)
     else int count)"
  by pat_completeness auto
termination
  by (relation "measure (\<lambda>(m, s, count). 1000001 - count)") auto

declare string_length_loop.simps [simp del]

definition string_length :: "mem \<Rightarrow> ptr \<Rightarrow> int" where
  "string_length m s = (if s = NULL then - 1 else string_length_loop m s 0)"

text \<open>
  The loop of \<^verbatim>\<open>string_equal\<close> has no bound: on two equal unterminated strings it never
  returns, which is \<open>None\<close>.
\<close>

partial_function (option) string_equal_loop :: "mem \<Rightarrow> ptr \<Rightarrow> ptr \<Rightarrow> u32 \<Rightarrow> int option" where
  "string_equal_loop m s1 s2 i =
    (if m (s1 + i) \<noteq> 0 \<and> m (s2 + i) \<noteq> 0
     then if m (s1 + i) \<noteq> m (s2 + i) then Some 0 else string_equal_loop m s1 s2 (i + 1)
     else if m (s1 + i) = 0 \<and> m (s2 + i) = 0 then Some 1 else Some 0)"

definition string_equal :: "mem \<Rightarrow> ptr \<Rightarrow> ptr \<Rightarrow> int option" where
  "string_equal m s1 s2 =
    (if s1 = NULL \<or> s2 = NULL then Some (- 1) else string_equal_loop m s1 s2 0)"

text \<open>The loop \<^verbatim>\<open>for (; i < n; i++) dest[i] = source[i];\<close>\<close>

function copy_loop :: "mem \<Rightarrow> ptr \<Rightarrow> ptr \<Rightarrow> nat \<Rightarrow> nat \<Rightarrow> mem" where
  "copy_loop m dest source i n =
    (if i < n then copy_loop (m(dest + of_nat i := m (source + of_nat i))) dest source (i + 1) n
     else m)"
  by pat_completeness auto
termination
  by (relation "measure (\<lambda>(m, dest, source, i, n). n - i)") auto

declare copy_loop.simps [simp del]

text \<open>
  In \<^verbatim>\<open>substring\<close> the comparison \<^verbatim>\<open>end > len\<close> is unsigned: a length of \<open>-1\<close> is read as
  \<open>2 ^ 32 - 1\<close>.
\<close>

definition substring :: "mem \<Rightarrow> ptr \<Rightarrow> ptr \<Rightarrow> u32 \<Rightarrow> u32 \<Rightarrow> int \<times> mem" where
  "substring m s buf start stop =
    (if s = NULL \<or> buf = NULL then (- 1, m)
     else let len = string_length m s in
       if stop < start \<or> stop > word_of_int len then (- 1, m)
       else let m' = copy_loop m buf (s + start) 0 (unat (stop - start))
            in (0, m'(buf + (stop - start) := 0)))"

definition copy_string :: "mem \<Rightarrow> ptr \<Rightarrow> ptr \<Rightarrow> int \<times> mem" where
  "copy_string m source dest =
    (if source = NULL \<or> dest = NULL then (- 1, m)
     else let len = string_length m source;
              m' = copy_loop m dest source 0 (nat len)
          in (0, m'(dest + word_of_int len := 0)))"

definition copy_buf :: "mem \<Rightarrow> ptr \<Rightarrow> ptr \<Rightarrow> u32 \<Rightarrow> int \<times> mem" where
  "copy_buf m source dest nbytes =
    (if source = NULL \<or> dest = NULL then (- 1, m)
     else (0, copy_loop m dest source 0 (unat nbytes)))"

definition dechar :: "ptr \<Rightarrow> ptr" where
  "dechar s = s"

section \<open>Lengths\<close>

lemma string_length_loop_cstr:
  assumes "cstr m s str" "i \<le> length str" "i \<le> 1000000"
  shows "string_length_loop m s i =
    (if length str \<le> 1000000 then int (length str) else - 1)"
  using assms(2,3)
proof (induction m\<equiv>m s\<equiv>s i rule: string_length_loop.induct)
  case (1 i)
  show ?case
  proof (cases "i = length str")
    case True
    then show ?thesis
      using 1 cstr_end[OF assms(1)] by (subst string_length_loop.simps) simp
  next
    case False
    with 1 have lt: "i < length str" by simp
    then have "m (s + of_nat i) \<noteq> 0" by (rule cstr_nth_nonzero[OF assms(1)])
    with 1 lt show ?thesis by (subst string_length_loop.simps) auto
  qed
qed

lemma string_length_cstr:
  "cstr m s str \<Longrightarrow> s \<noteq> NULL \<Longrightarrow>
    string_length m s = (if length str \<le> 1000000 then int (length str) else - 1)"
  by (simp add: string_length_def string_length_loop_cstr)

lemma string_length_loop_bounds:
  "count \<le> 1000000 \<Longrightarrow> - 1 \<le> string_length_loop m s count \<and> string_length_loop m s count \<le> 1000000"
  by (induction m s count rule: string_length_loop.induct) (subst (1 2) string_length_loop.simps, auto)

lemma string_length_bounds: "- 1 \<le> string_length m s \<and> string_length m s \<le> 1000000"
  by (simp add: string_length_def string_length_loop_bounds)

section \<open>Comparison\<close>

lemma string_equal_loop_cstr:
  "cstr m (s1 + i) a \<Longrightarrow> cstr m (s2 + i) b \<Longrightarrow>
    string_equal_loop m s1 s2 i = Some (if a = b then 1 else 0)"
proof (induction a arbitrary: i b)
  case Nil
  then show ?case by (cases b) (auto simp: string_equal_loop.simps)
next
  case (Cons c cs)
  show ?case
  proof (cases b)
    case Nil
    with Cons.prems show ?thesis by (auto simp: string_equal_loop.simps)
  next
    case (Cons d ds)
    with Cons.prems Cons.IH[of "i + 1" ds] show ?thesis
      by (subst string_equal_loop.simps) (auto simp: add.assoc)
  qed
qed

section \<open>Copies\<close>

lemma copy_loop_fwd: "i \<le> n \<Longrightarrow> copy_loop m d s i n = copy_fwd m (d + of_nat i) (s + of_nat i) (n - i)"
proof (induction "n - i" arbitrary: i m)
  case 0
  then show ?case by (subst copy_loop.simps) simp
next
  case (Suc k)
  then have lt: "i < n" and "n - i = Suc (n - (i + 1))" by simp_all
  then have "copy_fwd m (d + of_nat i) (s + of_nat i) (n - i) =
      copy_fwd (m(d + of_nat i := m (s + of_nat i))) (d + of_nat (i + 1)) (s + of_nat (i + 1)) (n - (i + 1))"
    by (simp add: algebra_simps)
  with Suc lt show ?case
    by (subst copy_loop.simps) simp
qed

lemma copy_loop_eq:
  "fwd_ok d s n \<Longrightarrow> n \<le> 4294967296 \<Longrightarrow> copy_loop m d s 0 n = wr_bytes m d (rd_bytes m s n)"
  by (simp add: copy_loop_fwd copy_fwd_eq)

lemma copy_string_cstr:
  assumes str: "cstr m src str" and len: "length str \<le> 1000000"
    and ptrs: "src \<noteq> NULL" "dest \<noteq> NULL"
    and dis: "disjnt_rng dest (length str) src (length str)"
  shows "copy_string m src dest = (0, wr_bytes m dest (str @ [0]))"
proof -
  have l: "string_length m src = int (length str)"
    using str ptrs len by (simp add: string_length_cstr)
  have "copy_loop m dest src 0 (length str) = wr_bytes m dest str"
    using copy_loop_eq[OF disjnt_fwd_ok[OF dis]] len cstr_rd_bytes[OF str] by simp
  with l ptrs len show ?thesis
    by (simp add: copy_string_def wr_bytes_snoc)
qed

lemma copy_string_unterminated:
  assumes "string_length m src = - 1" "src \<noteq> NULL" "dest \<noteq> NULL"
  shows "copy_string m src dest = (0, m(dest - 1 := 0))"
  using assms by (simp add: copy_string_def copy_loop.simps)

lemma rd_bytes_sub:
  assumes "cstr m s str" "i + n \<le> length str"
  shows "rd_bytes m (s + of_nat i) n = take n (drop i str)"
  using assms cstr_nth[OF assms(1)] by (intro nth_equalityI) (auto simp: add.assoc simp flip: of_nat_add)

lemma substring_cstr:
  assumes "cstr m s str" "length str \<le> 1000000" "s \<noteq> NULL" "buf \<noteq> NULL"
    and "i \<le> j" "j \<le> length str" "disjnt_rng buf (j - i) (s + of_nat i) (j - i)"
  shows "substring m s buf (of_nat i) (of_nat j) = (0, wr_bytes m buf (take (j - i) (drop i str) @ [0]))"
proof -
  have l: "string_length m s = int (length str)" using assms by (simp add: string_length_cstr)
  have d: "(of_nat j :: u32) - of_nat i = of_nat (j - i)" using assms(5) by (simp add: of_nat_diff)
  have w: "\<not> (of_nat j :: u32) < of_nat i" "\<not> (of_nat j :: u32) > of_nat (length str)"
    using assms(2,5,6) by (simp_all add: word_less_nat_alt)
  have u: "unat (of_nat (j - i) :: u32) = j - i"
    using assms(2,6) by (intro unat_of_nat32) linarith
  have c: "copy_loop m buf (s + of_nat i) 0 (j - i) = wr_bytes m buf (take (j - i) (drop i str))"
    using copy_loop_eq[OF disjnt_fwd_ok[OF assms(7)]] rd_bytes_sub[OF assms(1), of i "j - i"] assms by simp
  have e: "length (take (j - i) (drop i str)) = j - i" using assms(5,6) by simp
  have "(wr_bytes m buf (take (j - i) (drop i str)))(buf + of_nat (j - i) := 0) =
      wr_bytes m buf (take (j - i) (drop i str) @ [0])"
    using wr_bytes_snoc[of "take (j - i) (drop i str)" m buf 0] assms(2,6) by (simp only: e)
  then show ?thesis
    using w assms(3,4) unfolding substring_def l Let_def d u c by simp
qed

definition copy_buf_mem :: "mem \<Rightarrow> ptr \<Rightarrow> ptr \<Rightarrow> nat \<Rightarrow> mem" where
  "copy_buf_mem m dest source n = copy_loop m dest source 0 n"

interpretation cb: mem_copier copy_buf_mem 4294967296
  by unfold_locales (simp_all add: copy_buf_mem_def copy_loop_eq disjnt_fwd_ok)

lemma copy_buf_eq:
  "source \<noteq> NULL \<Longrightarrow> dest \<noteq> NULL \<Longrightarrow>
    copy_buf m source dest nbytes = (0, copy_buf_mem m dest source (unat nbytes))"
  by (simp add: copy_buf_def copy_buf_mem_def)

end
