(* ===== verification/Arg_Util.thy ===== *)
theory Arg_Util
  imports Char_Util
begin

text \<open>
  The command-line parser of \<^verbatim>\<open>student-distrib/utils/arg_util.c\<close>: counting the words of an
  argument string, the length of one word, copying one word out, and everything after the
  first word. The abstract side is \<open>arg_words\<close>, the list of maximal space-free pieces.
\<close>

section \<open>Definitions\<close>

abbreviation (input) SPC :: u8 where
  "SPC \<equiv> 32"

text \<open>
  The scanner state that the three loops share: inside a word or not, and how many words have
  ended. \<open>scan c st\<close> is the two-armed conditional at the top of each loop body.
\<close>

fun scan :: "u8 \<Rightarrow> bool \<times> nat \<Rightarrow> bool \<times> nat" where
  "scan c (in_arg, k) =
    (if c = SPC \<and> in_arg then (False, k + 1)
     else if c \<noteq> SPC \<and> \<not> in_arg then (True, k)
     else (in_arg, k))"

function arg_count_loop :: "mem \<Rightarrow> ptr \<Rightarrow> nat \<Rightarrow> nat \<Rightarrow> bool \<times> nat \<Rightarrow> bool \<times> nat" where
  "arg_count_loop m a len i st =
    (if i < len then arg_count_loop m a len (i + 1) (scan (m (a + of_nat i)) st) else st)"
  by pat_completeness auto
termination
  by (relation "measure (\<lambda>(m, a, len, i, st). len - i)") auto

declare arg_count_loop.simps [simp del]

definition get_argument_count :: "mem \<Rightarrow> ptr \<Rightarrow> int" where
  "get_argument_count m argument_string =
    (let len = string_length m argument_string in
     if len < 0 then - 1
     else let (in_arg, arg_count) = arg_count_loop m argument_string (nat len) 0 (False, 0)
          in int (if in_arg then arg_count + 1 else arg_count))"

function arg_length_loop ::
  "mem \<Rightarrow> ptr \<Rightarrow> nat \<Rightarrow> nat \<Rightarrow> nat \<Rightarrow> bool \<times> nat \<Rightarrow> nat \<Rightarrow> nat" where
  "arg_length_loop m a index len i st arg_length =
    (if i < len
     then let c = m (a + of_nat i); st' = scan c st;
              n = (if c \<noteq> SPC \<and> snd st' = index then arg_length + 1 else arg_length)
          in if snd st' > index then n else arg_length_loop m a index len (i + 1) st' n
     else arg_length)"
  by pat_completeness auto
termination
  by (relation "measure (\<lambda>(m, a, index, len, i, st, n). len - i)") auto

declare arg_length_loop.simps [simp del]

definition get_argument_length :: "mem \<Rightarrow> ptr \<Rightarrow> u32 \<Rightarrow> int" where
  "get_argument_length m argument_string index =
    (let arg_count = get_argument_count m argument_string in
     if arg_count \<le> 0 \<or> unat index \<ge> nat arg_count then - 1
     else let len = string_length m argument_string in
       if len < 0 then - 1
       else let n = arg_length_loop m argument_string (unat index) (nat len) 0 (False, 0) 0
            in if n = 0 then - 1 else int n)"

function get_argument_loop ::
  "mem \<Rightarrow> ptr \<Rightarrow> ptr \<Rightarrow> nat \<Rightarrow> nat \<Rightarrow> nat \<Rightarrow> bool \<times> nat \<Rightarrow> nat \<Rightarrow> nat \<times> mem" where
  "get_argument_loop m a buf index len i st j =
    (if i < len
     then let c = m (a + of_nat i); st' = scan c st;
              (j', m') = (if c \<noteq> SPC \<and> snd st' = index \<and> c \<noteq> 0
                          then (j + 1, m(buf + of_nat j := c)) else (j, m))
          in if snd st' > index then (j', m')
             else get_argument_loop m' a buf index len (i + 1) st' j'
     else (j, m))"
  by pat_completeness auto
termination
  by (relation "measure (\<lambda>(m, a, buf, index, len, i, st, j). len - i)") auto

declare get_argument_loop.simps [simp del]

definition get_argument :: "mem \<Rightarrow> ptr \<Rightarrow> u32 \<Rightarrow> ptr \<Rightarrow> int \<times> mem" where
  "get_argument m argument_string index buf =
    (let arg_count = get_argument_count m argument_string in
     if arg_count \<le> 0 \<or> unat index \<ge> nat arg_count then (- 1, m)
     else let len = string_length m argument_string in
       if len < 0 then (- 1, m)
       else let (j, m') = get_argument_loop m argument_string buf (unat index) (nat len) 0 (False, 0) 0
            in (int j, m'))"

text \<open>The loops \<^verbatim>\<open>while (P(argument_string[i])) i++;\<close> that skip a run of bytes.\<close>

partial_function (option) skip_loop :: "(u8 \<Rightarrow> bool) \<Rightarrow> mem \<Rightarrow> ptr \<Rightarrow> u32 \<Rightarrow> u32 option" where
  "skip_loop P m a i = (if P (m (a + i)) then skip_loop P m a (i + 1) else Some i)"

definition get_next_arguments :: "mem \<Rightarrow> ptr \<Rightarrow> ptr \<Rightarrow> (int \<times> mem) option" where
  "get_next_arguments m argument_string buf =
    (let arg_count = get_argument_count m argument_string in
     if arg_count \<le> 0 then Some (- 1, m)
     else if arg_count = 1 then Some (0, m(buf := 0))
     else
       Option.bind (skip_loop (\<lambda>c. c = SPC) m argument_string 0) (\<lambda>i.
       Option.bind (skip_loop (\<lambda>c. c \<noteq> SPC) m argument_string i) (\<lambda>i.
       Option.bind (skip_loop (\<lambda>c. c = SPC) m argument_string i) (\<lambda>i.
       Option.bind (copy_nul m argument_string buf i 0) (\<lambda>(j, m').
       Some (sint j, m'(buf + j := 0)))))))"

section \<open>The abstract argument list\<close>

function arg_words :: "bytes \<Rightarrow> bytes list" where
  "arg_words [] = []"
| "arg_words (c # cs) =
    (if c = SPC then arg_words cs
     else (c # takeWhile (\<lambda>x. x \<noteq> SPC) cs) # arg_words (dropWhile (\<lambda>x. x \<noteq> SPC) cs))"
  by pat_completeness auto
termination
  by (relation "measure length") (auto simp: length_dropWhile_le less_Suc_eq_le)

definition rest_args :: "bytes \<Rightarrow> bytes" where
  "rest_args str =
    dropWhile (\<lambda>c. c = SPC) (dropWhile (\<lambda>c. c \<noteq> SPC) (dropWhile (\<lambda>c. c = SPC) str))"

lemma arg_words_dropWhile_space: "arg_words (dropWhile (\<lambda>c. c = SPC) cs) = arg_words cs"
  by (induction cs) auto

lemma arg_words_nonempty: "w \<in> set (arg_words cs) \<Longrightarrow> w \<noteq> []"
  by (induction cs rule: arg_words.induct) (auto split: if_splits)

lemma arg_words_no_space: "w \<in> set (arg_words cs) \<Longrightarrow> SPC \<notin> set w"
  by (induction cs rule: arg_words.induct) (auto split: if_splits dest: set_takeWhileD)

lemma arg_words_drop_word:
  "ds = [] \<or> hd ds \<noteq> SPC \<Longrightarrow> arg_words (dropWhile (\<lambda>c. c \<noteq> SPC) ds) = tl (arg_words ds)"
  by (cases ds) auto

lemma dropWhile_hd: "dropWhile P xs = [] \<or> \<not> P (hd (dropWhile P xs))"
  by (induction xs) auto

lemma arg_words_rest: "arg_words (rest_args cs) = tl (arg_words cs)"
  unfolding rest_args_def
  using arg_words_drop_word[OF dropWhile_hd[of "\<lambda>c. c = SPC"]]
  by (simp add: arg_words_dropWhile_space)

section \<open>The loops over the bytes of the string\<close>

fun sel_word :: "bytes \<Rightarrow> bool \<times> nat \<Rightarrow> nat \<Rightarrow> bytes" where
  "sel_word [] st index = []"
| "sel_word (c # cs) st index =
    (let st' = scan c st in
     (if c \<noteq> SPC \<and> snd st' = index then [c] else []) @
     (if snd st' > index then [] else sel_word cs st' index))"

definition ended_words :: "bool \<times> nat \<Rightarrow> nat" where
  "ended_words st = (if fst st then snd st + 1 else snd st)"

lemma ended_words_pair [simp]: "ended_words (b, k) = (if b then k + 1 else k)"
  by (simp add: ended_words_def)

lemma ended_words_scan:
  "ended_words (foldl (\<lambda>st c. scan c st) (False, k) cs) = k + length (arg_words cs)"
  "ended_words (foldl (\<lambda>st c. scan c st) (True, k) cs) =
    k + 1 + length (arg_words (dropWhile (\<lambda>x. x \<noteq> SPC) cs))"
  by (induction cs arbitrary: k) auto

lemma arg_count_loop_cstr:
  assumes "cstr m a str"
  shows "i \<le> length str \<Longrightarrow>
    arg_count_loop m a (length str) i st = foldl (\<lambda>st c. scan c st) st (drop i str)"
proof (induction "length str - i" arbitrary: i st)
  case 0
  then show ?case by (subst arg_count_loop.simps) simp
next
  case (Suc k)
  then have lt: "i < length str" by simp
  then have "drop i str = str ! i # drop (i + 1) str" by (simp add: Cons_nth_drop_Suc)
  with Suc lt show ?case
    by (subst arg_count_loop.simps) (simp add: cstr_nth[OF assms])
qed

lemma sel_word_spec:
  "sel_word cs (False, k) index =
    (if k \<le> index \<and> index - k < length (arg_words cs) then arg_words cs ! (index - k) else [])"
  "sel_word cs (True, k) index =
    (if k = index then takeWhile (\<lambda>x. x \<noteq> SPC) cs
     else if k < index \<and> index - k - 1 < length (arg_words (dropWhile (\<lambda>x. x \<noteq> SPC) cs))
     then arg_words (dropWhile (\<lambda>x. x \<noteq> SPC) cs) ! (index - k - 1) else [])"
proof (induction cs arbitrary: k)
  case (Cons c cs)
  { case 1 show ?case using Cons by (auto simp: Let_def nth_Cons') }
  { case 2 show ?case using Cons by (auto simp: Let_def nth_Cons') }
qed auto

lemma length_sel_word: "length (sel_word cs st index) \<le> length cs"
  by (induction cs arbitrary: st) (auto simp: Let_def intro: le_SucI)

lemma arg_length_loop_cstr:
  assumes "cstr m a str"
  shows "i \<le> length str \<Longrightarrow>
    arg_length_loop m a index (length str) i st n = n + length (sel_word (drop i str) st index)"
proof (induction "length str - i" arbitrary: i st n)
  case 0
  then show ?case by (subst arg_length_loop.simps) simp
next
  case (Suc k)
  then have lt: "i < length str" by simp
  then have "drop i str = str ! i # drop (i + 1) str" by (simp add: Cons_nth_drop_Suc)
  with Suc lt show ?case
    by (subst arg_length_loop.simps) (simp add: cstr_nth[OF assms] Let_def)
qed

text \<open>
  Copying a word out: the string must lie outside the bytes written so far and to come.
\<close>

lemma get_argument_loop_cstr:
  assumes "length str < 4294967296"
  shows "cstr m a str \<Longrightarrow> i \<le> length str \<Longrightarrow>
    disjnt_rng (buf + of_nat j) (length (sel_word (drop i str) st index)) a (Suc (length str)) \<Longrightarrow>
    get_argument_loop m a buf index (length str) i st j =
      (j + length (sel_word (drop i str) st index),
       wr_bytes m (buf + of_nat j) (sel_word (drop i str) st index))"
proof (induction "length str - i" arbitrary: i st j m)
  case 0
  then show ?case by (subst get_argument_loop.simps) simp
next
  case (Suc k)
  let ?c = "m (a + of_nat i)" and ?st = "scan (m (a + of_nat i)) st"
  let ?m = "m(buf + of_nat j := ?c)"
  from Suc have lt: "i < length str" by simp
  then have dr: "drop i str = ?c # drop (i + 1) str"
    using cstr_nth[OF Suc.prems(1) lt] by (simp add: Cons_nth_drop_Suc)
  have nz: "?c \<noteq> 0" using Suc.prems(1) lt by (rule cstr_nth_nonzero)
  have k: "k = length str - (i + 1)" "i + 1 \<le> length str" using Suc.hyps(2) lt by auto
  have len: "length (sel_word (drop (i + 1) str) ?st index) < 4294967296"
    using assms lt by (intro le_less_trans[OF length_sel_word]) auto
  show ?case
  proof (cases "?c \<noteq> SPC \<and> snd ?st = index")
    case True
    let ?w = "sel_word (drop (i + 1) str) ?st index"
    have sel: "sel_word (drop i str) st index = ?c # ?w"
      using True by (simp add: dr Let_def)
    have dis: "disjnt_rng (buf + of_nat (j + 1)) (length ?w) a (Suc (length str))"
      using Suc.prems(3) unfolding sel by (simp add: disjnt_rng_def)
        (metis (no_types, lifting) add.commute add.left_commute in_rng_tail)
    have "\<not> in_rng a (Suc (length str)) (buf + of_nat j)"
      using Suc.prems(3) unfolding sel by (rule disjnt_rngD1) simp
    then have "cstr ?m a str \<longleftrightarrow> cstr m a str"
      using assms by (intro cstr_cong) auto
    with Suc.prems(1) have cs: "cstr ?m a str" by blast
    have "get_argument_loop ?m a buf index (length str) (i + 1) ?st (j + 1) =
        (j + 1 + length ?w, wr_bytes ?m (buf + of_nat (j + 1)) ?w)"
      by (rule Suc.hyps(1)[OF k(1) cs k(2) dis])
    with True nz lt len show ?thesis
      by (subst get_argument_loop.simps) (simp add: sel Let_def wr_bytes_Cons add.assoc add.commute[of 1])
  next
    case False
    have sel: "sel_word (drop i str) st index =
        (if snd ?st > index then [] else sel_word (drop (i + 1) str) ?st index)"
      using False by (auto simp: dr Let_def)
    show ?thesis
    proof (cases "snd ?st > index")
      case True
      with False lt show ?thesis
        by (subst get_argument_loop.simps) (auto simp: sel Let_def)
    next
      case False2: False
      then have dis: "disjnt_rng (buf + of_nat j)
          (length (sel_word (drop (i + 1) str) ?st index)) a (Suc (length str))"
        using Suc.prems(3) by (simp add: sel)
      from Suc.hyps(1)[OF k(1) Suc.prems(1) k(2) dis] False False2 lt show ?thesis
        by (subst get_argument_loop.simps) (auto simp: sel Let_def)
    qed
  qed
qed

section \<open>What the parser computes\<close>

lemma get_argument_count_cstr:
  assumes "cstr m a str" "a \<noteq> NULL" "length str \<le> 1000000"
  shows "get_argument_count m a = int (length (arg_words str))"
proof -
  have "ended_words (arg_count_loop m a (length str) 0 (False, 0)) = length (arg_words str)"
    using ended_words_scan(1)[of 0 str] by (simp add: arg_count_loop_cstr[OF assms(1)])
  then show ?thesis
    using assms by (cases "arg_count_loop m a (length str) 0 (False, 0)")
      (auto simp: get_argument_count_def string_length_cstr)
qed

lemma get_argument_length_eq:
  assumes "cstr m a str" "a \<noteq> NULL" "length str \<le> 1000000"
  shows "get_argument_count m a = int (length (arg_words str)) \<and>
    get_argument_length m a index =
      (if unat index < length (arg_words str) then int (length (arg_words str ! unat index)) else - 1)"
proof -
  have cnt: "get_argument_count m a = int (length (arg_words str))"
    using assms by (rule get_argument_count_cstr)
  moreover have len: "string_length m a = int (length str)"
    using assms by (simp add: string_length_cstr)
  moreover have "arg_length_loop m a (unat index) (length str) 0 (False, 0) 0 =
      length (arg_words str ! unat index)" if "unat index < length (arg_words str)"
    using that by (simp add: arg_length_loop_cstr[OF assms(1)] sel_word_spec)
  moreover have "arg_words str ! unat index \<noteq> []" if "unat index < length (arg_words str)"
    using that by (intro arg_words_nonempty[of _ str]) simp
  ultimately show ?thesis
    by (auto simp: get_argument_length_def Let_def)
qed

text \<open>The memory and the string of the witnesses: a command line with irregular spacing.\<close>

definition demo_line :: bytes where
  "demo_line = asc ''  cat  a.txt b ''"

definition demo_mem :: mem where
  "demo_mem = wr_bytes (\<lambda>_. 255) 4096 (demo_line @ [0])"

lemma demo_line_eq: "demo_line = [32, 32, 99, 97, 116, 32, 32, 97, 46, 116, 120, 116, 32, 98, 32]"
  by (simp add: demo_line_def asc_def of_char_def)

lemma demo_words: "arg_words demo_line = [asc ''cat'', asc ''a.txt'', asc ''b'']"
  by (simp add: demo_line_eq asc_def of_char_def)

lemma demo_cstr: "cstr demo_mem 4096 demo_line"
  unfolding demo_mem_def by (rule cstr_wr_bytes) (simp_all add: demo_line_eq)

lemma get_argument_eq:
  assumes "cstr m a str" "a \<noteq> NULL" "length str \<le> 1000000"
    and "unat index < length (arg_words str) \<Longrightarrow>
      disjnt_rng buf (length (arg_words str ! unat index)) a (Suc (length str))"
  shows "get_argument m a index buf =
    (if unat index < length (arg_words str)
     then (int (length (arg_words str ! unat index)), wr_bytes m buf (arg_words str ! unat index))
     else (- 1, m))"
proof -
  have cnt: "get_argument_count m a = int (length (arg_words str))"
    using assms(1-3) by (rule get_argument_count_cstr)
  have len: "string_length m a = int (length str)"
    using assms(1-3) by (simp add: string_length_cstr)
  have "get_argument_loop m a buf (unat index) (length str) 0 (False, 0) 0 =
      (length (arg_words str ! unat index), wr_bytes m buf (arg_words str ! unat index))"
    if "unat index < length (arg_words str)"
    using get_argument_loop_cstr[OF _ assms(1), of 0 buf 0 "(False, 0)" "unat index"]
      assms(3,4) that by (simp add: sel_word_spec)
  with cnt len show ?thesis
    by (auto simp: get_argument_def Let_def)
qed

text \<open>
  C33: copying a word out. When the destination of the word does not overlap the argument
  string, \<open>get_argument\<close> writes exactly the bytes of the word with the given index, returns
  their number and changes nothing else (in particular it stores no terminator); with an index
  out of range it returns -1 and leaves memory alone.
\<close>

theorem get_argument_spec:
  assumes "cstr m a str" "a \<noteq> NULL" "length str \<le> 1000000"
    and "unat index < length (arg_words str) \<Longrightarrow>
      disjnt_rng buf (length (arg_words str ! unat index)) a (Suc (length str))"
  shows "get_argument m a index buf =
    (if unat index < length (arg_words str)
     then (int (length (arg_words str ! unat index)), wr_bytes m buf (arg_words str ! unat index))
     else (- 1, m))"
  using assms by (rule get_argument_eq)

theorem get_argument_spec_witness:
  "get_argument demo_mem 4096 1 8192 = (5, wr_bytes demo_mem 8192 (asc ''a.txt''))"
proof -
  have "disjnt_rng 8192 (length (arg_words demo_line ! unat (1 :: u32))) 4096 (Suc (length demo_line))"
    by (rule disjnt_rng_sym, rule disjnt_rng_below) (simp_all add: demo_line_eq)
  from get_argument_spec[OF demo_cstr _ _ this] show ?thesis
    by (simp add: demo_words asc_def demo_line_eq[THEN arg_cong[of _ _ length]])
qed

section \<open>Everything after the first word\<close>

lemma skip_loop_cstr:
  assumes "\<not> P 0"
  shows "cstr m (a + i) str \<Longrightarrow>
    skip_loop P m a i = Some (i + of_nat (length (takeWhile P str))) \<and>
    cstr m (a + (i + of_nat (length (takeWhile P str)))) (dropWhile P str)"
proof (induction str arbitrary: i)
  case Nil
  with assms show ?case by (subst skip_loop.simps) simp
next
  case (Cons c cs)
  show ?case
  proof (cases "P c")
    case True
    with Cons.prems Cons.IH[of "i + 1"] show ?thesis
      by (subst skip_loop.simps) (simp add: algebra_simps)
  next
    case False
    with Cons.prems show ?thesis by (subst skip_loop.simps) simp
  qed
qed

lemma skip_loop_stop:
  assumes "\<exists>c \<in> set str. \<not> P c"
  shows "cstr m (a + i) str \<Longrightarrow>
    skip_loop P m a i = Some (i + of_nat (length (takeWhile P str))) \<and>
    cstr m (a + (i + of_nat (length (takeWhile P str)))) (dropWhile P str)"
  using assms
proof (induction str arbitrary: i)
  case (Cons c cs)
  show ?case
  proof (cases "P c")
    case True
    with Cons.prems Cons.IH[of "i + 1"] show ?thesis
      by (subst skip_loop.simps) (simp add: algebra_simps)
  next
    case False
    with Cons.prems show ?thesis by (subst skip_loop.simps) simp
  qed
qed simp

lemma two_words_space:
  "1 < length (arg_words str) \<Longrightarrow> SPC \<in> set (dropWhile (\<lambda>c. c = SPC) str)"
proof -
  assume two: "1 < length (arg_words str)"
  let ?d = "dropWhile (\<lambda>c. c = SPC) str"
  from two have "1 < length (arg_words ?d)" by (simp add: arg_words_dropWhile_space)
  then have "tl (arg_words ?d) \<noteq> []" by (cases "arg_words ?d") auto
  then have "arg_words (dropWhile (\<lambda>c. c \<noteq> SPC) ?d) \<noteq> []"
    using arg_words_drop_word[OF dropWhile_hd] by metis
  then have "dropWhile (\<lambda>c. c \<noteq> SPC) ?d \<noteq> []" by (metis arg_words.simps(1))
  then show ?thesis by (metis (mono_tags, lifting) dropWhile_eq_Nil_conv)
qed

lemma length_rest_args: "length (rest_args str) \<le> length str"
  unfolding rest_args_def by (meson le_trans length_dropWhile_le)

lemma skip_to_rest:
  assumes "cstr m a str" "1 < length (arg_words str)"
  obtains i1 i2 i3 where
    "skip_loop (\<lambda>c. c = SPC) m a 0 = Some i1"
    "skip_loop (\<lambda>c. c \<noteq> SPC) m a i1 = Some i2"
    "skip_loop (\<lambda>c. c = SPC) m a i2 = Some i3"
    "cstr m (a + i3) (rest_args str)"
    "i3 = of_nat (length str - length (rest_args str))"
proof -
  let ?t1 = "takeWhile (\<lambda>c. c = SPC) str" and ?d1 = "dropWhile (\<lambda>c. c = SPC) str"
  let ?t2 = "takeWhile (\<lambda>c. c \<noteq> SPC) ?d1" and ?d2 = "dropWhile (\<lambda>c. c \<noteq> SPC) ?d1"
  let ?t3 = "takeWhile (\<lambda>c. c = SPC) ?d2"
  let ?i1 = "0 + of_nat (length ?t1) :: u32"
  let ?i2 = "?i1 + of_nat (length ?t2)"
  let ?i3 = "?i2 + of_nat (length ?t3)"
  have 1: "skip_loop (\<lambda>c. c = SPC) m a 0 = Some ?i1 \<and> cstr m (a + ?i1) ?d1"
    by (rule skip_loop_cstr) (simp_all add: assms)
  have 2: "skip_loop (\<lambda>c. c \<noteq> SPC) m a ?i1 = Some ?i2 \<and> cstr m (a + ?i2) ?d2"
    by (rule skip_loop_stop) (use 1 two_words_space[OF assms(2)] in auto)
  have 3: "skip_loop (\<lambda>c. c = SPC) m a ?i2 = Some ?i3 \<and> cstr m (a + ?i3) (rest_args str)"
    unfolding rest_args_def by (rule skip_loop_cstr) (use 2 in simp_all)
  have "length str = length ?t1 + length ?t2 + length ?t3 + length (rest_args str)"
    unfolding rest_args_def by (metis append.assoc length_append takeWhile_dropWhile_id)
  then have "?i3 = of_nat (length str - length (rest_args str))" by (simp add: add.assoc)
  with 1 2 3 that show thesis by blast
qed

lemma get_next_arguments_eq:
  assumes "cstr m a str" "a \<noteq> NULL" "length str \<le> 1000000"
    and "disjnt_rng buf (length str) a (Suc (length str))"
  shows "get_next_arguments m a buf =
    (if arg_words str = [] then Some (- 1, m)
     else if length (arg_words str) = 1 then Some (0, m(buf := 0))
     else Some (int (length (rest_args str)), wr_bytes m buf (rest_args str @ [0])))
    \<and> arg_words (rest_args str) = tl (arg_words str)"
proof (cases "1 < length (arg_words str)")
  case False
  then have "arg_words str = [] \<or> length (arg_words str) = 1"
    by (cases "arg_words str") auto
  then show ?thesis
    using assms(1-3) arg_words_rest[of str]
    by (auto simp: get_next_arguments_def get_argument_count_cstr)
next
  case True
  from assms(1) True obtain i1 i2 i3 where skips:
    "skip_loop (\<lambda>c. c = SPC) m a 0 = Some i1" "skip_loop (\<lambda>c. c \<noteq> SPC) m a i1 = Some i2"
    "skip_loop (\<lambda>c. c = SPC) m a i2 = Some i3" and rest: "cstr m (a + i3) (rest_args str)"
    and i3: "i3 = of_nat (length str - length (rest_args str))"
    by (rule skip_to_rest)
  let ?k = "length str - length (rest_args str)" and ?n = "length (rest_args str)"
  have "disjnt_rng buf ?n (a + of_nat ?k) (Suc ?n)"
    unfolding disjnt_rng_def
  proof (intro allI notI, elim conjE)
    fix x assume x: "in_rng buf ?n x" "in_rng (a + of_nat ?k) (Suc ?n) x"
    then obtain j where "j < Suc ?n" "x = a + of_nat (?k + j)"
      by (auto dest!: in_rng_exD simp: add.assoc)
    moreover have "?k + j < Suc (length str)" if "j < Suc ?n" for j
      using that length_rest_args[of str] by linarith
    ultimately have "in_rng a (Suc (length str)) x"
      using assms(3) by (auto intro!: in_rngI simp del: of_nat_add)
    moreover have "in_rng buf (length str) x"
      using x(1) length_rest_args by (rule in_rng_mono)
    ultimately show False using assms(4) by (blast dest: disjnt_rngD1)
  qed
  then have "copy_nul m a buf i3 0 = Some (of_nat ?n, wr_bytes m buf (rest_args str))"
    using copy_nul_cstr[OF rest, of buf 0] i3 assms(3) length_rest_args[of str] by simp
  moreover have "sint (of_nat ?n :: u32) = int ?n"
    using assms(3) length_rest_args[of str] by (intro sint_of_nat32) linarith
  moreover have "?n < 4294967296"
    using assms(3) length_rest_args[of str] by linarith
  ultimately show ?thesis
    using True assms(1-3) skips arg_words_rest[of str]
    by (auto simp: get_next_arguments_def get_argument_count_cstr wr_bytes_snoc)
qed

text \<open>
  C32: the remaining arguments. With a destination outside the argument string,
  \<open>get_next_arguments\<close> always returns: -1 on a line without words, an empty string when the
  command has no arguments, and otherwise the NUL-terminated tail of the line that starts at
  its second word, whose words are those of the line without the first.
\<close>

theorem get_next_arguments_spec:
  assumes "cstr m a str" "a \<noteq> NULL" "length str \<le> 1000000"
    and "disjnt_rng buf (length str) a (Suc (length str))"
  shows "get_next_arguments m a buf =
    (if arg_words str = [] then Some (- 1, m)
     else if length (arg_words str) = 1 then Some (0, m(buf := 0))
     else Some (int (length (rest_args str)), wr_bytes m buf (rest_args str @ [0])))
    \<and> arg_words (rest_args str) = tl (arg_words str)"
  using assms by (rule get_next_arguments_eq)

theorem get_next_arguments_spec_witness:
  "get_next_arguments demo_mem 4096 8192 = Some (8, wr_bytes demo_mem 8192 (asc ''a.txt b '' @ [0]))"
proof -
  have "disjnt_rng 8192 (length demo_line) 4096 (Suc (length demo_line))"
    by (rule disjnt_rng_sym, rule disjnt_rng_below) (simp_all add: demo_line_eq)
  moreover have "rest_args demo_line = asc ''a.txt b ''"
    by (simp add: rest_args_def demo_line_eq asc_def of_char_def)
  ultimately show ?thesis
    using get_next_arguments_spec[OF demo_cstr, of 8192]
    by (simp add: demo_words demo_line_eq[THEN arg_cong[of _ _ length]] asc_def)
qed

end
