(* ===== verification/Lib_String.thy ===== *)
theory Lib_String
  imports Arg_Util
begin

text \<open>
  The string and memory routines of \<^verbatim>\<open>student-distrib/lib.c\<close>: \<^verbatim>\<open>strlen\<close>, \<^verbatim>\<open>strrev\<close>,
  \<^verbatim>\<open>itoa\<close>, \<^verbatim>\<open>strncmp\<close>, \<^verbatim>\<open>strcpy\<close>, \<^verbatim>\<open>strncpy\<close>, and the routines whose bodies are inline
  assembly, \<^verbatim>\<open>memset\<close>, \<^verbatim>\<open>memset_word\<close>, \<^verbatim>\<open>memset_dword\<close>, \<^verbatim>\<open>memcpy\<close> and \<^verbatim>\<open>memmove\<close>, which
  are translated instruction group by instruction group and shown equal to the plain byte
  operations they optimise.
\<close>

section \<open>Strings\<close>

partial_function (option) strlen_loop :: "mem \<Rightarrow> ptr \<Rightarrow> u32 \<Rightarrow> u32 option" where
  "strlen_loop m s len = (if m (s + len) \<noteq> 0 then strlen_loop m s (len + 1) else Some len)"

definition strlen :: "mem \<Rightarrow> ptr \<Rightarrow> u32 option" where
  "strlen m s = strlen_loop m s 0"

function strrev_loop :: "mem \<Rightarrow> ptr \<Rightarrow> int \<Rightarrow> int \<Rightarrow> mem" where
  "strrev_loop m s beg stop =
    (if beg < stop
     then let tmp = m (s + word_of_int stop);
              m1 = m(s + word_of_int stop := m (s + word_of_int beg));
              m2 = m1(s + word_of_int beg := tmp)
          in strrev_loop m2 s (beg + 1) (stop - 1)
     else m)"
  by pat_completeness auto
termination
  by (relation "measure (\<lambda>(m, s, beg, stop). nat (stop - beg))") auto

declare strrev_loop.simps [simp del]

definition strrev :: "mem \<Rightarrow> ptr \<Rightarrow> mem option" where
  "strrev m s = Option.bind (strlen m s) (\<lambda>len. Some (strrev_loop m s 0 (sint (len - 1))))"

text \<open>The array \<^verbatim>\<open>lookup\<close> of \<^verbatim>\<open>itoa\<close>, with the terminator the literal stores.\<close>

definition lookup :: bytes where
  "lookup = asc ''0123456789ABCDEFGHIJKLMNOPQRSTUVWXYZ'' @ [0]"

text \<open>
  \<open>None\<close> is a loop that does not end, \<open>Inl\<close> a fault: the division by a zero radix, a digit
  outside \<^verbatim>\<open>lookup\<close>. The remainder and quotient are unsigned, as \<^verbatim>\<open>newval\<close> is.
\<close>

partial_function (option) itoa_loop ::
  "mem \<Rightarrow> u32 \<Rightarrow> ptr \<Rightarrow> u32 \<Rightarrow> (fault + mem \<times> ptr) option" where
  "itoa_loop m newval newbuf radix =
    (if newval > 0
     then if radix = 0 then Some (Inl Divide_Error)
          else if unat (newval mod radix) \<ge> length lookup then Some (Inl Out_Of_Bounds)
          else itoa_loop (m(newbuf := lookup ! unat (newval mod radix)))
                 (newval div radix) (newbuf + 1) radix
     else Some (Inr (m, newbuf)))"

definition itoa :: "mem \<Rightarrow> u32 \<Rightarrow> ptr \<Rightarrow> u32 \<Rightarrow> (fault + mem) option" where
  "itoa m val buf radix =
    (if val = 0 then Some (Inr (m(buf := 48, buf + 1 := 0)))
     else Option.bind (itoa_loop m val buf radix) (\<lambda>r. case r of
         Inl f \<Rightarrow> Some (Inl f)
       | Inr (m', newbuf) \<Rightarrow> Option.bind (strrev (m'(newbuf := 0)) buf) (\<lambda>m''. Some (Inr m''))))"

function strncmp_loop :: "mem \<Rightarrow> ptr \<Rightarrow> ptr \<Rightarrow> nat \<Rightarrow> nat \<Rightarrow> int" where
  "strncmp_loop m s1 s2 n i =
    (if i < n
     then let c1 = m (s1 + of_nat i); c2 = m (s2 + of_nat i)
          in if c1 \<noteq> c2 \<or> c1 = 0 then sint c1 - sint c2 else strncmp_loop m s1 s2 n (i + 1)
     else 0)"
  by pat_completeness auto
termination
  by (relation "measure (\<lambda>(m, s1, s2, n, i). n - i)") auto

declare strncmp_loop.simps [simp del]

definition strncmp :: "mem \<Rightarrow> ptr \<Rightarrow> ptr \<Rightarrow> u32 \<Rightarrow> int" where
  "strncmp m s1 s2 n = strncmp_loop m s1 s2 (unat n) 0"

definition strcpy :: "mem \<Rightarrow> ptr \<Rightarrow> ptr \<Rightarrow> mem option" where
  "strcpy m dest src =
    Option.bind (copy_nul m src dest 0 0) (\<lambda>(i, m'). Some (m'(dest + i := 0)))"

function strncpy_pad :: "mem \<Rightarrow> ptr \<Rightarrow> nat \<Rightarrow> nat \<Rightarrow> mem" where
  "strncpy_pad m dest n i =
    (if i < n then strncpy_pad (m(dest + of_nat i := 0)) dest n (i + 1) else m)"
  by pat_completeness auto
termination
  by (relation "measure (\<lambda>(m, dest, n, i). n - i)") auto

declare strncpy_pad.simps [simp del]

function strncpy_loop :: "mem \<Rightarrow> ptr \<Rightarrow> ptr \<Rightarrow> nat \<Rightarrow> nat \<Rightarrow> mem" where
  "strncpy_loop m dest src n i =
    (if m (src + of_nat i) \<noteq> 0 \<and> i < n
     then strncpy_loop (m(dest + of_nat i := m (src + of_nat i))) dest src n (i + 1)
     else strncpy_pad m dest n i)"
  by pat_completeness auto
termination
  by (relation "measure (\<lambda>(m, dest, src, n, i). n - i)") auto

declare strncpy_loop.simps [simp del]

definition strncpy :: "mem \<Rightarrow> ptr \<Rightarrow> ptr \<Rightarrow> u32 \<Rightarrow> mem" where
  "strncpy m dest src n = strncpy_loop m dest src (unat n) 0"

section \<open>Block memory operations\<close>

text \<open>\<^verbatim>\<open>rep movsl\<close> and \<^verbatim>\<open>rep stosl\<close> with the direction flag clear.\<close>

fun rep_movsl :: "mem \<Rightarrow> ptr \<Rightarrow> ptr \<Rightarrow> nat \<Rightarrow> mem \<times> ptr \<times> ptr" where
  "rep_movsl m esi edi 0 = (m, esi, edi)"
| "rep_movsl m esi edi (Suc ecx) =
    rep_movsl (wr_bytes m edi (rd_bytes m esi 4)) (esi + 4) (edi + 4) ecx"

fun memcpy_bottom :: "mem \<Rightarrow> ptr \<Rightarrow> ptr \<Rightarrow> nat \<Rightarrow> mem" where
  "memcpy_bottom m esi edi 0 = m"
| "memcpy_bottom m esi edi (Suc edx) = memcpy_bottom (m(edi := m esi)) (esi + 1) (edi + 1) edx"

definition memcpy_aligned :: "mem \<Rightarrow> ptr \<Rightarrow> ptr \<Rightarrow> u32 \<Rightarrow> mem" where
  "memcpy_aligned m esi edi ecx =
    (let (m', esi', edi') = rep_movsl m esi edi (unat (drop_bit 2 ecx))
     in memcpy_bottom m' esi' edi' (unat (ecx AND 3)))"

function memcpy_top :: "mem \<Rightarrow> ptr \<Rightarrow> ptr \<Rightarrow> u32 \<Rightarrow> mem" where
  "memcpy_top m esi edi ecx =
    (if ecx = 0 then m
     else if edi AND 3 = 0 then memcpy_aligned m esi edi ecx
     else memcpy_top (m(edi := m esi)) (esi + 1) (edi + 1) (ecx - 1))"
  by pat_completeness auto
termination
  by (relation "measure (\<lambda>(m, esi, edi, ecx). unat ecx)") (auto simp: unat_minus_one unat_gt_0)

declare memcpy_top.simps [simp del]

definition memcpy :: "mem \<Rightarrow> ptr \<Rightarrow> ptr \<Rightarrow> u32 \<Rightarrow> mem" where
  "memcpy m dest src n = memcpy_top m src dest n"

text \<open>The little-endian bytes of a register, as \<^verbatim>\<open>stosl\<close> and \<^verbatim>\<open>stosw\<close> store them.\<close>

definition le_bytes4 :: "u32 \<Rightarrow> bytes" where
  "le_bytes4 w = [ucast w, ucast (drop_bit 8 w), ucast (drop_bit 16 w), ucast (drop_bit 24 w)]"

definition le_bytes2 :: "u32 \<Rightarrow> bytes" where
  "le_bytes2 w = [ucast w, ucast (drop_bit 8 w)]"

fun rep_stosl :: "mem \<Rightarrow> u32 \<Rightarrow> ptr \<Rightarrow> nat \<Rightarrow> mem \<times> ptr" where
  "rep_stosl m eax edi 0 = (m, edi)"
| "rep_stosl m eax edi (Suc ecx) = rep_stosl (wr_bytes m edi (le_bytes4 eax)) eax (edi + 4) ecx"

fun rep_stosw :: "mem \<Rightarrow> u32 \<Rightarrow> ptr \<Rightarrow> nat \<Rightarrow> mem \<times> ptr" where
  "rep_stosw m eax edi 0 = (m, edi)"
| "rep_stosw m eax edi (Suc ecx) = rep_stosw (wr_bytes m edi (le_bytes2 eax)) eax (edi + 2) ecx"

fun memset_bottom :: "mem \<Rightarrow> u32 \<Rightarrow> ptr \<Rightarrow> nat \<Rightarrow> mem" where
  "memset_bottom m eax edi 0 = m"
| "memset_bottom m eax edi (Suc edx) = memset_bottom (m(edi := ucast eax)) eax (edi + 1) edx"

definition memset_aligned :: "mem \<Rightarrow> u32 \<Rightarrow> ptr \<Rightarrow> u32 \<Rightarrow> mem" where
  "memset_aligned m eax edi ecx =
    (let (m', edi') = rep_stosl m eax edi (unat (drop_bit 2 ecx))
     in memset_bottom m' eax edi' (unat (ecx AND 3)))"

function memset_top :: "mem \<Rightarrow> u32 \<Rightarrow> ptr \<Rightarrow> u32 \<Rightarrow> mem" where
  "memset_top m eax edi ecx =
    (if ecx = 0 then m
     else if edi AND 3 = 0 then memset_aligned m eax edi ecx
     else memset_top (m(edi := ucast eax)) eax (edi + 1) (ecx - 1))"
  by pat_completeness auto
termination
  by (relation "measure (\<lambda>(m, eax, edi, ecx). unat ecx)") (auto simp: unat_minus_one unat_gt_0)

declare memset_top.simps [simp del]

definition memset :: "mem \<Rightarrow> ptr \<Rightarrow> u32 \<Rightarrow> u32 \<Rightarrow> mem" where
  "memset m s c n =
    (let c' = c AND 255
     in memset_top m (push_bit 24 c' OR push_bit 16 c' OR push_bit 8 c' OR c') s n)"

definition memset_word :: "mem \<Rightarrow> ptr \<Rightarrow> u32 \<Rightarrow> u32 \<Rightarrow> mem" where
  "memset_word m s c n = fst (rep_stosw m c s (unat n))"

definition memset_dword :: "mem \<Rightarrow> ptr \<Rightarrow> u32 \<Rightarrow> u32 \<Rightarrow> mem" where
  "memset_dword m s c n = fst (rep_stosl m c s (unat n))"

text \<open>
  \<^verbatim>\<open>rep movsb\<close> in both directions. \<^verbatim>\<open>memmove\<close> returns the direction flag it leaves behind
  next to memory: after a backward copy the flag stays set.
\<close>

fun rep_movsb_down :: "mem \<Rightarrow> ptr \<Rightarrow> ptr \<Rightarrow> nat \<Rightarrow> mem" where
  "rep_movsb_down m esi edi 0 = m"
| "rep_movsb_down m esi edi (Suc ecx) = rep_movsb_down (m(edi := m esi)) (esi - 1) (edi - 1) ecx"

fun rep_movsb_up :: "mem \<Rightarrow> ptr \<Rightarrow> ptr \<Rightarrow> nat \<Rightarrow> mem" where
  "rep_movsb_up m esi edi 0 = m"
| "rep_movsb_up m esi edi (Suc ecx) = rep_movsb_up (m(edi := m esi)) (esi + 1) (edi + 1) ecx"

definition memmove :: "mem \<Rightarrow> ptr \<Rightarrow> ptr \<Rightarrow> u32 \<Rightarrow> mem \<times> bool" where
  "memmove m dest src n =
    (if src \<ge> dest then (rep_movsb_up m src dest (unat n), False)
     else (rep_movsb_down m (src + n - 1) (dest + n - 1) (unat n), True))"

section \<open>Length and reversal\<close>

lemma strlen_loop_cstr:
  "cstr m (s + i) str \<Longrightarrow> strlen_loop m s i = Some (i + of_nat (length str))"
proof (induction str arbitrary: i)
  case Nil
  then show ?case by (subst strlen_loop.simps) simp
next
  case (Cons c cs)
  then show ?case by (subst strlen_loop.simps) (simp add: algebra_simps)
qed

lemma strlen_cstr: "cstr m s str \<Longrightarrow> strlen m s = Some (of_nat (length str))"
  using strlen_loop_cstr[of m s 0 str] by (simp add: strlen_def)

lemma strrev_loop_at:
  assumes "0 \<le> x" "x < 4294967296"
  shows "0 \<le> b \<Longrightarrow> e < 4294967296 \<Longrightarrow>
    strrev_loop m s b e (s + word_of_int x) =
      m (s + word_of_int (if b \<le> x \<and> x \<le> e then b + e - x else x))"
proof (induction m s b e rule: strrev_loop.induct)
  case (1 m s b e)
  show ?case
  proof (cases "b < e")
    case False
    then have "(if b \<le> x \<and> x \<le> e then b + e - x else x) = x" by auto
    with False show ?thesis by (subst strrev_loop.simps) simp
  next
    case True
    define f where "f y = m (s + word_of_int y)" for y
    let ?m = "m(s + word_of_int e := m (s + word_of_int b), s + word_of_int b := m (s + word_of_int e))"
    let ?y = "if b + 1 \<le> x \<and> x \<le> e - 1 then b + 1 + (e - 1) - x else x"
    have "s + word_of_int y = s + word_of_int z \<longleftrightarrow> y = z"
      if "0 \<le> y" "y < 4294967296" "0 \<le> z" "z < 4294967296" for y z
      using that by (simp add: word_of_int_eq32)
    then have at: "?m (s + word_of_int y) = f (if y = b then e else if y = e then b else y)"
      if "0 \<le> y" "y < 4294967296" for y
      using that True 1 by (auto simp: f_def)
    have "strrev_loop m s b e (s + word_of_int x) = strrev_loop ?m s (b + 1) (e - 1) (s + word_of_int x)"
      using True by (subst strrev_loop.simps) (simp add: Let_def)
    also have "\<dots> = ?m (s + word_of_int ?y)"
      by (rule "1.IH"[OF True refl refl refl]) (use "1.prems" True in auto)
    also have "\<dots> = f (if ?y = b then e else if ?y = e then b else ?y)"
      by (rule at) (use 1 assms True in auto)
    also have "\<dots> = f (if b \<le> x \<and> x \<le> e then b + e - x else x)"
      using True by (intro arg_cong[of _ _ f]) auto
    finally show ?thesis by (simp only: f_def)
  qed
qed

lemma strrev_cstr:
  assumes "cstr m s str" "length str < 2147483648"
  shows "strrev m s = Some (wr_bytes m s (rev str))"
proof -
  have e: "sint (of_nat (length str) - 1 :: u32) = int (length str) - 1"
  proof (cases "length str")
    case (Suc k)
    then show ?thesis using assms(2) by simp
  qed simp
  have "strrev_loop m s 0 (int (length str) - 1) a = wr_bytes m s (rev str) a" for a
  proof -
    obtain k where k: "k < 4294967296" "a = s + of_nat k"
      using addr_decomp[of a s] unat_lt32 by blast
    have "strrev_loop m s 0 (int (length str) - 1) (s + word_of_int (int k)) =
      m (s + word_of_int (if int k < int (length str) then int (length str) - 1 - int k else int k))"
      using assms(2) k by (subst strrev_loop_at) auto
    moreover have "m (s + word_of_int (int (length str) - 1 - int k)) = rev str ! k"
      if "k < length str"
    proof -
      have "int (length str) - 1 - int k = int (length str - Suc k)" using that by simp
      then have "word_of_int (int (length str) - 1 - int k) = (of_nat (length str - Suc k) :: u32)"
        by (simp only: of_int_of_nat_eq)
      moreover have "m (s + of_nat (length str - Suc k)) = str ! (length str - Suc k)"
        by (rule cstr_nth[OF assms(1)]) (use that in simp)
      ultimately show ?thesis using that by (simp only: rev_nth)
    qed
    ultimately show ?thesis using k by (auto simp: wr_bytes_def)
  qed
  then show ?thesis
    by (simp add: strrev_def strlen_cstr[OF assms(1)] e) blast
qed

section \<open>Number conversion\<close>

text \<open>Digits in a radix, least significant first, and the number they denote.\<close>

fun digits :: "nat \<Rightarrow> nat \<Rightarrow> nat list" where
  "digits r n = (if n = 0 \<or> r < 2 then [] else n mod r # digits r (n div r))"

declare digits.simps [simp del]

fun undigits :: "nat \<Rightarrow> nat list \<Rightarrow> nat" where
  "undigits r [] = 0"
| "undigits r (d # ds) = d + r * undigits r ds"

lemma undigits_digits: "2 \<le> r \<Longrightarrow> undigits r (digits r n) = n"
proof (induction r n rule: digits.induct)
  case (1 r n)
  then show ?case
    by (subst digits.simps) (auto simp: mult.commute)
qed

lemma digits_less: "d \<in> set (digits r n) \<Longrightarrow> d < r"
proof (induction r n rule: digits.induct)
  case (1 r n)
  then show ?case
    by (subst (asm) (2) digits.simps) (auto split: if_splits)
qed

lemma length_digits: "2 \<le> r \<Longrightarrow> n < 2 ^ k \<Longrightarrow> length (digits r n) \<le> k"
proof (induction r n arbitrary: k rule: digits.induct)
  case (1 r n)
  show ?case
  proof (cases "n = 0")
    case True
    then show ?thesis by (simp add: digits.simps)
  next
    case False
    with 1 obtain j where k: "k = Suc j" by (cases k) auto
    have "n div r \<le> n div 2" using 1 by (intro div_le_mono2) auto
    also have "n div 2 < 2 ^ j" using 1 k by auto
    finally have "length (digits r (n div r)) \<le> j" using 1 False by auto
    then show ?thesis using k by (subst digits.simps) auto
  qed
qed

lemma length_digits_pow: "2 \<le> r \<Longrightarrow> n < r ^ k \<Longrightarrow> length (digits r n) \<le> k"
proof (induction k arbitrary: n)
  case 0
  then show ?case by (simp add: digits.simps)
next
  case (Suc k)
  then have "n div r < r ^ k" by (intro less_mult_imp_div_less) (simp add: mult.commute)
  with Suc show ?case by (subst digits.simps) auto
qed

lemma lookup_eq: "lookup =
   [48, 49, 50, 51, 52, 53, 54, 55, 56, 57, 65, 66, 67, 68, 69, 70, 71, 72, 73, 74, 75, 76, 77,
    78, 79, 80, 81, 82, 83, 84, 85, 86, 87, 88, 89, 90, 0]"
  by (simp add: lookup_def asc_def of_char_def)

lemma length_lookup [simp]: "length lookup = 37"
  by (simp add: lookup_eq)

lemma lookup_nonzero: "d < 36 \<Longrightarrow> lookup ! d \<noteq> 0"
proof -
  assume "d < 36"
  moreover have "\<forall>d \<in> set [0..<36]. lookup ! d \<noteq> 0"
    by (simp add: lookup_eq upt_conv_Cons)
  ultimately show ?thesis by simp
qed

lemma itoa_loop_digits:
  assumes "2 \<le> unat r" "unat r \<le> 36"
  shows "length (digits (unat r) (unat v)) < 4294967296 \<Longrightarrow> itoa_loop m v p r =
    Some (Inr (wr_bytes m p (map ((!) lookup) (digits (unat r) (unat v))),
               p + of_nat (length (digits (unat r) (unat v)))))"
proof (induction "unat v" arbitrary: v m p rule: less_induct)
  case less
  let ?d = "unat v mod unat r"
  have r: "r \<noteq> 0" using assms by auto
  show ?case
  proof (cases "v = 0")
    case True
    then show ?thesis by (subst itoa_loop.simps) (simp add: digits.simps)
  next
    case False
    then have pos: "0 < v" "0 < unat v" by (simp_all add: word_gt_0 unat_gt_0)
    have u: "unat (v mod r) = ?d" "unat (v div r) = unat v div unat r"
      by (simp_all add: unat_mod unat_div)
    have dg: "digits (unat r) (unat v) = ?d # digits (unat r) (unat (v div r))"
      using pos assms by (subst digits.simps) (simp add: u)
    have lt: "?d < 36" using assms mod_less_divisor[of "unat r" "unat v"] by linarith
    have dec: "unat (v div r) < unat v" using pos assms by (simp add: u)
    have "itoa_loop (m(p := lookup ! ?d)) (v div r) (p + 1) r =
        Some (Inr (wr_bytes (m(p := lookup ! ?d)) (p + 1) (map ((!) lookup) (digits (unat r) (unat (v div r)))),
               p + 1 + of_nat (length (digits (unat r) (unat (v div r))))))"
      using less.prems dec by (intro less.hyps) (simp_all add: dg)
    with pos r lt less.prems show ?thesis
      by (subst itoa_loop.simps) (simp add: dg u wr_bytes_Cons add.assoc)
  qed
qed

definition itoa_digits :: "nat \<Rightarrow> nat \<Rightarrow> nat list" where
  "itoa_digits r n = (if n = 0 then [0] else rev (digits r n))"

lemma itoa_digits_props:
  assumes "2 \<le> r" "n < 4294967296"
  shows "undigits r (rev (itoa_digits r n)) = n" and "length (itoa_digits r n) \<le> 32"
    and "d \<in> set (itoa_digits r n) \<Longrightarrow> d < r" and "itoa_digits r n \<noteq> []"
  using assms length_digits[of r n 32] digits.simps[of r n]
  by (auto simp: itoa_digits_def undigits_digits dest: digits_less split: if_splits)

lemma itoa_eq:
  assumes "2 \<le> unat radix" "unat radix \<le> 36"
  shows "itoa m val buf radix =
      Some (Inr (wr_bytes m buf (map ((!) lookup) (itoa_digits (unat radix) (unat val)) @ [0])))"
proof -
  let ?ds = "digits (unat radix) (unat val)"
  let ?str = "map ((!) lookup) ?ds"
  have len: "length ?ds \<le> 32" using assms by (intro length_digits) auto
  have nz: "0 \<notin> set ?str"
    using assms lookup_nonzero by (fastforce dest!: digits_less)
  have "itoa m val buf radix = Some (Inr (wr_bytes m buf (rev ?str @ [0])))" if "val \<noteq> 0"
  proof -
    have "itoa_loop m val buf radix = Some (Inr (wr_bytes m buf ?str, buf + of_nat (length ?ds)))"
      using itoa_loop_digits[OF assms] len by simp
    moreover have "(wr_bytes m buf ?str)(buf + of_nat (length ?ds) := 0) = wr_bytes m buf (?str @ [0])"
      using len by (simp add: wr_bytes_snoc)
    moreover have "strrev (wr_bytes m buf (?str @ [0])) buf =
        Some (wr_bytes (wr_bytes m buf (?str @ [0])) buf (rev ?str))"
      using len nz by (intro strrev_cstr cstr_wr_bytes) auto
    moreover have "wr_bytes (wr_bytes m buf (?str @ [0])) buf (rev ?str) = wr_bytes m buf (rev ?str @ [0])"
      by (rule ext) (auto simp: wr_bytes_def nth_append)
    ultimately show ?thesis using that by (simp add: itoa_def)
  qed
  moreover have "itoa m 0 buf radix = Some (Inr (wr_bytes m buf [48, 0]))"
    by (simp add: itoa_def wr_bytes_Cons)
  moreover have "lookup ! 0 = 48" by (simp add: lookup_eq)
  ultimately show ?thesis
    by (cases "val = 0") (simp_all add: itoa_digits_def rev_map unat_eq_0)
qed

text \<open>
  C36: number printing. For every radix from 2 to 36, \<open>itoa\<close> terminates without a fault and
  leaves at \<open>buf\<close> the NUL-terminated digits of the value, most significant first, at most 32
  of them, and the digits denote the value: printing and reading back is the identity.
\<close>

theorem itoa_spec:
  assumes "2 \<le> unat radix" "unat radix \<le> 36"
  shows "itoa m val buf radix =
      Some (Inr (wr_bytes m buf (map ((!) lookup) (itoa_digits (unat radix) (unat val)) @ [0])))
    \<and> undigits (unat radix) (rev (itoa_digits (unat radix) (unat val))) = unat val
    \<and> length (itoa_digits (unat radix) (unat val)) \<le> 32"
  using itoa_eq[OF assms] itoa_digits_props[of "unat radix" "unat val"] assms by simp

theorem itoa_spec_witness:
  "itoa (\<lambda>_. 0) 687 4096 16 = Some (Inr (wr_bytes (\<lambda>_. 0) 4096 (asc ''2AF'' @ [0])))"
  using itoa_spec[of 16 "\<lambda>_. 0" 687 4096]
  by (simp add: itoa_digits_def digits.simps lookup_eq asc_def of_char_def)

section \<open>Comparing and copying strings\<close>

lemma strncmp_loop_zero:
  "cstr m (s1 + of_nat i) a \<Longrightarrow> cstr m (s2 + of_nat i) b \<Longrightarrow> i \<le> n \<Longrightarrow>
    strncmp_loop m s1 s2 n i = 0 \<longleftrightarrow> take (n - i) a = take (n - i) b"
proof (induction "n - i" arbitrary: i a b)
  case 0
  then show ?case by (subst strncmp_loop.simps) simp
next
  case (Suc k)
  then have lt: "i < n" and k: "n - i = Suc (n - (i + 1))" by auto
  have inj: "sint x = sint y \<longleftrightarrow> x = y" for x y :: u8 by (auto dest: signed_word_eqI)
  show ?case
  proof (cases a; cases b)
    fix c cs d ds assume ab: "a = c # cs" "b = d # ds"
    have "strncmp_loop m s1 s2 n (i + 1) = 0 \<longleftrightarrow> take (n - (i + 1)) cs = take (n - (i + 1)) ds"
      using Suc.prems lt ab Suc.hyps(2) by (intro Suc.hyps(1)) (auto simp: algebra_simps)
    with Suc.prems lt ab show ?thesis
      by (subst strncmp_loop.simps) (auto simp: k inj Let_def)
  qed (use Suc.prems lt inj[of _ 0] inj[of 0] in
      \<open>subst strncmp_loop.simps; auto simp: k Let_def\<close>)+
qed

text \<open>
  \<open>strncmp\<close> returns 0 exactly when the two strings agree on their first \<open>n\<close> bytes.
\<close>

theorem strncmp_zero_iff:
  assumes "cstr m s1 a" "cstr m s2 b"
  shows "strncmp m s1 s2 n = 0 \<longleftrightarrow> take (unat n) a = take (unat n) b"
  using strncmp_loop_zero[of m s1 0 a s2 b "unat n"] assms by (simp add: strncmp_def)

theorem strncmp_zero_iff_witness:
  "strncmp demo_mem 4096 4097 1 = 0 \<and> strncmp demo_mem 4096 4097 2 \<noteq> 0"
proof -
  have "cstr demo_mem 4097 (tl demo_line)"
    using demo_cstr by (simp add: demo_line_eq)
  from strncmp_zero_iff[OF demo_cstr this, of 1] strncmp_zero_iff[OF demo_cstr this, of 2]
  show ?thesis by (simp add: demo_line_eq)
qed

lemma strcpy_cstr:
  assumes "cstr m src str" "disjnt_rng dest (length str) src (Suc (length str))" "length str < 4294967296"
  shows "strcpy m dest src = Some (wr_bytes m dest (str @ [0]))"
  using copy_nul_cstr[of m src 0 str dest 0] assms by (simp add: strcpy_def wr_bytes_snoc)

lemma strncpy_pad_eq:
  "i \<le> n \<Longrightarrow> n \<le> 4294967296 \<Longrightarrow> strncpy_pad m dest n i = wr_bytes m (dest + of_nat i) (replicate (n - i) 0)"
proof (induction "n - i" arbitrary: i m)
  case 0
  then show ?case by (subst strncpy_pad.simps) simp
next
  case (Suc k)
  then have lt: "i < n" and k: "n - i = Suc (n - (i + 1))" by auto
  have "strncpy_pad (m(dest + of_nat i := 0)) dest n (i + 1) =
      wr_bytes (m(dest + of_nat i := 0)) (dest + of_nat (i + 1)) (replicate (n - (i + 1)) 0)"
    using Suc lt by (intro Suc.hyps(1)) auto
  with lt Suc.prems show ?case
    by (subst strncpy_pad.simps) (simp add: k wr_bytes_Cons algebra_simps)
qed

lemma strncpy_loop_eq:
  "cstr m (src + of_nat i) str \<Longrightarrow> i \<le> n \<Longrightarrow> n < 4294967296 \<Longrightarrow>
    disjnt_rng (dest + of_nat i) (length (take (n - i) str)) (src + of_nat i) (Suc (length str)) \<Longrightarrow>
    length str < 4294967296 \<Longrightarrow>
    strncpy_loop m dest src n i =
      wr_bytes m (dest + of_nat i) (take (n - i) str @ replicate (n - i - length str) 0)"
proof (induction "n - i" arbitrary: i m str)
  case 0
  then show ?case by (subst strncpy_loop.simps) (simp add: strncpy_pad_eq)
next
  case (Suc k)
  then have lt: "i < n" and k: "n - i = Suc (n - (i + 1))" by auto
  show ?case
  proof (cases str)
    case Nil
    with Suc.prems show ?thesis by (subst strncpy_loop.simps) (simp add: strncpy_pad_eq)
  next
    case (Cons c cs)
    let ?m = "m(dest + of_nat i := c)"
    have "\<not> in_rng (src + of_nat i) (Suc (length str)) (dest + of_nat i)"
      using Suc.prems(4) by (rule disjnt_rngD1) (simp add: k Cons)
    then have "cstr ?m (src + of_nat i + 1) cs \<longleftrightarrow> cstr m (src + of_nat i + 1) cs"
      using Suc.prems(5) by (intro cstr_cong) (auto simp: Cons dest: in_rng_tail)
    with Suc.prems(1) have c: "cstr ?m (src + of_nat (i + 1)) cs"
      by (simp add: Cons algebra_simps)
    have "disjnt_rng (dest + of_nat i + 1) (length (take (n - (i + 1)) cs)) (src + of_nat i + 1) (Suc (length cs))"
      using Suc.prems(4) by (intro disjnt_rng_tail) (simp add: k Cons)
    then have "strncpy_loop ?m dest src n (i + 1) =
        wr_bytes ?m (dest + of_nat (i + 1)) (take (n - (i + 1)) cs @ replicate (n - (i + 1) - length cs) 0)"
      using Suc lt c by (intro Suc.hyps(1)) (auto simp: Cons algebra_simps)
    moreover have "length (take (n - (i + 1)) cs @ replicate (n - (i + 1) - length cs) 0) < 4294967296"
      using Suc.prems(3) by (auto simp: min_def)
    ultimately show ?thesis
      using lt Suc.prems(1,3) by (subst strncpy_loop.simps) (simp add: k Cons wr_bytes_Cons algebra_simps)
  qed
qed

text \<open>
  The copy routines on C strings. With a destination outside the source string,
  \<open>strcpy\<close> always returns and writes the string and its terminator, and \<open>strncpy\<close> writes
  exactly \<open>n\<close> bytes: the first \<open>n\<close> of the string, padded with zeros, and so without a
  terminator when the string has \<open>n\<close> bytes or more.
\<close>

theorem strcpy_strncpy_spec:
  assumes "cstr m src str" "length str < 4294967296"
    and "disjnt_rng dest (length str) src (Suc (length str))"
  shows "strcpy m dest src = Some (wr_bytes m dest (str @ [0])) \<and>
    strncpy m dest src n =
      wr_bytes m dest (take (unat n) str @ replicate (unat n - length str) 0)"
proof -
  have "disjnt_rng dest (length (take (unat n) str)) src (Suc (length str))"
    using assms(3) by (rule disjnt_rng_mono) auto
  then show ?thesis
    using strcpy_cstr[OF assms(1,3,2)] strncpy_loop_eq[of m src 0 str "unat n" dest] assms(1,2)
    by (simp add: strncpy_def)
qed

theorem strcpy_strncpy_spec_witness:
  "strcpy demo_mem 8192 4096 = Some (wr_bytes demo_mem 8192 (demo_line @ [0])) \<and>
    strncpy demo_mem 8192 4096 3 = wr_bytes demo_mem 8192 [32, 32, 99]"
proof -
  have "disjnt_rng 8192 (length demo_line) 4096 (Suc (length demo_line))"
    by (rule disjnt_rng_sym, rule disjnt_rng_below) (simp_all add: demo_line_eq)
  from strcpy_strncpy_spec[OF demo_cstr _ this, of 3] show ?thesis
    by (simp add: demo_line_eq)
qed

section \<open>Block operations against byte operations\<close>

lemma memcpy_bottom_fwd: "memcpy_bottom m esi edi n = copy_fwd m edi esi n"
  by (induction n arbitrary: m esi edi) auto

lemma rep_movsb_up_fwd: "rep_movsb_up m esi edi n = copy_fwd m edi esi n"
  by (induction n arbitrary: m esi edi) auto

lemma rep_movsl_fwd:
  "fwd_ok edi esi (4 * n) \<Longrightarrow>
    rep_movsl m esi edi n = (copy_fwd m edi esi (4 * n), esi + of_nat (4 * n), edi + of_nat (4 * n))"
proof (induction n arbitrary: m esi edi)
  case (Suc n)
  have ok: "fwd_ok edi esi 4" "fwd_ok (edi + 4) (esi + 4) (4 * n)"
    using fwd_ok_add[of edi esi 4 "4 * n"] Suc.prems by simp_all
  have "copy_fwd m edi esi (4 * Suc n) = copy_fwd (copy_fwd m edi esi 4) (edi + 4) (esi + 4) (4 * n)"
    using copy_fwd_add[of m edi esi 4 "4 * n"] by simp
  with Suc.IH[OF ok(2)] copy_fwd_eq[OF ok(1)] show ?case by (simp add: algebra_simps)
qed simp

lemma split4: "unat (ecx :: u32) = 4 * unat (drop_bit 2 ecx) + unat (ecx AND 3)"
proof -
  have "unat (drop_bit 2 ecx) = unat ecx div 4"
    by (simp add: drop_bit_eq_div unat_div)
  moreover have "ecx AND 3 = take_bit 2 ecx"
    by (simp add: take_bit_eq_mask mask_eq_exp_minus_1)
  then have "unat (ecx AND 3) = unat ecx mod 4"
    by (simp add: unsigned_take_bit_eq take_bit_eq_mod unat_mod)
  ultimately show ?thesis by simp
qed

lemma memcpy_aligned_fwd:
  assumes "fwd_ok edi esi (unat ecx)"
  shows "memcpy_aligned m esi edi ecx = copy_fwd m edi esi (unat ecx)"
proof -
  have "fwd_ok edi esi (4 * unat (drop_bit 2 ecx))"
    using assms fwd_ok_add(1) unfolding split4[of ecx] by blast
  from rep_movsl_fwd[OF this, of m] show ?thesis
    by (simp add: memcpy_aligned_def memcpy_bottom_fwd split4[of ecx] copy_fwd_add)
qed

lemma memcpy_top_fwd:
  "fwd_ok edi esi (unat ecx) \<Longrightarrow> memcpy_top m esi edi ecx = copy_fwd m edi esi (unat ecx)"
proof (induction m esi edi ecx rule: memcpy_top.induct)
  case (1 m esi edi ecx)
  show ?case
  proof (cases "ecx = 0 \<or> edi AND 3 = 0")
    case True
    with "1.prems" show ?thesis
      by (subst memcpy_top.simps) (auto simp: memcpy_aligned_fwd)
  next
    case False
    then have n: "unat ecx = Suc (unat (ecx - 1))"
      by (simp add: unat_minus_one unat_gt_0)
    with "1.prems" have ok: "fwd_ok (edi + 1) (esi + 1) (unat (ecx - 1))"
      by (metis fwd_ok_Suc(1))
    have "memcpy_top (m(edi := m esi)) (esi + 1) (edi + 1) (ecx - 1) =
        copy_fwd (m(edi := m esi)) (edi + 1) (esi + 1) (unat (ecx - 1))"
      by (rule "1.IH"[OF _ _ ok]) (use False in auto)
    with False n show ?thesis
      by (subst memcpy_top.simps) simp
  qed
qed

lemma memcpy_eq:
  "fwd_ok dest src (unat n) \<Longrightarrow> memcpy m dest src n = wr_bytes m dest (rd_bytes m src (unat n))"
  by (simp add: memcpy_def memcpy_top_fwd copy_fwd_eq less_imp_le)

interpretation mc: mem_copier "\<lambda>m d s n. memcpy m d s (of_nat n)" 4294967296
  by unfold_locales (simp_all add: memcpy_eq disjnt_fwd_ok)

text \<open>
  C34: the optimised \<open>memcpy\<close>. For any alignment of the destination and any length, the
  byte/dword/byte sequence of the inline assembly has exactly the effect of copying the bytes,
  whenever the ranges do not overlap or the destination is the lower one.
\<close>

theorem memcpy_spec:
  assumes "disjnt_rng dest (unat n) src (unat n) \<or> (dest \<le> src \<and> unat src + unat n \<le> 4294967296)"
  shows "memcpy m dest src n = wr_bytes m dest (rd_bytes m src (unat n))"
  using assms by (auto intro!: memcpy_eq intro: disjnt_fwd_ok below_fwd_ok simp: word_le_nat_alt less_imp_le)

theorem memcpy_spec_witness:
  "memcpy demo_mem 8193 4098 9 = wr_bytes demo_mem 8193 (asc ''cat  a.tx'')"
proof -
  have "disjnt_rng 8193 (unat (9 :: u32)) 4098 (unat (9 :: u32))"
    by (rule disjnt_rng_sym, rule disjnt_rng_below) simp_all
  moreover have "rd_bytes demo_mem 4098 9 = asc ''cat  a.tx''"
    by (simp add: demo_mem_def demo_line_eq rd_bytes_def upt_conv_Cons wr_bytes_def asc_def of_char_def)
  ultimately show ?thesis using memcpy_spec[of 8193 9 4098 demo_mem] by simp
qed

lemma memset_bottom_eq:
  "n < 4294967296 \<Longrightarrow> memset_bottom m eax edi n = wr_bytes m edi (replicate n (ucast eax))"
  by (induction n arbitrary: m edi) (simp_all add: wr_bytes_Cons)

lemma rep_stosl_eq:
  "4 * n \<le> 4294967296 \<Longrightarrow> rep_stosl m eax edi n =
    (wr_bytes m edi (concat (replicate n (le_bytes4 eax))), edi + of_nat (4 * n))"
proof (induction n arbitrary: m edi)
  case (Suc n)
  have len: "length (le_bytes4 eax) = 4" for eax by (simp add: le_bytes4_def)
  have "wr_bytes m edi (le_bytes4 eax @ concat (replicate n (le_bytes4 eax))) =
      wr_bytes (wr_bytes m edi (le_bytes4 eax)) (edi + 4) (concat (replicate n (le_bytes4 eax)))"
    using Suc.prems by (subst wr_bytes_append) (simp_all add: len length_concat sum_list_replicate)
  with Suc show ?case by (simp add: algebra_simps)
qed simp

lemma rep_stosw_eq:
  "2 * n \<le> 4294967296 \<Longrightarrow> rep_stosw m eax edi n =
    (wr_bytes m edi (concat (replicate n (le_bytes2 eax))), edi + of_nat (2 * n))"
proof (induction n arbitrary: m edi)
  case (Suc n)
  have len: "length (le_bytes2 eax) = 2" for eax by (simp add: le_bytes2_def)
  have "wr_bytes m edi (le_bytes2 eax @ concat (replicate n (le_bytes2 eax))) =
      wr_bytes (wr_bytes m edi (le_bytes2 eax)) (edi + 2) (concat (replicate n (le_bytes2 eax)))"
    using Suc.prems by (subst wr_bytes_append) (simp_all add: len length_concat sum_list_replicate)
  with Suc show ?case by (simp add: algebra_simps)
qed simp

text \<open>The four bytes of the replicated register are all the low byte of \<open>c\<close>.\<close>

lemma memset_eax:
  fixes c :: u32
  assumes "w = c AND 255"
  shows "le_bytes4 (push_bit 24 w OR push_bit 16 w OR push_bit 8 w OR w) = replicate 4 (ucast c)"
    and "ucast (push_bit 24 w OR push_bit 16 w OR push_bit 8 w OR w) = (ucast c :: u8)"
proof -
  have "w = take_bit 8 c" using assms by (simp add: take_bit_eq_mask mask_eq_exp_minus_1)
  then have w: "bit w n \<longleftrightarrow> n < 8 \<and> bit c n" for n by (simp add: bit_take_bit_iff)
  have *: "ucast (drop_bit k (push_bit 24 w OR push_bit 16 w OR push_bit 8 w OR w)) = (ucast c :: u8)"
    if "k = 0 \<or> k = 8 \<or> k = 16 \<or> k = 24" for k
    using that by (intro bit_word_eqI) (auto simp: bit_simps w)
  from *[of 0] show "ucast (push_bit 24 w OR push_bit 16 w OR push_bit 8 w OR w) = (ucast c :: u8)"
    by simp
  then show "le_bytes4 (push_bit 24 w OR push_bit 16 w OR push_bit 8 w OR w) = replicate 4 (ucast c)"
    using *[of 8] *[of 16] *[of 24] by (simp add: le_bytes4_def numeral_eq_Suc)
qed

lemma concat_replicate4: "concat (replicate n (replicate 4 b)) = replicate (4 * n) b"
  by (induction n) (simp_all add: replicate_add [symmetric])

lemma memset_top_eq:
  assumes "le_bytes4 eax = replicate 4 b" "ucast eax = b"
  shows "memset_top m eax edi ecx = wr_bytes m edi (replicate (unat ecx) b)"
proof (induction m eax\<equiv>eax edi ecx rule: memset_top.induct)
  case (1 m edi ecx)
  consider "ecx = 0" | "ecx \<noteq> 0" "edi AND 3 = 0" | "ecx \<noteq> 0" "edi AND 3 \<noteq> 0" by blast
  then show ?case
  proof cases
    case 1
    then show ?thesis by (subst memset_top.simps) simp
  next
    case 2
    have le: "4 * unat (drop_bit 2 ecx) \<le> 4294967296" "unat (ecx AND 3) < 4294967296"
      using split4[of ecx] unat_lt32[of ecx] by linarith+
    have "memset_aligned m eax edi ecx =
        wr_bytes (wr_bytes m edi (replicate (4 * unat (drop_bit 2 ecx)) b))
          (edi + of_nat (4 * unat (drop_bit 2 ecx))) (replicate (unat (ecx AND 3)) b)"
      using le assms by (simp add: memset_aligned_def rep_stosl_eq memset_bottom_eq concat_replicate4)
    also have "\<dots> = wr_bytes m edi (replicate (unat ecx) b)"
      using unat_lt32[of ecx] by (subst (2) split4) (simp add: replicate_add wr_bytes_append split4[of ecx])
    finally show ?thesis using 2 by (subst memset_top.simps) simp
  next
    case 3
    then have n: "unat ecx = Suc (unat (ecx - 1))"
      by (simp add: unat_minus_one unat_gt_0)
    have "memset_top (m(edi := b)) eax (edi + 1) (ecx - 1) =
        wr_bytes (m(edi := b)) (edi + 1) (replicate (unat (ecx - 1)) b)"
      using "1.hyps"[OF 3] assms(2) by simp
    with 3 n assms(2) show ?thesis
      by (subst memset_top.simps) (simp add: wr_bytes_Cons)
  qed
qed

text \<open>
  The optimised \<open>memset\<close>. For any alignment and any length, the assembly sets exactly the
  \<open>n\<close> bytes at \<open>s\<close> to the low byte of \<open>c\<close>.
\<close>

theorem memset_spec: "memset m s c n = wr_bytes m s (replicate (unat n) (ucast c))"
  unfolding memset_def Let_def by (intro memset_top_eq memset_eax refl)

lemma rep_movsb_down_eq:
  assumes "unat s < unat d" "unat d + n \<le> 4294967296"
  shows "rep_movsb_down m (s + of_nat n - 1) (d + of_nat n - 1) n = wr_bytes m d (rd_bytes m s n)"
  using assms(2)
proof (induction n arbitrary: m)
  case (Suc n)
  let ?m = "m(d + of_nat n := m (s + of_nat n))"
  have ne: "s + of_nat j \<noteq> d + of_nat n" if "j < n" for j
  proof
    assume eq: "s + of_nat j = d + of_nat n"
    have "unat (s + of_nat j) = unat s + j" "unat (d + of_nat n) = unat d + n"
      using assms(1) Suc.prems that by (simp_all add: unat_word_ariths)
    with eq assms(1) that show False by simp
  qed
  have "rd_bytes ?m s n = rd_bytes m s n"
    by (rule nth_equalityI) (auto dest: ne)
  moreover have "rep_movsb_down ?m (s + of_nat n - 1) (d + of_nat n - 1) n = wr_bytes ?m d (rd_bytes ?m s n)"
    using Suc.prems by (intro Suc.IH) simp
  moreover have "wr_bytes ?m d bs = (wr_bytes m d bs)(d + of_nat n := m (s + of_nat n))"
    if "length bs = n" for bs
    using that Suc.prems by (intro ext) (auto simp: wr_bytes_def)
  moreover have "rd_bytes m s (Suc n) = rd_bytes m s n @ [m (s + of_nat n)]"
    using rd_bytes_add[of m s n 1] by (simp add: rd_bytes_Suc)
  ultimately show ?case
    using Suc.prems by (simp add: wr_bytes_snoc)
qed simp

text \<open>
  \<open>memmove\<close> copies correctly for every overlap of ranges that do not wrap around the
  address space. The second component shows what the code leaves behind: when the source is
  the lower range the direction flag stays set.
\<close>

theorem memmove_spec:
  assumes "unat src + unat n \<le> 4294967296" "unat dest + unat n \<le> 4294967296"
  shows "memmove m dest src n = (wr_bytes m dest (rd_bytes m src (unat n)), src < dest)"
proof (cases "src < dest")
  case True
  then show ?thesis
    using rep_movsb_down_eq[of src dest "unat n" m] assms
    by (auto simp: memmove_def word_less_nat_alt word_le_nat_alt)
next
  case False
  then have "unat dest \<le> unat src" by (simp add: word_le_nat_alt not_less)
  with assms False show ?thesis
    by (simp add: memmove_def rep_movsb_up_fwd copy_fwd_eq below_fwd_ok less_imp_le)
qed

theorem memmove_spec_witness:
  "memmove demo_mem 4098 4096 4 = (wr_bytes demo_mem 4098 [32, 32, 99, 97], True)"
proof -
  have "rd_bytes demo_mem 4096 4 = [32, 32, 99, 97]"
    by (simp add: demo_mem_def demo_line_eq rd_bytes_def upt_conv_Cons wr_bytes_def)
  then show ?thesis using memmove_spec[of 4096 4 4098 demo_mem] by simp
qed

text \<open>
  \<open>memset_word\<close> and \<open>memset_dword\<close> take a count of 16- and 32-bit units: they write two
  and four times as many bytes as their parameter \<open>n\<close>, which their comments call a number
  of bytes.
\<close>

theorem memset_wide_spec:
  assumes "4 * unat n \<le> 4294967296"
  shows "memset_word m s c n = wr_bytes m s (concat (replicate (unat n) (le_bytes2 c))) \<and>
    memset_dword m s c n = wr_bytes m s (concat (replicate (unat n) (le_bytes4 c)))"
  using assms by (simp add: memset_word_def memset_dword_def rep_stosw_eq rep_stosl_eq)

theorem memset_wide_spec_witness:
  "memset_word (\<lambda>_. 0) 4096 4660 2 = wr_bytes (\<lambda>_. 0) 4096 [52, 18, 52, 18]"
proof -
  have "le_bytes2 4660 = [52, 18]" by (simp add: le_bytes2_def)
  moreover have "concat (replicate 2 bs) = bs @ bs" for bs :: bytes
    by (simp add: numeral_2_eq_2)
  ultimately show ?thesis using memset_wide_spec[of 2 "\<lambda>_. 0" 4096 4660] by simp
qed

end
