(* ===== verification/Machine.thy ===== *)
theory Machine
  imports Lib_String
begin

text \<open>
  The part of the machine that every kernel component touches: memory, the interrupt flag and
  the I/O ports, with the port macros of \<^verbatim>\<open>student-distrib/lib.h\<close> and the interrupt controller
  driver \<^verbatim>\<open>student-distrib/i8259.c\<close>.

  The devices behind the ports are not code of the repository. They are the field \<open>ports\<close>, an
  arbitrary function that says which byte a read of a port returns after a history of port
  accesses. What the drivers rely on is stated as a property of that function: \<open>pic_readback\<close>,
  the documented behaviour of the 8259A that its data port reads back the mask written last.
\<close>

section \<open>Words in memory\<close>

text \<open>\<^verbatim>\<open>*(uint32_t *)p\<close> and \<^verbatim>\<open>*(uint32_t *)p = w\<close> on the little-endian machine.\<close>

definition ld32 :: "mem \<Rightarrow> ptr \<Rightarrow> u32" where
  "ld32 m p = ucast (m p) OR push_bit 8 (ucast (m (p + 1))) OR push_bit 16 (ucast (m (p + 2)))
    OR push_bit 24 (ucast (m (p + 3)))"

definition st32 :: "mem \<Rightarrow> ptr \<Rightarrow> u32 \<Rightarrow> mem" where
  "st32 m p w = wr_bytes m p (le_bytes4 w)"

lemma rd_bytes4: "rd_bytes m p 4 = [m p, m (p + 1), m (p + 2), m (p + 3)]"
  by (simp add: rd_bytes_def upt_rec numeral_eq_Suc add.commute)

lemma ld32_le_bytes4:
  assumes "rd_bytes m p 4 = le_bytes4 w"
  shows "ld32 m p = w"
proof (rule bit_word_eqI)
  fix n assume "n < LENGTH(32)"
  then consider "n < 8" | "8 \<le> n" "n < 16" | "16 \<le> n" "n < 24" | "24 \<le> n" "n < 32" by fastforce
  then show "bit (ld32 m p) n = bit w n"
    using assms by cases (auto simp: rd_bytes4 ld32_def le_bytes4_def bit_simps)
qed

lemma length_le_bytes4 [simp]: "length (le_bytes4 w) = 4"
  by (simp add: le_bytes4_def)

lemma ld32_st32 [simp]: "ld32 (st32 m p w) p = w"
  using rd_wr_bytes[of "le_bytes4 w" m p] by (intro ld32_le_bytes4) (simp add: st32_def)

lemma ld32_cong: "(\<And>a. in_rng p 4 a \<Longrightarrow> m a = m' a) \<Longrightarrow> ld32 m p = ld32 m' p"
  using rd_bytes_cong[of p 4 m m'] by (simp add: rd_bytes4 ld32_def)

lemma st32_out [mem_simps]: "\<not> in_rng p 4 a \<Longrightarrow> st32 m p w a = m a"
  by (simp add: st32_def wr_bytes_out)

section \<open>Ports and the interrupt flag\<close>

datatype io_event = Outb u16 u8 | Inb u16 u8

record machine =
  mem :: mem
  io_trace :: "io_event list"
  ports :: "io_event list \<Rightarrow> u16 \<Rightarrow> u8"
  if_flag :: bool

definition outb :: "u8 \<Rightarrow> u16 \<Rightarrow> 'a machine_scheme \<Rightarrow> 'a machine_scheme" where
  "outb data port s = s\<lparr>io_trace := Outb port data # io_trace s\<rparr>"

definition inb :: "u16 \<Rightarrow> 'a machine_scheme \<Rightarrow> u32 \<times> 'a machine_scheme" where
  "inb port s =
    (let v = ports s (io_trace s) port
     in (ucast v, s\<lparr>io_trace := Inb port v # io_trace s\<rparr>))"

definition cli :: "'a machine_scheme \<Rightarrow> 'a machine_scheme" where
  "cli s = s\<lparr>if_flag := False\<rparr>"

definition sti :: "'a machine_scheme \<Rightarrow> 'a machine_scheme" where
  "sti s = s\<lparr>if_flag := True\<rparr>"

section \<open>The interrupt controller driver\<close>

abbreviation (input) MASTER_8259_PORT :: u16 where "MASTER_8259_PORT \<equiv> 0x20"
abbreviation (input) MASTER_8259_PORT_DAT :: u16 where "MASTER_8259_PORT_DAT \<equiv> 0x21"
abbreviation (input) SLAVE_8259_PORT :: u16 where "SLAVE_8259_PORT \<equiv> 0xA0"
abbreviation (input) SLAVE_8259_PORT_DAT :: u16 where "SLAVE_8259_PORT_DAT \<equiv> 0xA1"

definition i8259_init :: "'a machine_scheme \<Rightarrow> 'a machine_scheme" where
  "i8259_init s =
    (let s = outb 0x11 MASTER_8259_PORT s;
         s = outb 0x11 SLAVE_8259_PORT s;
         s = outb 0x20 MASTER_8259_PORT_DAT s;
         s = outb 0x28 SLAVE_8259_PORT_DAT s;
         s = outb 0x04 MASTER_8259_PORT_DAT s;
         s = outb 0x02 SLAVE_8259_PORT_DAT s;
         s = outb 0x01 MASTER_8259_PORT_DAT s;
         s = outb 0x01 SLAVE_8259_PORT_DAT s;
         s = outb 0xFF MASTER_8259_PORT_DAT s
     in outb 0xFF SLAVE_8259_PORT_DAT s)"

text \<open>\<^verbatim>\<open>outb(inb(port) & ~(1 << n), port)\<close> and \<^verbatim>\<open>outb(inb(port) | (1 << n), port)\<close>.\<close>

definition clear_port_bit :: "nat \<Rightarrow> u16 \<Rightarrow> 'a machine_scheme \<Rightarrow> 'a machine_scheme" where
  "clear_port_bit n port s =
    (let (v, s) = inb port s in outb (ucast (v AND NOT (push_bit n 1))) port s)"

definition set_port_bit :: "nat \<Rightarrow> u16 \<Rightarrow> 'a machine_scheme \<Rightarrow> 'a machine_scheme" where
  "set_port_bit n port s =
    (let (v, s) = inb port s in outb (ucast (v OR push_bit n 1)) port s)"

definition enable_irq :: "u32 \<Rightarrow> 'a machine_scheme \<Rightarrow> 'a machine_scheme" where
  "enable_irq irq_num s =
    (if irq_num \<ge> 8 \<and> irq_num < 16
     then let s = clear_port_bit 2 MASTER_8259_PORT_DAT s
          in clear_port_bit (unat (irq_num mod 8)) SLAVE_8259_PORT_DAT s
     else clear_port_bit (unat irq_num) MASTER_8259_PORT_DAT s)"

definition disable_irq :: "u32 \<Rightarrow> 'a machine_scheme \<Rightarrow> 'a machine_scheme" where
  "disable_irq irq_num s =
    (if irq_num \<ge> 0 \<and> irq_num < 8
     then let s = set_port_bit 2 MASTER_8259_PORT_DAT s
          in set_port_bit (unat (irq_num mod 8)) SLAVE_8259_PORT_DAT s
     else set_port_bit (unat irq_num) MASTER_8259_PORT_DAT s)"

definition send_eoi :: "u32 \<Rightarrow> 'a machine_scheme \<Rightarrow> 'a machine_scheme" where
  "send_eoi irq_num s =
    (if irq_num \<ge> 0 \<and> irq_num < 8
     then outb (ucast (0x60 OR irq_num)) MASTER_8259_PORT s
     else let s = outb (ucast (0x60 OR (irq_num mod 8))) SLAVE_8259_PORT s
          in outb (0x60 OR 2) MASTER_8259_PORT s)"

section \<open>Frames\<close>

lemma outb_frame [simp]:
  "mem (outb d p s) = mem s" "ports (outb d p s) = ports s" "if_flag (outb d p s) = if_flag s"
  "io_trace (outb d p s) = Outb p d # io_trace s"
  "machine.more (outb d p s) = machine.more s"
  by (simp_all add: outb_def)

lemma inb_frame [simp]:
  "mem (snd (inb p s)) = mem s" "ports (snd (inb p s)) = ports s"
  "if_flag (snd (inb p s)) = if_flag s"
  "io_trace (snd (inb p s)) = Inb p (ports s (io_trace s) p) # io_trace s"
  "machine.more (snd (inb p s)) = machine.more s"
  by (simp_all add: inb_def Let_def)

lemma cli_sti_frame [simp]:
  "mem (cli s) = mem s" "io_trace (cli s) = io_trace s" "ports (cli s) = ports s"
  "machine.more (cli s) = machine.more s"
  "mem (sti s) = mem s" "io_trace (sti s) = io_trace s" "ports (sti s) = ports s"
  "machine.more (sti s) = machine.more s"
  by (simp_all add: cli_def sti_def)

text \<open>
  Everything a port access leaves alone: memory, the interrupt flag, the devices and every
  field of the kernel state that extends the machine.
\<close>

definition io_only :: "'a machine_scheme \<Rightarrow> 'a machine_scheme \<Rightarrow> bool" where
  "io_only s t \<longleftrightarrow> mem t = mem s \<and> ports t = ports s \<and> if_flag t = if_flag s \<and>
    machine.more t = machine.more s"

lemma io_only_refl [simp]: "io_only s s"
  by (simp add: io_only_def)

lemma io_only_trans: "io_only s t \<Longrightarrow> io_only t u \<Longrightarrow> io_only s u"
  by (simp add: io_only_def)

lemma io_only_outb [simp]: "io_only s (outb d p s)"
  by (simp add: io_only_def)

lemma io_only_inb [simp]: "io_only s (snd (inb p s))"
  by (simp add: io_only_def)

lemma io_only_port_bit [simp]:
  "io_only s (clear_port_bit n p s)" "io_only s (set_port_bit n p s)"
  by (simp_all add: io_only_def clear_port_bit_def set_port_bit_def split_beta Let_def)

lemma io_only_irq [simp]:
  "io_only s (enable_irq n s)" "io_only s (disable_irq n s)" "io_only s (send_eoi n s)"
  by (auto simp: enable_irq_def disable_irq_def send_eoi_def Let_def
      intro: io_only_trans[OF io_only_port_bit(1) io_only_port_bit(1)]
        io_only_trans[OF io_only_port_bit(2) io_only_port_bit(2)]
        io_only_trans[OF io_only_outb io_only_outb])

section \<open>The interrupt masks\<close>

text \<open>
  What the 8259A does with a write, from its data sheet. A command byte with bit 4 set is ICW1:
  it clears the mask and announces two more initialisation words on the data port, or three,
  or one fewer in single mode (bit 1); bit 0 says whether ICW4 follows. Any other write to the
  data port is the mask. The controller with data port \<open>p\<close> has its command port at \<open>p - 1\<close>.
\<close>

definition icw_count :: "u8 \<Rightarrow> nat" where
  "icw_count v = 1 + (if bit v 1 then 0 else 1) + (if bit v 0 then 1 else 0)"

fun pic_reg :: "u16 \<Rightarrow> io_event list \<Rightarrow> nat \<times> u8 option" where
  "pic_reg p [] = (0, None)"
| "pic_reg p (Inb q v # tr) = pic_reg p tr"
| "pic_reg p (Outb q v # tr) =
    (let (pending, m) = pic_reg p tr
     in if q = p - 1 \<and> bit v 4 then (icw_count v, Some 0)
        else if q = p then (if 0 < pending then (pending - 1, m) else (0, Some v))
        else (pending, m))"

definition pic_port :: "u16 \<Rightarrow> bool" where
  "pic_port p \<longleftrightarrow> p = MASTER_8259_PORT_DAT \<or> p = SLAVE_8259_PORT_DAT"

definition pic_readback :: "(io_event list \<Rightarrow> u16 \<Rightarrow> u8) \<Rightarrow> bool" where
  "pic_readback f \<longleftrightarrow> (\<forall>tr p v. pic_port p \<longrightarrow> pic_reg p tr = (0, Some v) \<longrightarrow> f tr p = v)"

text \<open>
  The masks after initialisation: both controllers have had their initialisation words and
  read back the mask. An interrupt line is enabled when its mask bit is clear.
\<close>

definition pic_ready :: "'a machine_scheme \<Rightarrow> bool" where
  "pic_ready s \<longleftrightarrow> pic_readback (ports s) \<and>
    (\<forall>p. pic_port p \<longrightarrow> (\<exists>v. pic_reg p (io_trace s) = (0, Some v)))"

definition imr :: "'a machine_scheme \<Rightarrow> u16 \<Rightarrow> u8" where
  "imr s p = the (snd (pic_reg p (io_trace s)))"

definition irq_enabled :: "'a machine_scheme \<Rightarrow> nat \<Rightarrow> bool" where
  "irq_enabled s n \<longleftrightarrow>
    \<not> bit (imr s (if n < 8 then MASTER_8259_PORT_DAT else SLAVE_8259_PORT_DAT)) (n mod 8)"

lemma pic_ready_read: "pic_ready s \<Longrightarrow> pic_port p \<Longrightarrow> ports s (io_trace s) p = imr s p"
  by (auto simp: pic_ready_def pic_readback_def imr_def dest!: spec[where x = p])

lemma pic_ports_apart: "pic_port p \<Longrightarrow> pic_port q \<Longrightarrow> p \<noteq> q - 1"
  by (auto simp: pic_port_def)

lemma pic_ready_write:
  assumes "pic_ready s" "pic_port p" "pic_port q"
  shows "pic_reg q (Outb p v # Inb p w # io_trace s) =
    (if q = p then (0, Some v) else pic_reg q (io_trace s))"
proof -
  obtain u where "pic_reg q (io_trace s) = (0, Some u)" using assms by (auto simp: pic_ready_def)
  then show ?thesis using pic_ports_apart[OF assms(2,3)] by auto
qed

lemma clear_port_bit_imr:
  assumes "pic_ready s" "pic_port p"
  shows "pic_ready (clear_port_bit n p s)"
    and "pic_port q \<Longrightarrow>
      imr (clear_port_bit n p s) q = (if q = p then imr s p AND NOT (push_bit n 1) else imr s q)"
proof -
  have "ucast (ucast (imr s p) AND NOT (push_bit n 1) :: u32) = imr s p AND NOT (push_bit n 1)"
    by (rule bit_word_eqI) (auto simp: bit_simps)
  then show "imr (clear_port_bit n p s) q = (if q = p then imr s p AND NOT (push_bit n 1) else imr s q)"
    if "pic_port q"
    using pic_ready_read[OF assms] pic_ready_write[OF assms that]
    by (simp add: clear_port_bit_def inb_def imr_def Let_def del: pic_reg.simps)
  show "pic_ready (clear_port_bit n p s)"
    using assms pic_ready_write[OF assms]
    by (auto simp: clear_port_bit_def inb_def pic_ready_def Let_def simp del: pic_reg.simps)
qed

lemma set_port_bit_imr:
  assumes "pic_ready s" "pic_port p"
  shows "pic_ready (set_port_bit n p s)"
    and "pic_port q \<Longrightarrow>
      imr (set_port_bit n p s) q = (if q = p then imr s p OR push_bit n 1 else imr s q)"
proof -
  have "ucast (ucast (imr s p) OR push_bit n 1 :: u32) = imr s p OR push_bit n 1"
    by (rule bit_word_eqI) (auto simp: bit_simps)
  then show "imr (set_port_bit n p s) q = (if q = p then imr s p OR push_bit n 1 else imr s q)"
    if "pic_port q"
    using pic_ready_read[OF assms] pic_ready_write[OF assms that]
    by (simp add: set_port_bit_def inb_def imr_def Let_def del: pic_reg.simps)
  show "pic_ready (set_port_bit n p s)"
    using assms pic_ready_write[OF assms]
    by (auto simp: set_port_bit_def inb_def pic_ready_def Let_def simp del: pic_reg.simps)
qed

lemmas port_bit_imr = clear_port_bit_imr set_port_bit_imr

lemma pic_port_simps [simp]: "pic_port MASTER_8259_PORT_DAT" "pic_port SLAVE_8259_PORT_DAT"
  by (simp_all add: pic_port_def)

lemma bit_cascade: "bit (4 :: int) k \<longleftrightarrow> k = 2"
  using bit_exp_iff[where 'a = int and m = 2 and n = k] by auto

lemma icw1_bits: "bit (0x11 :: u8) 4" "\<not> bit (0x11 :: u8) 1" "bit (0x11 :: u8) 0"
  by code_simp+

lemma i8259_init_reg:
  "pic_port p \<Longrightarrow> pic_reg p (io_trace (i8259_init s)) = (0, Some 255)"
  by (auto simp: i8259_init_def pic_port_def icw_count_def icw1_bits)

lemma i8259_init_ports [simp]: "ports (i8259_init s) = ports s"
  by (simp add: i8259_init_def)

text \<open>
  After the initialisation sequence the masks are known and every line is disabled.
\<close>

theorem i8259_init_masks_all:
  assumes "pic_readback (ports s)"
  shows "pic_ready (i8259_init s) \<and> (\<forall>n < 16. \<not> irq_enabled (i8259_init s) n)"
proof -
  have "bit (255 :: u8) k" if "k < 8" for k
  proof -
    have "(255 :: u8) = - 1" by simp
    with that show ?thesis by (simp only: bit_minus_1_iff) simp
  qed
  then show ?thesis
    using assms by (auto simp: pic_ready_def irq_enabled_def imr_def i8259_init_reg)
qed

text \<open>
  \<open>enable_irq\<close> on a line below 16 enables that line and, for a line of the slave
  controller, the cascade line 2 as well; it changes no other line.
\<close>

theorem enable_irq_spec:
  assumes "pic_ready s" "n < 16" "k < 16"
  shows "pic_ready (enable_irq (of_nat n) s) \<and>
    (irq_enabled (enable_irq (of_nat n) s) k \<longleftrightarrow>
      irq_enabled s k \<or> k = n \<or> (8 \<le> n \<and> k = 2))"
proof -
  have u: "unat (of_nat n mod 8 :: u32) = n mod 8" "unat (of_nat n :: u32) = n"
    using assms(2) by (simp_all add: unat_mod)
  have c: "(8 \<le> (of_nat n :: u32) \<and> (of_nat n :: u32) < 16) \<longleftrightarrow> 8 \<le> n"
    using assms(2) by (simp add: word_le_nat_alt word_less_nat_alt)
  show ?thesis
  proof (cases "8 \<le> n")
    case True
    then have "n mod 8 = n - 8" using assms(2) by (simp add: mod_if)
    moreover have "k mod 8 = (if k < 8 then k else k - 8)" using assms(3) by (simp add: mod_if)
    ultimately show ?thesis
      using True c assms u by (auto simp: enable_irq_def irq_enabled_def port_bit_imr bit_simps bit_cascade Let_def)
  next
    case False
    moreover have "k mod 8 = (if k < 8 then k else k - 8)" using assms(3) by (simp add: mod_if)
    ultimately show ?thesis
      using c assms u by (auto simp: enable_irq_def irq_enabled_def port_bit_imr bit_simps bit_cascade Let_def)
  qed
qed

text \<open>
  C40: \<open>disable_irq\<close> does not do its job. Its guard tests for the master controller where
  \<open>enable_irq\<close> tests for the slave: on a master line \<open>n\<close> it disables the cascade line 2 and the
  slave line \<open>n + 8\<close>, and leaves line \<open>n\<close> as it was (unless \<open>n\<close> is 2); on a slave line it
  disables nothing.
\<close>

theorem disable_irq_misses:
  assumes "pic_ready s" "n < 16" "k < 16"
  shows "irq_enabled (disable_irq (of_nat n) s) k \<longleftrightarrow>
    irq_enabled s k \<and> \<not> (n < 8 \<and> (k = 2 \<or> k = n + 8))"
proof -
  have u: "unat (of_nat n mod 8 :: u32) = n mod 8" "unat (of_nat n :: u32) = n"
    using assms(2) by (simp_all add: unat_mod)
  have c: "(of_nat n :: u32) < 8 \<longleftrightarrow> n < 8"
    using assms(2) by (simp add: word_less_nat_alt)
  have km: "k mod 8 = (if k < 8 then k else k - 8)" using assms(3) by (simp add: mod_if)
  show ?thesis
    using c assms u km
    by (cases "n < 8") (auto simp: disable_irq_def irq_enabled_def port_bit_imr bit_simps bit_cascade Let_def)
qed

text \<open>The witnesses' machine: the devices answer with the byte written last.\<close>

definition echo_ports :: "io_event list \<Rightarrow> u16 \<Rightarrow> u8" where
  "echo_ports tr p = (case snd (pic_reg p tr) of Some v \<Rightarrow> v | None \<Rightarrow> 0)"

definition demo_machine :: machine where
  "demo_machine = \<lparr>mem = (\<lambda>_. 0), io_trace = [], ports = echo_ports, if_flag = False\<rparr>"

lemma echo_pic_readback: "pic_readback echo_ports"
  by (simp add: pic_readback_def echo_ports_def)

lemma demo_pic_ready: "pic_ready (i8259_init demo_machine)"
  by (simp add: pic_ready_def i8259_init_reg) (simp add: demo_machine_def echo_pic_readback)

theorem i8259_init_masks_all_witness:
  "pic_ready (i8259_init demo_machine) \<and> \<not> irq_enabled (i8259_init demo_machine) 1"
  using i8259_init_masks_all[of demo_machine] by (simp add: demo_machine_def echo_pic_readback)

theorem enable_irq_spec_witness:
  "irq_enabled (enable_irq 8 (i8259_init demo_machine)) 8 \<and>
    irq_enabled (enable_irq 8 (i8259_init demo_machine)) 2"
  using enable_irq_spec[OF demo_pic_ready, of 8 8] enable_irq_spec[OF demo_pic_ready, of 8 2]
  by simp

theorem disable_irq_misses_witness:
  "\<exists>s :: machine. irq_enabled s 1 \<and> irq_enabled (disable_irq 1 s) 1 \<and>
    irq_enabled s 2 \<and> \<not> irq_enabled (disable_irq 1 s) 2"
proof -
  let ?s = "enable_irq 8 (enable_irq 1 (i8259_init demo_machine))"
  have r1: "pic_ready (enable_irq 1 (i8259_init demo_machine))"
    and e1: "irq_enabled (enable_irq 1 (i8259_init demo_machine)) 1"
    using enable_irq_spec[OF demo_pic_ready, of 1 1] by simp_all
  have r: "pic_ready ?s" and e: "irq_enabled ?s 1" "irq_enabled ?s 2"
    using enable_irq_spec[OF r1, of 8 1] enable_irq_spec[OF r1, of 8 2] e1 by simp_all
  have "irq_enabled (disable_irq 1 ?s) 1" "\<not> irq_enabled (disable_irq 1 ?s) 2"
    using disable_irq_misses[OF r, of 1 1] disable_irq_misses[OF r, of 1 2] e by simp_all
  with e show ?thesis by blast
qed

end
