(* ===== verification/Console.thy ===== *)
theory Console
  imports Machine "HOL-Library.Signed_Division"
begin

text \<open>
  The text console of \<^verbatim>\<open>student-distrib/lib.c\<close>: \<open>clear\<close>, \<open>update_cursor\<close>, \<open>wrap_around\<close>,
  \<open>print_backspace\<close>, \<open>putc\<close>, \<open>puts\<close>, \<open>scroll_handle\<close>, \<open>printf\<close> and \<open>test_interrupts\<close>, with
  \<open>print_buf\<close> of \<^verbatim>\<open>utils/char_util.c\<close>. The file shares variables with the scheduler
  (\<^verbatim>\<open>sched.h\<close>) and the terminal driver (\<^verbatim>\<open>terminal.h\<close>, \<^verbatim>\<open>terminal.c\<close>), so their records come
  first: \<open>sched_vars\<close> extends the machine, \<open>term_vars\<close> extends that, and \<open>console\<close> adds the
  static variables of \<^verbatim>\<open>lib.c\<close>. Every operation is polymorphic in the rest of the state.

  The theorems: what each operation does to the 80 by 25 cells of the screen and to the cursor,
  that nothing outside the screen is written as long as the cursor is on it, and that \<open>printf\<close>
  shows exactly the text that a reference rendering of the format and the arguments gives.
\<close>

section \<open>State\<close>

text \<open>
  Signed variables are \<open>int\<close>. \<open>key_buffer\<close> is the two-dimensional array laid out as C does, row
  after row, \<open>3 * 128\<close> bytes.
\<close>

record sched_vars = machine +
  display_terminal :: u32
  running_terminal :: u32
  term_procs :: "int list"
  running_procs :: "int list"

record term_vars = sched_vars +
  R_shift_check :: u8
  L_shift_check :: u8
  ctrl_check :: u8
  capslock_check :: u8
  alt_check :: u8
  enter_down :: u8
  shell_check :: u8
  current_line :: u8
  wrapped :: u8
  clear_offset :: "u8 list"
  table_index :: u32
  key_index :: "u32 list"
  key_buffer :: bytes
  last_screen_x :: "int list"
  last_screen_y :: "int list"

record console = term_vars +
  screen_x :: int
  screen_y :: int
  video_mem :: ptr

abbreviation (input) NUM_COLS :: int where "NUM_COLS \<equiv> 80"
abbreviation (input) NUM_ROWS :: int where "NUM_ROWS \<equiv> 25"
abbreviation (input) ATTRIB :: u8 where "ATTRIB \<equiv> 7"
abbreviation (input) VIDEO :: ptr where "VIDEO \<equiv> 0xB8000"
abbreviation (input) VGA1 :: u16 where "VGA1 \<equiv> 0x3D4"
abbreviation (input) VGA2 :: u16 where "VGA2 \<equiv> 0x3D5"
abbreviation (input) MAX_BUFF_LENGTH :: nat where "MAX_BUFF_LENGTH \<equiv> 128"

section \<open>Operations\<close>

definition poke :: "ptr \<Rightarrow> u8 \<Rightarrow> 'a machine_scheme \<Rightarrow> 'a machine_scheme" where
  "poke a v s = s\<lparr>mem := (mem s)(a := v)\<rparr>"

definition get_video_mem :: "'a console_scheme \<Rightarrow> ptr" where
  "get_video_mem s = video_mem s"

definition set_video_mem :: "ptr \<Rightarrow> 'a console_scheme \<Rightarrow> 'a console_scheme" where
  "set_video_mem new_mem s = s\<lparr>video_mem := new_mem\<rparr>"

definition get_key_index :: "'a term_vars_scheme \<Rightarrow> u32" where
  "get_key_index s = key_index s ! unat (display_terminal s)"

definition update_cursor :: "int \<Rightarrow> int \<Rightarrow> 'a machine_scheme \<Rightarrow> 'a machine_scheme" where
  "update_cursor x y s =
    (let position = word_of_int (y * NUM_COLS + x) :: u32;
         s = outb 0x0F VGA1 s;
         s = outb (ucast (position AND 0xFF)) VGA2 s;
         s = outb 0x0E VGA1 s
     in outb (ucast (drop_bit 8 position AND 0xFF)) VGA2 s)"

text \<open>The address of cell \<open>i\<close> of the screen: \<^verbatim>\<open>video_mem + (i << 1)\<close>.\<close>

definition cell :: "ptr \<Rightarrow> int \<Rightarrow> ptr" where
  "cell v i = v + word_of_int (2 * i)"

definition clear_cell :: "nat \<Rightarrow> 'a console_scheme \<Rightarrow> 'a console_scheme" where
  "clear_cell i s =
    poke (cell (video_mem s) (int i) + 1) ATTRIB (poke (cell (video_mem s) (int i)) 0x20 s)"

definition clear :: "'a console_scheme \<Rightarrow> 'a console_scheme" where
  "clear s =
    (let s = fold clear_cell [0..<25 * 80] s;
         s = s\<lparr>screen_x := 0, screen_y := 0\<rparr>
     in update_cursor 0 0 s)"

definition wrap_around :: "'a console_scheme \<Rightarrow> 'a console_scheme" where
  "wrap_around s =
    (let s = s\<lparr>screen_y := screen_y s + 1, screen_x := 0\<rparr>
     in update_cursor (screen_x s) (screen_y s) s)"

definition print_backspace :: "'a console_scheme \<Rightarrow> 'a console_scheme" where
  "print_backspace s =
    (let s = (if screen_x s = 0 \<and> screen_y s = 0 then s
              else if screen_x s = 0
              then let s = s\<lparr>screen_y := screen_y s - 1, wrapped := 0, screen_x := NUM_COLS - 1\<rparr>
                   in update_cursor (screen_x s) (screen_y s) s
              else if get_key_index s = 128
              then let s = s\<lparr>screen_x := screen_x s - 1\<rparr>
                   in update_cursor (screen_x s) (screen_y s) s
              else let s = s\<lparr>screen_x := screen_x s - 1\<rparr>
                   in update_cursor (screen_x s) (screen_y s) s);
         s = poke (cell (video_mem s) (NUM_COLS * screen_y s + screen_x s)) 0x20 s
     in update_cursor (screen_x s) (screen_y s) s)"

definition scroll_cell :: "nat \<Rightarrow> nat \<Rightarrow> 'a console_scheme \<Rightarrow> 'a console_scheme" where
  "scroll_cell y x s =
    (let v = video_mem s;
         s = poke (cell v (NUM_COLS * int y + int x))
               (mem s (cell v (NUM_COLS * (int y + 1) + int x))) s
     in poke (cell v (NUM_COLS * int y + int x) + 1) ATTRIB s)"

definition blank_cell :: "nat \<Rightarrow> 'a console_scheme \<Rightarrow> 'a console_scheme" where
  "blank_cell x s =
    (let v = video_mem s;
         s = poke (cell v (NUM_COLS * (NUM_ROWS - 1) + int x)) 0x20 s
     in poke (cell v (NUM_COLS * (NUM_ROWS - 1) + int x) + 1) ATTRIB s)"

definition scroll_handle :: "'a console_scheme \<Rightarrow> 'a console_scheme" where
  "scroll_handle s =
    (let s = fold (\<lambda>y. fold (scroll_cell y) [0..<80]) [0..<25 - 1] s;
         s = fold blank_cell [0..<80] s;
         s = s\<lparr>screen_y := screen_y s - 1, screen_x := 0\<rparr>
     in update_cursor 0 (screen_y s) s)"

definition putc :: "u8 \<Rightarrow> 'a console_scheme \<Rightarrow> 'a console_scheme" where
  "putc c s =
    (if c = 10 \<or> c = 13
     then let s = s\<lparr>screen_y := screen_y s + 1, screen_x := 0\<rparr>
          in if screen_y s = NUM_ROWS then scroll_handle s
             else update_cursor (screen_x s) (screen_y s) s
     else if get_key_index s < of_nat MAX_BUFF_LENGTH
     then let s = poke (cell (video_mem s) (NUM_COLS * screen_y s + screen_x s)) c s;
              s = poke (cell (video_mem s) (NUM_COLS * screen_y s + screen_x s) + 1) ATTRIB s;
              s = s\<lparr>screen_x := screen_x s + 1\<rparr>;
              s = s\<lparr>screen_x := screen_x s smod NUM_COLS\<rparr>
          in s\<lparr>screen_y := (screen_y s + screen_x s sdiv NUM_COLS) smod NUM_ROWS\<rparr>
     else s)"

text \<open>
  \<open>puts\<close> keeps its own count of the column in a byte and stores it when the string is done.
  \<open>None\<close> is a loop that does not end.
\<close>

partial_function (option) puts_loop ::
  "ptr \<Rightarrow> u8 \<Rightarrow> u32 \<Rightarrow> 'a console_scheme \<Rightarrow> (u8 \<times> u32 \<times> 'a console_scheme) option" where
  "puts_loop p x index s =
    (if mem s (p + index) \<noteq> 0
     then puts_loop p (x + 1) (index + 1) (putc (mem s (p + index)) s)
     else Some (x, index, s))"

definition puts :: "ptr \<Rightarrow> 'a console_scheme \<Rightarrow> (u32 \<times> 'a console_scheme) option" where
  "puts p s =
    Option.bind (puts_loop p (word_of_int (screen_x s)) 0 s)
      (\<lambda>(x, index, s). Some (index, s\<lparr>screen_x := uint x\<rparr>))"

text \<open>
  The conversions of \<open>printf\<close>. The local array \<^verbatim>\<open>conv_buf\<close> is at \<open>conv\<close>. \<open>Inl\<close> is a fault.
\<close>

definition itoa_puts ::
  "ptr \<Rightarrow> ptr \<Rightarrow> u32 \<Rightarrow> u32 \<Rightarrow> 'a console_scheme \<Rightarrow> (fault + 'a console_scheme) option" where
  "itoa_puts conv buf v radix s =
    Option.bind (itoa (mem s) v buf radix) (\<lambda>r. case r of
        Inl f \<Rightarrow> Some (Inl f)
      | Inr m \<Rightarrow> Option.bind (puts conv (s\<lparr>mem := m\<rparr>)) (\<lambda>(n, s). Some (Inr s)))"

fun pad_zeros :: "ptr \<Rightarrow> nat \<Rightarrow> nat \<Rightarrow> mem \<Rightarrow> mem" where
  "pad_zeros conv 0 i m = m"
| "pad_zeros conv (Suc k) i m = pad_zeros conv k (i + 1) (m(conv + of_nat i := 48))"

definition printf_x ::
  "ptr \<Rightarrow> bool \<Rightarrow> u32 \<Rightarrow> 'a console_scheme \<Rightarrow> (fault + 'a console_scheme) option" where
  "printf_x conv alternate v s =
    (if \<not> alternate then itoa_puts conv conv v 16 s
     else Option.bind (itoa (mem s) v (conv + 8) 16) (\<lambda>r. case r of
        Inl f \<Rightarrow> Some (Inl f)
      | Inr m \<Rightarrow> Option.bind (strlen m (conv + 8)) (\<lambda>starting_index.
          let m = pad_zeros conv (8 - unat starting_index) (unat starting_index) m
          in Option.bind (puts (conv + starting_index) (s\<lparr>mem := m\<rparr>)) (\<lambda>(n, s). Some (Inr s)))))"

definition printf_d ::
  "ptr \<Rightarrow> u32 \<Rightarrow> 'a console_scheme \<Rightarrow> (fault + 'a console_scheme) option" where
  "printf_d conv v s =
    (if sint v < 0 then itoa_puts conv (conv + 1) (- v) 10 (poke conv 45 s)
     else itoa_puts conv conv v 10 s)"

definition fbind ::
  "(fault + 's) option \<Rightarrow> ('s \<Rightarrow> (fault + 't) option) \<Rightarrow> (fault + 't) option" where
  "fbind r f = Option.bind r (\<lambda>x. case x of Inl e \<Rightarrow> Some (Inl e) | Inr s \<Rightarrow> f s)"

text \<open>
  The loop over the format string, a literal whose bytes are the list, and the inner switch after
  a percent sign. The arguments are the words the caller pushed. Reading past either is
  \<open>Out_Of_Bounds\<close>: the code steps over the terminator after a trailing percent sign.
\<close>

fun printf_loop ::
    "ptr \<Rightarrow> bytes \<Rightarrow> u32 list \<Rightarrow> 'a console_scheme \<Rightarrow> (fault + 'a console_scheme) option"
  and printf_spec ::
    "ptr \<Rightarrow> bool \<Rightarrow> bytes \<Rightarrow> u32 list \<Rightarrow> 'a console_scheme \<Rightarrow> (fault + 'a console_scheme) option"
where
  "printf_loop conv [] esp s = Some (Inr s)"
| "printf_loop conv (c # buf) esp s =
    (if c = 37 then printf_spec conv False buf esp s
     else printf_loop conv buf esp (putc c s))"
| "printf_spec conv alternate [] esp s = Some (Inl Out_Of_Bounds)"
| "printf_spec conv alternate (c # buf) esp s =
    (if c = 37 then printf_loop conv buf esp (putc 37 s)
     else if c = 35 then printf_spec conv True buf esp s
     else if c = 120 \<or> c = 117 \<or> c = 100 \<or> c = 99 \<or> c = 115
     then (case esp of
         [] \<Rightarrow> Some (Inl Out_Of_Bounds)
       | v # esp \<Rightarrow>
           fbind (if c = 120 then printf_x conv alternate v s
                  else if c = 117 then itoa_puts conv conv v 10 s
                  else if c = 100 then printf_d conv v s
                  else if c = 99 then Some (Inr (putc (ucast v) s))
                  else Option.bind (puts v s) (\<lambda>(n, s). Some (Inr s)))
             (printf_loop conv buf esp))
     else printf_loop conv buf esp s)"

definition printf ::
  "ptr \<Rightarrow> bytes \<Rightarrow> u32 list \<Rightarrow> 'a console_scheme \<Rightarrow> (fault + u32 \<times> 'a console_scheme) option" where
  "printf conv format esp s =
    fbind (printf_loop conv format esp s) (\<lambda>s. Some (Inr (of_nat (length format), s)))"

definition test_interrupts :: "'a console_scheme \<Rightarrow> 'a console_scheme" where
  "test_interrupts s =
    fold (\<lambda>i s. poke (cell (video_mem s) (int i)) (mem s (cell (video_mem s) (int i)) + 1) s)
      [0..<25 * 80] s"

definition print_buf :: "ptr \<Rightarrow> u32 \<Rightarrow> 'a console_scheme \<Rightarrow> 'a console_scheme" where
  "print_buf buf bytes s =
    fold (\<lambda>i s. putc (mem s (buf + of_nat i)) s) [0..<unat bytes] s"

section \<open>Screen updates as memory updates\<close>

lemma smod_sdiv_nonneg [simp]:
  "0 \<le> a \<Longrightarrow> 0 < b \<Longrightarrow> a smod b = a mod b" "0 \<le> a \<Longrightarrow> 0 < b \<Longrightarrow> a sdiv b = a div b" for a b :: int
  by (cases "a = 0"; simp add: signed_modulo_int_def signed_divide_int_def)+

lemma cell_nat: "cell v (int i) = v + of_nat (2 * i)"
  by (simp add: cell_def)

lemma poke_frame [simp]:
  "mem (poke a v s) = (mem s)(a := v)" "io_trace (poke a v s) = io_trace s"
  "ports (poke a v s) = ports s" "if_flag (poke a v s) = if_flag s"
  "machine.more (poke a v s) = machine.more s"
  by (simp_all add: poke_def)

lemma fold_mem:
  assumes "\<And>i (s :: 'a console_scheme). g i s = s\<lparr>mem := f (video_mem s) i (mem s)\<rparr>"
  shows "fold g xs s = s\<lparr>mem := fold (f (video_mem s)) xs (mem s)\<rparr>"
  by (induction xs arbitrary: s) (simp_all add: assms)

text \<open>
  Writing the pair of bytes of one cell after another: the closed form of such a loop, by the
  offset of an address from the start of the screen.
\<close>

definition put_cell :: "ptr \<Rightarrow> nat \<Rightarrow> u8 \<Rightarrow> mem \<Rightarrow> mem" where
  "put_cell v i c m = m(v + of_nat (2 * i) := c, v + of_nat (2 * i) + 1 := ATTRIB)"

lemma put_cell_apply:
  assumes "i < 2147483648"
  shows "put_cell v i c m a =
    (if unat (a - v) = 2 * i then c else if unat (a - v) = 2 * i + 1 then ATTRIB else m a)"
  using addr_off_iff[of "2 * i" a v] addr_off_iff[of "2 * i + 1" a v] assms
  by (auto simp: put_cell_def add.assoc)

definition cell_fill :: "ptr \<Rightarrow> nat \<Rightarrow> nat \<Rightarrow> u8 \<Rightarrow> mem \<Rightarrow> mem" where
  "cell_fill v j n c m = (\<lambda>a. let k = unat (a - v) in
    if 2 * j \<le> k \<and> k < 2 * n then (if even k then c else ATTRIB) else m a)"

lemma fold_put_cell:
  "j \<le> n \<Longrightarrow> n \<le> 2000 \<Longrightarrow> fold (\<lambda>i. put_cell v i c) [j..<n] m = cell_fill v j n c m"
proof (induction n)
  case (Suc n)
  show ?case
  proof (cases "j = Suc n")
    case False
    with Suc show ?thesis
      by (auto simp: fun_eq_iff put_cell_apply cell_fill_def Let_def)
  qed (auto simp: cell_fill_def fun_eq_iff Let_def)
qed (auto simp: cell_fill_def fun_eq_iff Let_def)

text \<open>Moving every cell up by one row of 80, as far as cell \<open>n\<close>.\<close>

definition shift_up :: "ptr \<Rightarrow> nat \<Rightarrow> mem \<Rightarrow> mem" where
  "shift_up v n m = (\<lambda>a. let k = unat (a - v) in
    if k < 2 * n then (if even k then m (v + of_nat (k + 160)) else ATTRIB) else m a)"

definition move_cell :: "ptr \<Rightarrow> nat \<Rightarrow> mem \<Rightarrow> mem" where
  "move_cell v i m = put_cell v i (m (v + of_nat (2 * i + 160))) m"

lemma fold_move_cell: "n \<le> 1920 \<Longrightarrow> fold (move_cell v) [0..<n] m = shift_up v n m"
proof (induction n)
  case (Suc n)
  then have "shift_up v n m (v + of_nat (2 * n + 160)) = m (v + of_nat (2 * n + 160))"
    by (simp only: shift_up_def Let_def unat_diff_self_add) simp
  with Suc show ?case
    by (auto simp: fun_eq_iff move_cell_def put_cell_apply less_Suc_eq simp del: of_nat_add of_nat_mult)
       (auto simp: shift_up_def Let_def)
qed (auto simp: shift_up_def fun_eq_iff Let_def)

lemma fold_rows: "fold (\<lambda>y. fold (\<lambda>x. f (80 * y + x)) [0..<80]) [0..<n] = fold f [0..<80 * n]" for f :: "nat \<Rightarrow> 'a \<Rightarrow> 'a"
proof (induction n)
  case (Suc n)
  have "fold (\<lambda>x. f (80 * n + x)) [0..<80] = fold f [80 * n..<80 * n + 80]"
    using fold_map[of f "\<lambda>x. x + 80 * n" "[0..<80]"] by (simp add: map_add_upt o_def add.commute)
  moreover have "[0..<80 * Suc n] = [0..<80 * n] @ [80 * n..<80 * n + 80]"
    using upt_add_eq_append[of 0 "80 * n" 80] by (simp add: add.commute)
  ultimately show ?case using Suc by (simp add: fun_eq_iff)
qed simp

lemma clear_cell_mem:
  "clear_cell i s = s\<lparr>mem := put_cell (video_mem s) i 0x20 (mem s)\<rparr>"
  by (simp add: clear_cell_def poke_def put_cell_def cell_nat)

lemma scroll_cell_mem:
  "scroll_cell y x s = s\<lparr>mem := move_cell (video_mem s) (80 * y + x) (mem s)\<rparr>"
proof -
  have "cell v (80 * int y + int x) = v + of_nat (2 * (80 * y + x))" for v
    using cell_nat[of v "80 * y + x"] by simp
  moreover have "cell v (80 * (int y + 1) + int x) = v + of_nat (2 * (80 * y + x) + 160)" for v
    using cell_nat[of v "80 * y + x + 80"] by (simp add: algebra_simps)
  ultimately show ?thesis
    by (simp add: scroll_cell_def poke_def put_cell_def move_cell_def Let_def)
qed

lemma blank_cell_mem:
  "blank_cell x s = s\<lparr>mem := put_cell (video_mem s) (1920 + x) 0x20 (mem s)\<rparr>"
  using cell_nat[of "video_mem s" "1920 + x"] by (simp add: blank_cell_def poke_def put_cell_def Let_def)

lemma clear_eq:
  "clear s = update_cursor 0 0
    (s\<lparr>mem := cell_fill (video_mem s) 0 2000 0x20 (mem s), screen_x := 0, screen_y := 0\<rparr>)"
  using fold_mem[of clear_cell "\<lambda>v i. put_cell v i 0x20" "[0..<2000]" s] fold_put_cell[of 0 2000]
  by (simp add: clear_def clear_cell_mem)

lemma fold_blank:
  "fold (\<lambda>x. put_cell v (1920 + x) c) [0..<80] m = cell_fill v 1920 2000 c m"
  using fold_map[of "\<lambda>i. put_cell v i c" "\<lambda>x. x + 1920" "[0..<80]"] fold_put_cell[of 1920 2000 v c m]
  by (simp add: map_add_upt o_def add.commute)

definition scrolled :: "ptr \<Rightarrow> mem \<Rightarrow> mem" where
  "scrolled v m = cell_fill v 1920 2000 0x20 (shift_up v 1920 m)"

lemma scroll_handle_eq:
  "scroll_handle s = update_cursor 0 (screen_y s - 1)
    (s\<lparr>mem := scrolled (video_mem s) (mem s), screen_y := screen_y s - 1, screen_x := 0\<rparr>)"
proof -
  have "fold (scroll_cell y) [0..<80] t =
      t\<lparr>mem := fold (\<lambda>x. move_cell (video_mem t) (80 * y + x)) [0..<80] (mem t)\<rparr>" for y and t :: "'a console_scheme"
    using fold_mem[of "scroll_cell y" "\<lambda>v x. move_cell v (80 * y + x)"] by (simp add: scroll_cell_mem)
  then have "fold (\<lambda>y. fold (scroll_cell y) [0..<80]) [0..<24] s =
      s\<lparr>mem := fold (\<lambda>y. fold (\<lambda>x. move_cell (video_mem s) (80 * y + x)) [0..<80]) [0..<24] (mem s)\<rparr>"
    by (intro fold_mem[where f = "\<lambda>v y. fold (\<lambda>x. move_cell v (80 * y + x)) [0..<80]"]) simp
  moreover have "fold blank_cell [0..<80] t =
      t\<lparr>mem := cell_fill (video_mem t) 1920 2000 0x20 (mem t)\<rparr>" for t :: "'a console_scheme"
    using fold_mem[of blank_cell "\<lambda>v x. put_cell v (1920 + x) 0x20" "[0..<80]" t]
    by (simp add: blank_cell_mem fold_blank)
  ultimately show ?thesis
    using fold_rows[of "move_cell (video_mem s)" 24] fold_move_cell[of 1920 "video_mem s" "mem s"]
    by (simp add: scroll_handle_def scrolled_def Let_def)
qed

section \<open>The screen as a grid of characters\<close>

definition at :: "ptr \<Rightarrow> nat \<Rightarrow> nat \<Rightarrow> ptr" where
  "at v r c = v + of_nat (2 * (80 * r + c))"

definition glyphs :: "ptr \<Rightarrow> mem \<Rightarrow> bytes list" where
  "glyphs v m = map (\<lambda>r. map (\<lambda>c. m (at v r c)) [0..<80]) [0..<25]"

text \<open>What the user sees: the 25 rows of 80 characters and the column and row of the next one.\<close>

type_synonym display = "bytes list \<times> nat \<times> nat"

definition display :: "'a console_scheme \<Rightarrow> display" where
  "display s = (glyphs (video_mem s) (mem s), nat (screen_x s), nat (screen_y s))"

definition on_screen :: "'a console_scheme \<Rightarrow> bool" where
  "on_screen s \<longleftrightarrow> 0 \<le> screen_x s \<and> screen_x s < NUM_COLS \<and> 0 \<le> screen_y s \<and> screen_y s < NUM_ROWS"

definition grid_scroll :: "bytes list \<Rightarrow> bytes list" where
  "grid_scroll g = tl g @ [replicate 80 0x20]"

definition grid_set :: "nat \<Rightarrow> nat \<Rightarrow> u8 \<Rightarrow> bytes list \<Rightarrow> bytes list" where
  "grid_set r c b g = g[r := (g ! r)[c := b]]"

text \<open>The specification of one character: a line break, or a character in the current row.\<close>

fun grid_putc :: "u8 \<Rightarrow> display \<Rightarrow> display" where
  "grid_putc b (g, x, y) =
    (if b = 10 \<or> b = 13 then (if y = 24 then (grid_scroll g, 0, 24) else (g, 0, y + 1))
     else (grid_set y x b g, (x + 1) mod 80, y))"

lemma at_off: "r < 25 \<Longrightarrow> c < 80 \<Longrightarrow> unat (at v r c - v) = 2 * (80 * r + c)"
  unfolding at_def by (subst unat_diff_self_add) auto

lemma cell_eq_iff:
  fixes r c x y :: nat
  assumes "c < 80" "x < 80"
  shows "2 * (80 * r + c) = 2 * (80 * y + x) \<longleftrightarrow> r = y \<and> c = x"
proof
  assume "2 * (80 * r + c) = 2 * (80 * y + x)"
  then have e: "80 * r + c = 80 * y + x" by simp
  then have "(80 * r + c) div 80 = (80 * y + x) div 80" by simp
  with assms have "r = y" by simp
  with e show "r = y \<and> c = x" by simp
qed simp

lemma at_eq_iff:
  "r < 25 \<Longrightarrow> c < 80 \<Longrightarrow> y < 25 \<Longrightarrow> x < 80 \<Longrightarrow> at v r c = at v y x \<longleftrightarrow> r = y \<and> c = x"
  using cell_eq_iff[of c x r y] by (auto dest: arg_cong[of _ _ "\<lambda>a. unat (a - v)"] simp: at_off)

lemma glyphs_eqI:
  assumes "\<And>r c. r < 25 \<Longrightarrow> c < 80 \<Longrightarrow> m (at v r c) = g ! r ! c"
    and "length g = 25" "\<And>r. r < 25 \<Longrightarrow> length (g ! r) = 80"
  shows "glyphs v m = g"
  using assms by (auto simp: glyphs_def intro!: nth_equalityI)

lemma glyphs_nth [simp]:
  "length (glyphs v m) = 25" "r < 25 \<Longrightarrow> length (glyphs v m ! r) = 80"
  "r < 25 \<Longrightarrow> c < 80 \<Longrightarrow> glyphs v m ! r ! c = m (at v r c)"
  by (simp_all add: glyphs_def)

lemma glyphs_put_cell:
  assumes "y < 25" "x < 80"
  shows "glyphs v (put_cell v (80 * y + x) b m) = grid_set y x b (glyphs v m)"
proof -
  have "put_cell v (80 * y + x) b m (at v r c) = (if r = y \<and> c = x then b else m (at v r c))"
    if "r < 25" "c < 80" for r c
  proof -
    have "2 * (80 * r + c) \<noteq> 2 * (80 * y + x) + 1"
      using double_not_eq_Suc_double by (metis Suc_eq_plus1)
    with that assms show ?thesis by (simp only: put_cell_apply at_off cell_eq_iff) simp
  qed
  then show ?thesis using assms
    by (intro glyphs_eqI) (auto simp: grid_set_def nth_list_update)
qed

lemma glyphs_scrolled: "glyphs v (scrolled v m) = grid_scroll (glyphs v m)"
proof -
  have "scrolled v m (at v r c) = (if r = 24 then 0x20 else m (at v (Suc r) c))"
    if "r < 25" "c < 80" for r c
  proof -
    have "v + of_nat (2 * (80 * r + c) + 160) = at v (Suc r) c"
      by (simp add: at_def algebra_simps)
    with that show ?thesis
      unfolding scrolled_def cell_fill_def shift_up_def Let_def by (simp only: at_off) auto
  qed
  then show ?thesis
    by (intro glyphs_eqI) (auto simp: grid_scroll_def nth_append nth_tl)
qed

lemma glyphs_fill: "glyphs v (cell_fill v 0 2000 b m) = replicate 25 (replicate 80 b)"
proof -
  have "cell_fill v 0 2000 b m (at v r c) = b" if "r < 25" "c < 80" for r c
    using that unfolding cell_fill_def Let_def by (simp only: at_off) auto
  then show ?thesis by (intro glyphs_eqI) auto
qed

lemma glyphs_single:
  "y < 25 \<Longrightarrow> x < 80 \<Longrightarrow> glyphs v (m(at v y x := b)) = grid_set y x b (glyphs v m)"
  by (intro glyphs_eqI) (auto simp: grid_set_def nth_list_update at_eq_iff)

section \<open>Closed forms of the console operations\<close>

definition cursor_writes :: "int \<Rightarrow> int \<Rightarrow> io_event list" where
  "cursor_writes x y =
    (let position = word_of_int (y * NUM_COLS + x) :: u32
     in [Outb VGA2 (ucast (drop_bit 8 position AND 0xFF)), Outb VGA1 0x0E,
         Outb VGA2 (ucast (position AND 0xFF)), Outb VGA1 0x0F])"

lemma update_cursor_eq: "update_cursor x y s = s\<lparr>io_trace := cursor_writes x y @ io_trace s\<rparr>"
  by (simp add: update_cursor_def cursor_writes_def outb_def Let_def)

text \<open>
  After a string the column can be anything a byte holds (see \<open>puts\<close>), so the invariant of the
  console is only \<open>near_screen\<close>: the row is on the screen, the column fits a byte.
\<close>

definition near_screen :: "'a console_scheme \<Rightarrow> bool" where
  "near_screen s \<longleftrightarrow> 0 \<le> screen_x s \<and> screen_x s < 256 \<and> 0 \<le> screen_y s \<and> screen_y s < NUM_ROWS"

lemma on_near: "on_screen s \<Longrightarrow> near_screen s"
  by (simp add: on_screen_def near_screen_def)

lemma cell_xy: "0 \<le> x \<Longrightarrow> 0 \<le> y \<Longrightarrow> cell v (80 * y + x) = v + of_nat (2 * (80 * nat y + nat x))"
  using cell_nat[of v "80 * nat y + nat x"] by simp

definition is_newline :: "u8 \<Rightarrow> bool" where
  "is_newline c \<longleftrightarrow> c = 10 \<or> c = 13"

lemma putc_eq:
  assumes "near_screen s"
  shows "putc c s =
    (if is_newline c
     then if screen_y s = 24
          then s\<lparr>mem := scrolled (video_mem s) (mem s), io_trace := cursor_writes 0 24 @ io_trace s,
                 screen_x := 0\<rparr>
          else s\<lparr>io_trace := cursor_writes 0 (screen_y s + 1) @ io_trace s,
                 screen_x := 0, screen_y := screen_y s + 1\<rparr>
     else if get_key_index s < 128
     then s\<lparr>mem := put_cell (video_mem s) (80 * nat (screen_y s) + nat (screen_x s)) c (mem s),
            screen_x := (screen_x s + 1) mod 80\<rparr>
     else s)"
proof -
  have "s\<lparr>screen_x := x, screen_y := screen_y s\<rparr> = s\<lparr>screen_x := x\<rparr>" for x
    by (cases s) simp
  moreover have "0 \<le> (screen_x s + 1) mod 80" "((screen_x s + 1) mod 80) div 80 = 0"
    by simp_all
  ultimately show ?thesis
    using assms
    by (auto simp: putc_def is_newline_def near_screen_def scroll_handle_eq update_cursor_eq poke_def
        put_cell_def cell_xy Let_def simp del: of_nat_mult of_nat_add)
qed

text \<open>
  The frame of a console operation: it touches the cursor, the port trace and at most the first
  \<open>n\<close> bytes of the video page, and nothing else of the kernel state.
\<close>

definition screen_step :: "nat \<Rightarrow> 'a console_scheme \<Rightarrow> 'a console_scheme \<Rightarrow> bool" where
  "screen_step n s t \<longleftrightarrow>
    t = s\<lparr>mem := mem t, io_trace := io_trace t, screen_x := screen_x t, screen_y := screen_y t\<rparr> \<and>
    (\<forall>a. \<not> in_rng (video_mem s) n a \<longrightarrow> mem t a = mem s a)"

lemma screen_stepD:
  assumes "screen_step n s t"
  shows "video_mem t = video_mem s" "key_index t = key_index s"
    "display_terminal t = display_terminal s" "get_key_index t = get_key_index s"
    "\<not> in_rng (video_mem s) n a \<Longrightarrow> mem t a = mem s a"
proof -
  have t: "t = s\<lparr>mem := mem t, io_trace := io_trace t, screen_x := screen_x t, screen_y := screen_y t\<rparr>"
    using assms by (simp add: screen_step_def)
  show "video_mem t = video_mem s" "key_index t = key_index s"
    "display_terminal t = display_terminal s" "get_key_index t = get_key_index s"
    by (subst t, simp add: get_key_index_def)+
  show "mem t a = mem s a" if "\<not> in_rng (video_mem s) n a"
    using assms that by (simp add: screen_step_def)
qed

lemma screen_step_refl [simp]: "screen_step n s s"
  by (simp add: screen_step_def)

lemma screen_step_trans [trans]:
  assumes "screen_step n s t" "screen_step n t u"
  shows "screen_step n s u"
proof -
  have t: "t = s\<lparr>mem := mem t, io_trace := io_trace t, screen_x := screen_x t, screen_y := screen_y t\<rparr>"
    and u: "u = t\<lparr>mem := mem u, io_trace := io_trace u, screen_x := screen_x u, screen_y := screen_y u\<rparr>"
    using assms by (simp_all add: screen_step_def)
  have "u = s\<lparr>mem := mem u, io_trace := io_trace u, screen_x := screen_x u, screen_y := screen_y u\<rparr>"
    by (subst u, subst t) simp
  then show ?thesis
    using screen_stepD(1,5)[OF assms(1)] screen_stepD(5)[OF assms(2)] by (simp add: screen_step_def)
qed

lemma put_cell_frame:
  "2 * i + 2 \<le> n \<Longrightarrow> i < 2147483648 \<Longrightarrow> \<not> in_rng v n a \<Longrightarrow> put_cell v i c m a = m a"
  by (auto simp: put_cell_apply in_rng_def)

lemma scrolled_frame: "4000 \<le> n \<Longrightarrow> \<not> in_rng v n a \<Longrightarrow> scrolled v m a = m a"
  by (auto simp: scrolled_def cell_fill_def shift_up_def in_rng_def Let_def)

lemma putc_step:
  assumes "near_screen s"
  shows "near_screen (putc c s)" and "screen_step 4352 s (putc c s)"
    and "on_screen s \<Longrightarrow> on_screen (putc c s)" and "on_screen s \<Longrightarrow> screen_step 4000 s (putc c s)"
proof -
  have b: "2 * (80 * nat (screen_y s) + nat (screen_x s)) + 2 \<le> 4352"
    using assms by (auto simp: near_screen_def)
  show "near_screen (putc c s)" "on_screen s \<Longrightarrow> on_screen (putc c s)"
    using assms by (auto simp: near_screen_def on_screen_def putc_eq[OF assms]
        intro: less_trans[OF pos_mod_bound])
  show "screen_step 4352 s (putc c s)"
    using b by (auto simp: screen_step_def putc_eq[OF assms]
        put_cell_frame[where n = 4352] scrolled_frame[where n = 4352])
  show "screen_step 4000 s (putc c s)" if "on_screen s"
  proof -
    have "2 * (80 * nat (screen_y s) + nat (screen_x s)) + 2 \<le> 4000"
      using that by (auto simp: on_screen_def)
    then show ?thesis
      by (auto simp: screen_step_def putc_eq[OF assms]
          put_cell_frame[where n = 4000] scrolled_frame[where n = 4000])
  qed
qed

lemma fold_putc_step:
  "near_screen s \<Longrightarrow> near_screen (fold putc bs s) \<and> screen_step 4352 s (fold putc bs s)"
proof (induction bs arbitrary: s)
  case (Cons b bs)
  then show ?case
    using putc_step(1,2)[of s b] screen_step_trans[of 4352 s "putc b s"] by auto
qed simp

section \<open>Characters and the cursor\<close>

lemma display_putc:
  assumes "on_screen s" "get_key_index s < 128"
  shows "display (putc c s) = grid_putc c (display s)"
proof -
  have b: "nat (screen_y s) < 25" "nat (screen_x s) < 80" and n: "near_screen s"
    using assms(1) by (auto simp: on_screen_def near_screen_def)
  have "nat ((screen_x s + 1) mod 80) = (nat (screen_x s) + 1) mod 80"
    using assms(1) by (simp add: on_screen_def nat_mod_distrib nat_add_distrib)
  with assms b show ?thesis
    by (auto simp: display_def putc_eq[OF n] is_newline_def glyphs_scrolled glyphs_put_cell
        on_screen_def nat_add_distrib)
qed

text \<open>
  The VGA cursor registers as the port trace leaves them: the index register selects the high
  (0x0E) or the low (0x0F) byte of the position.
\<close>

fun vga_regs :: "io_event list \<Rightarrow> u8 \<times> u8 \<times> u8" where
  "vga_regs [] = (0, 0, 0)"
| "vga_regs (Inb q v # tr) = vga_regs tr"
| "vga_regs (Outb q v # tr) =
    (let (i, hi, lo) = vga_regs tr
     in if q = VGA1 then (v, hi, lo)
        else if q = VGA2 then (i, if i = 0x0E then v else hi, if i = 0x0F then v else lo)
        else (i, hi, lo))"

definition hw_cursor :: "'a machine_scheme \<Rightarrow> nat" where
  "hw_cursor s = (case vga_regs (io_trace s) of (i, hi, lo) \<Rightarrow> 256 * unat hi + unat lo)"

lemma low_byte: "unat (ucast (w AND 0xFF) :: u8) = unat w mod 256" for w :: u32
proof -
  have "w AND 0xFF = take_bit 8 w" by (simp add: take_bit_eq_mask mask_eq_exp_minus_1)
  then show ?thesis by (simp add: unsigned_ucast_eq unsigned_take_bit_eq take_bit_eq_mod unat_mod)
qed

lemma cursor_bytes:
  fixes w :: u32
  assumes "unat w < 65536"
  shows "256 * unat (ucast (drop_bit 8 w AND 0xFF) :: u8) + unat (ucast (w AND 0xFF) :: u8) = unat w"
proof -
  have "unat (drop_bit 8 w) = unat w div 256" by (simp add: drop_bit_eq_div unat_div)
  with assms show ?thesis unfolding low_byte by simp
qed

lemma hw_cursor_update:
  assumes "0 \<le> y * 80 + x" "y * 80 + x < 65536"
  shows "hw_cursor (update_cursor x y s) = nat (y * 80 + x)"
proof -
  define w :: u32 where "w = word_of_int (y * 80 + x)"
  have "unat w = nat (y * 80 + x)"
    unfolding w_def using assms by (simp only: unsigned_of_int) (simp add: take_bit_int_eq_self)
  moreover have "cursor_writes x y = [Outb VGA2 (ucast (drop_bit 8 w AND 0xFF)), Outb VGA1 0x0E,
      Outb VGA2 (ucast (w AND 0xFF)), Outb VGA1 0x0F]"
    by (simp only: cursor_writes_def w_def Let_def)
  ultimately show ?thesis
    using assms cursor_bytes[of w] by (simp add: hw_cursor_def update_cursor_eq split_beta Let_def)
qed

text \<open>
  C31: output of one character. With the cursor on the screen and a key buffer that is not full,
  \<open>putc\<close> implements the grid specification: a line break moves to the start of the next row or
  scrolls on the last one, any other byte is stored at the cursor, which moves right and at the
  right margin returns to the start of the \<^emph>\<open>same\<close> row. The cursor stays on the screen and no byte
  outside the 4000 bytes of the screen changes.
\<close>

theorem putc_refines:
  assumes "on_screen s" "get_key_index s < 128"
  shows "display (putc c s) = grid_putc c (display s) \<and> on_screen (putc c s) \<and>
    screen_step 4000 s (putc c s)"
  using assms display_putc putc_step(3,4)[OF on_near] by blast

text \<open>
  \<open>clear\<close> leaves 25 rows of 80 blanks, the software and the hardware cursor in the top left
  corner, and everything outside the screen as it was.
\<close>

theorem clear_spec:
  "display (clear s) = (replicate 25 (replicate 80 0x20), 0, 0) \<and> hw_cursor (clear s) = 0 \<and>
    screen_step 4000 s (clear s)"
proof (intro conjI)
  show "hw_cursor (clear s) = 0"
    unfolding clear_eq by (subst hw_cursor_update) auto
  show "screen_step 4000 s (clear s)"
    by (simp add: clear_eq update_cursor_eq screen_step_def cell_fill_def in_rng_def)
qed (simp add: clear_eq update_cursor_eq display_def glyphs_fill)

fun grid_backspace :: "display \<Rightarrow> display" where
  "grid_backspace (g, x, y) =
    (let (x, y) = (if x = 0 \<and> y = 0 then (0, 0) else if x = 0 then (79, y - 1) else (x - 1, y))
     in (grid_set y x 0x20 g, x, y))"

lemma print_backspace_eq:
  assumes "on_screen s"
  obtains x y tr where "print_backspace s =
      update_cursor x y (s\<lparr>mem := (mem s)(at (video_mem s) (nat y) (nat x) := 0x20), io_trace := tr,
        screen_x := x, screen_y := y,
        wrapped := (if screen_x s = 0 \<and> screen_y s \<noteq> 0 then 0 else wrapped s)\<rparr>)"
    and "0 \<le> x" "x < 80" "0 \<le> y" "y < 25"
    and "(nat x, nat y) = snd (grid_backspace (g, nat (screen_x s), nat (screen_y s)))"
proof -
  consider "screen_x s = 0" "screen_y s = 0" | "screen_x s = 0" "0 < screen_y s" | "0 < screen_x s"
    using assms by (fastforce simp: on_screen_def)
  then show thesis
  proof cases
    case 1
    have "s = s\<lparr>screen_x := 0, screen_y := 0\<rparr>" using 1 by (cases s) simp
    then show thesis using 1
      by (intro that[of 0 0 "io_trace s"])
         (auto simp: print_backspace_def poke_def cell_def at_def update_cursor_eq Let_def)
  next
    case 2
    have a: "cell v (80 * screen_y s - 1) = at v (nat (screen_y s) - 1) 79" for v
      using 2 cell_xy[of 79 "screen_y s - 1" v] by (simp add: at_def nat_diff_distrib)
    show thesis using 2 assms
      by (intro that[of 79 "screen_y s - 1" "cursor_writes 79 (screen_y s - 1) @ io_trace s"]; cases s)
         (use a in \<open>auto simp: print_backspace_def poke_def update_cursor_eq Let_def on_screen_def nat_diff_distrib\<close>)
  next
    case 3
    have a: "cell v (80 * screen_y s + (screen_x s - 1)) = at v (nat (screen_y s)) (nat (screen_x s - 1))" for v
      using 3 assms cell_xy[of "screen_x s - 1" "screen_y s" v] by (simp add: at_def on_screen_def)
    have "s = s\<lparr>screen_y := screen_y s, wrapped := wrapped s\<rparr>" by (cases s) simp
    then show thesis using 3 assms
      by (intro that[of "screen_x s - 1" "screen_y s"
            "cursor_writes (screen_x s - 1) (screen_y s) @ io_trace s"])
         (auto simp: print_backspace_def poke_def a update_cursor_eq Let_def on_screen_def nat_diff_distrib)
  qed
qed
lemma display_backspace:
  assumes "on_screen s"
  shows "display (print_backspace s) = grid_backspace (display s)"
    and "on_screen (print_backspace s)"
    and "hw_cursor (print_backspace s) = nat (screen_y (print_backspace s) * 80 + screen_x (print_backspace s))"
    and "\<not> in_rng (video_mem s) 4000 a \<Longrightarrow> mem (print_backspace s) a = mem s a"
proof -
  let ?g = "glyphs (video_mem s) (mem s)"
  obtain x y tr where e: "print_backspace s =
      update_cursor x y (s\<lparr>mem := (mem s)(at (video_mem s) (nat y) (nat x) := 0x20), io_trace := tr,
        screen_x := x, screen_y := y,
        wrapped := (if screen_x s = 0 \<and> screen_y s \<noteq> 0 then 0 else wrapped s)\<rparr>)"
    and b: "0 \<le> x" "x < 80" "0 \<le> y" "y < 25"
    and xy: "(nat x, nat y) = snd (grid_backspace (?g, nat (screen_x s), nat (screen_y s)))"
    by (rule print_backspace_eq[OF assms])
  have nb: "nat x < 80" "nat y < 25" using b by auto
  show "display (print_backspace s) = grid_backspace (display s)"
    using xy nb by (auto simp: e update_cursor_eq display_def glyphs_single Let_def split: if_splits)
  show "on_screen (print_backspace s)"
    using b by (simp add: e update_cursor_eq on_screen_def)
  show "hw_cursor (print_backspace s) = nat (screen_y (print_backspace s) * 80 + screen_x (print_backspace s))"
    unfolding e using b by (subst hw_cursor_update) (auto simp: update_cursor_eq)
  have "in_rng (video_mem s) 4000 (at (video_mem s) (nat y) (nat x))"
    using at_off[OF nb(2,1)] nb by (auto simp: in_rng_def)
  then show "mem (print_backspace s) a = mem s a" if "\<not> in_rng (video_mem s) 4000 a"
    using that by (auto simp: e update_cursor_eq)
qed

text \<open>
  \<open>print_backspace\<close> implements the grid specification: it steps back one character, to the end
  of the previous row from the start of a row, not at all from the top left corner, and blanks
  the character there. The hardware cursor follows, and erasing the character just printed
  restores the cursor of before (unless the character was the last of its row).
\<close>

theorem print_backspace_refines:
  assumes "on_screen s"
  shows "display (print_backspace s) = grid_backspace (display s) \<and>
    on_screen (print_backspace s) \<and>
    hw_cursor (print_backspace s) =
      nat (screen_y (print_backspace s) * 80 + screen_x (print_backspace s)) \<and>
    (\<forall>a. \<not> in_rng (video_mem s) 4000 a \<longrightarrow> mem (print_backspace s) a = mem s a) \<and>
    (\<not> is_newline c \<and> screen_x s < 79 \<and> get_key_index s < 128 \<longrightarrow>
      snd (display (print_backspace (putc c s))) = snd (display s))"
proof -
  have "snd (display (print_backspace (putc c s))) = snd (display s)"
    if nl: "\<not> is_newline c" and x79: "screen_x s < 79" and k: "get_key_index s < 128"
  proof -
    obtain g x y where d: "display s = (g, x, y)" and x: "x < 79"
      using x79 assms by (auto simp: display_def on_screen_def)
    have "on_screen (putc c s)" using putc_step(3)[OF on_near[OF assms] assms] .
    then have "display (print_backspace (putc c s)) = grid_backspace (grid_putc c (display s))"
      by (simp only: display_backspace(1) display_putc[OF assms k])
    with nl d x show ?thesis by (simp add: is_newline_def)
  qed
  with display_backspace[OF assms] show ?thesis by blast
qed

section \<open>Strings\<close>

lemma puts_loop_eq:
  assumes "cstr (mem s) (p + index) bs" "near_screen s"
    and "disjnt_rng (video_mem s) 4352 (p + index) (Suc (length bs))" "length bs < 4294967295"
  shows "puts_loop p x index s = Some (x + of_nat (length bs), index + of_nat (length bs), fold putc bs s)"
  using assms
proof (induction bs arbitrary: s x index)
  case Nil
  then show ?case by (subst puts_loop.simps) simp
next
  case (Cons b bs)
  let ?t = "putc b s"
  have st: "screen_step 4352 s ?t" "near_screen ?t" using putc_step[OF Cons.prems(2)] by blast+
  have d: "disjnt_rng (video_mem s) 4352 (p + index + 1) (Suc (length bs))"
    using Cons.prems(3) by (auto simp: disjnt_rng_def dest: in_rng_tail)
  have "cstr (mem s) (p + index + 1) bs" using Cons.prems(1) by simp
  moreover have "mem ?t a = mem s a" if "in_rng (p + index + 1) (Suc (length bs)) a" for a
    using screen_stepD(5)[OF st(1)] disjnt_rngD2[OF d that] by blast
  ultimately have "cstr (mem ?t) (p + index + 1) bs"
    using cstr_cong[of "p + index + 1" bs "mem ?t" "mem s"] Cons.prems(4) by simp
  then have "puts_loop p (x + 1) (index + 1) ?t =
      Some (x + 1 + of_nat (length bs), index + 1 + of_nat (length bs), fold putc bs ?t)"
    using st d Cons.prems(4) by (intro Cons.IH) (simp_all add: screen_stepD add.assoc)
  with Cons.prems(1) show ?case
    by (subst puts_loop.simps) (simp add: add.assoc add.left_commute)
qed

text \<open>Printing the bytes of a string, with the column that \<open>puts\<close> leaves.\<close>

definition put_str :: "bytes \<Rightarrow> 'a console_scheme \<Rightarrow> 'a console_scheme" where
  "put_str bs s = (fold putc bs s)\<lparr>screen_x := (screen_x s + int (length bs)) mod 256\<rparr>"

lemma puts_eq:
  assumes "cstr (mem s) p bs" "near_screen s"
    and "disjnt_rng (video_mem s) 4352 p (Suc (length bs))" "length bs < 4294967295"
  shows "puts p s = Some (of_nat (length bs), put_str bs s)"
proof -
  have "uint (word_of_int (screen_x s) + of_nat (length bs) :: u8) = (screen_x s + int (length bs)) mod 256"
    by (simp add: uint_word_ariths take_bit_eq_mod unsigned_of_int unsigned_of_nat zmod_int mod_simps)
  with puts_loop_eq[of s p 0 bs] assms show ?thesis by (simp add: puts_def put_str_def)
qed

lemma screen_step_x:
  assumes "screen_step n s t"
  shows "screen_step n s (t\<lparr>screen_x := x\<rparr>)"
proof -
  have t: "t = s\<lparr>mem := mem t, io_trace := io_trace t, screen_x := screen_x t, screen_y := screen_y t\<rparr>"
    using assms by (simp add: screen_step_def)
  have "t\<lparr>screen_x := x\<rparr> = s\<lparr>mem := mem t, io_trace := io_trace t, screen_x := x, screen_y := screen_y t\<rparr>"
    by (subst t) simp
  with assms show ?thesis by (simp add: screen_step_def)
qed

lemma put_str_step:
  assumes "near_screen s"
  shows "near_screen (put_str bs s)" "screen_step 4352 s (put_str bs s)"
  using fold_putc_step[OF assms, of bs] screen_step_x
  by (auto simp: put_str_def near_screen_def)

text \<open>
  \<open>puts\<close> terminates on every string that lies outside the video page, prints its bytes in
  order and returns their number. It then overwrites the column with the byte-sized count it kept
  itself, whatever rows and line breaks the characters went through: the cursor is on the
  screen afterwards exactly when that count is below 80. Otherwise later characters are written
  beside the row, up to 4352 bytes from the start of the 4096-byte video page.
\<close>

theorem puts_spec:
  assumes "cstr (mem s) p bs" "near_screen s"
    and "disjnt_rng (video_mem s) 4352 p (Suc (length bs))" "length bs < 4294967295"
  shows "\<exists>t. puts p s = Some (of_nat (length bs), t) \<and>
    t = (fold putc bs s)\<lparr>screen_x := (screen_x s + int (length bs)) mod 256\<rparr> \<and>
    (on_screen t \<longleftrightarrow> (screen_x s + int (length bs)) mod 256 < 80) \<and>
    near_screen t \<and> screen_step 4352 s t"
proof -
  have "near_screen (put_str bs s)" using put_str_step[OF assms(2)] by blast
  then have "on_screen (put_str bs s) \<longleftrightarrow> (screen_x s + int (length bs)) mod 256 < 80"
    by (auto simp: put_str_def on_screen_def near_screen_def)
  with puts_eq[OF assms] put_str_step[OF assms(2), of bs] show ?thesis
    by (auto simp: put_str_def)
qed

section \<open>Formatted output\<close>

text \<open>
  The reference for \<open>printf\<close>: the format and the arguments are rendered to a list of pieces, a
  character for \<open>putc\<close>, a text for \<open>puts\<close>, or the string an argument points to.
\<close>

datatype piece = Chr u8 | Txt bytes | StrAt ptr

definition num_text :: "nat \<Rightarrow> u32 \<Rightarrow> bytes" where
  "num_text r v = map ((!) lookup) (itoa_digits r (unat v))"

definition hex_text :: "bool \<Rightarrow> u32 \<Rightarrow> bytes" where
  "hex_text alternate v =
    (let t = num_text 16 v in if alternate then replicate (8 - length t) 48 @ t else t)"

definition dec_text :: "u32 \<Rightarrow> bytes" where
  "dec_text v = (if sint v < 0 then 45 # num_text 10 (- v) else num_text 10 v)"

definition render_arg :: "u8 \<Rightarrow> bool \<Rightarrow> u32 \<Rightarrow> piece" where
  "render_arg c alternate v =
    (if c = 120 then Txt (hex_text alternate v)
     else if c = 117 then Txt (num_text 10 v)
     else if c = 100 then Txt (dec_text v)
     else if c = 99 then Chr (ucast v)
     else StrAt v)"

fun render :: "bytes \<Rightarrow> u32 list \<Rightarrow> piece list option"
  and render_spec :: "bool \<Rightarrow> bytes \<Rightarrow> u32 list \<Rightarrow> piece list option" where
  "render [] args = Some []"
| "render (c # f) args =
    (if c = 37 then render_spec False f args else map_option ((#) (Chr c)) (render f args))"
| "render_spec alternate [] args = None"
| "render_spec alternate (c # f) args =
    (if c = 37 then map_option ((#) (Chr 37)) (render f args)
     else if c = 35 then render_spec True f args
     else if c \<in> {120, 117, 100, 99, 115}
     then (case args of [] \<Rightarrow> None
           | v # args \<Rightarrow> map_option ((#) (render_arg c alternate v)) (render f args))
     else render f args)"

fun emit :: "(ptr \<Rightarrow> bytes) \<Rightarrow> piece \<Rightarrow> 'a console_scheme \<Rightarrow> 'a console_scheme" where
  "emit str (Chr c) s = putc c s"
| "emit str (Txt bs) s = put_str bs s"
| "emit str (StrAt p) s = put_str (str p) s"

text \<open>Two states that differ only in the 64 bytes of the local buffer.\<close>

definition but_for :: "ptr \<Rightarrow> 'a console_scheme \<Rightarrow> 'a console_scheme \<Rightarrow> bool" where
  "but_for conv s t \<longleftrightarrow> (\<exists>m. t = s\<lparr>mem := m\<rparr> \<and> (\<forall>a. \<not> in_rng conv 64 a \<longrightarrow> m a = mem s a))"

lemma but_for_refl [simp]: "but_for conv s s"
  unfolding but_for_def by (rule exI[of _ "mem s"]) simp

lemma but_for_trans: "but_for conv s t \<Longrightarrow> but_for conv t u \<Longrightarrow> but_for conv s u"
  unfolding but_for_def by auto

lemma but_for_mem:
  "(\<And>a. \<not> in_rng conv 64 a \<Longrightarrow> m a = mem s a) \<Longrightarrow> but_for conv s (s\<lparr>mem := m\<rparr>)"
  by (auto simp: but_for_def)

lemma but_forD:
  assumes "but_for conv s t"
  shows "screen_x t = screen_x s" "screen_y t = screen_y s" "video_mem t = video_mem s"
    "near_screen t = near_screen s" "\<not> in_rng conv 64 a \<Longrightarrow> mem t a = mem s a"
  using assms by (auto simp: but_for_def near_screen_def)

lemma but_for_putc:
  assumes b: "but_for conv s t" and n: "near_screen s" and d: "disjnt_rng (video_mem s) 4352 conv 64"
  shows "but_for conv (putc c s) (putc c t)"
proof -
  let ?v = "video_mem s"
  obtain m where t: "t = s\<lparr>mem := m\<rparr>" and m: "\<And>a. \<not> in_rng conv 64 a \<Longrightarrow> m a = mem s a"
    using b by (auto simp: but_for_def)
  have nt: "near_screen t" using n by (simp add: t near_screen_def)
  have "m (?v + of_nat k) = mem s (?v + of_nat k)" if "k < 4352" for k
    using m disjnt_rngD1[OF d in_rngI[OF that]] by simp
  then have sc: "scrolled ?v m a = scrolled ?v (mem s) a" if "\<not> in_rng conv 64 a" for a
    using m[OF that] by (simp add: scrolled_def cell_fill_def shift_up_def Let_def del: of_nat_add)
  have pc: "put_cell ?v k c m a = put_cell ?v k c (mem s) a" if "\<not> in_rng conv 64 a" for a k
    using m[OF that] by (simp add: put_cell_def)
  have "putc c t = (putc c s)\<lparr>mem := mem (putc c t)\<rparr>"
    unfolding putc_eq[OF n] putc_eq[OF nt] by (simp add: t get_key_index_def)
  moreover have "mem (putc c t) a = mem (putc c s) a" if "\<not> in_rng conv 64 a" for a
    unfolding putc_eq[OF n] putc_eq[OF nt] using that by (simp add: t sc pc m get_key_index_def)
  ultimately show ?thesis unfolding but_for_def by blast
qed

lemma but_for_fold_putc:
  "but_for conv s t \<Longrightarrow> near_screen s \<Longrightarrow> disjnt_rng (video_mem s) 4352 conv 64 \<Longrightarrow>
    but_for conv (fold putc bs s) (fold putc bs t)"
proof (induction bs arbitrary: s t)
  case (Cons b bs)
  have "near_screen (putc b s)" "video_mem (putc b s) = video_mem s"
    using putc_step(1,2)[OF Cons.prems(2), of b] screen_stepD(1) by blast+
  with Cons but_for_putc[OF Cons.prems] show ?case by simp
qed simp

lemma but_for_put_str:
  assumes "but_for conv s t" "near_screen s" "disjnt_rng (video_mem s) 4352 conv 64"
  shows "but_for conv (put_str bs s) (put_str bs t)"
proof -
  obtain m where m: "fold putc bs t = (fold putc bs s)\<lparr>mem := m\<rparr>"
    "\<forall>a. \<not> in_rng conv 64 a \<longrightarrow> m a = mem (fold putc bs s) a"
    using but_for_fold_putc[OF assms, of bs] by (auto simp: but_for_def)
  have "put_str bs t = (put_str bs s)\<lparr>mem := m\<rparr>"
    unfolding put_str_def m(1) but_forD(1)[OF assms(1)] by simp
  with m(2) show ?thesis by (auto simp: but_for_def put_str_def)
qed

section \<open>The conversions\<close>

lemma length_num_text:
  "2 \<le> r \<Longrightarrow> length (num_text r v) \<le> 32" "2 \<le> r \<Longrightarrow> r \<le> 36 \<Longrightarrow> 0 \<notin> set (num_text r v)"
  using itoa_digits_props[of r "unat v"] lookup_nonzero by (fastforce simp: num_text_def)+

lemma length_num_text16: "length (num_text 16 v) \<le> 8"
  using length_digits_pow[of 16 "unat v" 8] by (simp add: num_text_def itoa_digits_def)

lemma num_text_nonempty: "2 \<le> r \<Longrightarrow> num_text r v \<noteq> []"
  using itoa_digits_props(4)[of r "unat v"] by (simp add: num_text_def)

lemma itoa_num_text:
  "2 \<le> unat r \<Longrightarrow> unat r \<le> 36 \<Longrightarrow> itoa m v buf r = Some (Inr (wr_bytes m buf (num_text (unat r) v @ [0])))"
  by (simp add: itoa_eq num_text_def)

text \<open>Printing a text that has been placed in the local buffer at offset \<open>k\<close>.\<close>

lemma puts_conv:
  assumes "near_screen s" "disjnt_rng (video_mem s) 4352 conv 64" "0 \<notin> set bs"
    and "k + length bs < 64" "\<And>a. \<not> in_rng conv 64 a \<Longrightarrow> m a = mem s a"
  shows "\<exists>t. puts (conv + of_nat k) (s\<lparr>mem := wr_bytes m (conv + of_nat k) (bs @ [0])\<rparr>)
      = Some (of_nat (length bs), t) \<and> but_for conv (put_str bs s) t"
proof -
  let ?m = "wr_bytes m (conv + of_nat k) (bs @ [0])" and ?p = "conv + of_nat k"
  have sub: "in_rng conv 64 a" if "in_rng ?p (Suc (length bs)) a" for a
    using in_rng_offset[OF that, of 64] assms(4) by simp
  have d: "disjnt_rng (video_mem s) 4352 ?p (Suc (length bs))"
    using sub assms(2) by (auto simp: disjnt_rng_def)
  have "puts ?p (s\<lparr>mem := ?m\<rparr>) = Some (of_nat (length bs), put_str bs (s\<lparr>mem := ?m\<rparr>))"
    using assms(1,3,4) d cstr_wr_bytes[of bs m ?p] by (intro puts_eq) (auto simp: near_screen_def)
  moreover have "?m a = mem s a" if "\<not> in_rng conv 64 a" for a
    using wr_bytes_out[of ?p "bs @ [0]" a m] sub[of a] assms(5)[OF that] that by auto
  then have "but_for conv s (s\<lparr>mem := ?m\<rparr>)" by (rule but_for_mem)
  then have "but_for conv (put_str bs s) (put_str bs (s\<lparr>mem := ?m\<rparr>))"
    by (rule but_for_put_str[OF _ assms(1,2)])
  ultimately show ?thesis by blast
qed

lemma itoa_puts_eq:
  assumes "near_screen s" "disjnt_rng (video_mem s) 4352 conv 64" "2 \<le> unat r" "unat r \<le> 36"
  shows "\<exists>t. itoa_puts conv conv v r s = Some (Inr t) \<and> but_for conv (put_str (num_text (unat r) v) s) t"
  using puts_conv[OF assms(1,2), of "num_text (unat r) v" 0 "mem s"] length_num_text[of "unat r" v] assms(3,4)
  by (auto simp: itoa_puts_def itoa_num_text)

lemma printf_d_eq:
  assumes "near_screen s" "disjnt_rng (video_mem s) 4352 conv 64"
  shows "\<exists>t. printf_d conv v s = Some (Inr t) \<and> but_for conv (put_str (dec_text v) s) t"
proof (cases "sint v < 0")
  case True
  have l: "length (num_text 10 (- v)) \<le> 32" "0 \<notin> set (num_text 10 (- v))"
    using length_num_text[of 10 "- v"] by simp_all
  have "wr_bytes ((mem s)(conv := 45)) (conv + 1) (num_text 10 (- v) @ [0]) =
      wr_bytes (mem s) conv (dec_text v @ [0])"
    using True l by (simp add: dec_text_def wr_bytes_Cons)
  then show ?thesis
    using puts_conv[OF assms, of "dec_text v" 0 "mem s"] True l
    by (auto simp: printf_d_def itoa_puts_def itoa_num_text poke_def dec_text_def)
next
  case False
  then show ?thesis
    using itoa_puts_eq[OF assms, of 10 v] by (simp add: printf_d_def dec_text_def)
qed

lemma pad_zeros_eq:
  "i + k < 4294967296 \<Longrightarrow> pad_zeros conv k i m = wr_bytes m (conv + of_nat i) (replicate k 48)"
  by (induction k arbitrary: i m) (simp_all add: wr_bytes_Cons algebra_simps)

lemma printf_x_eq:
  assumes "near_screen s" "disjnt_rng (video_mem s) 4352 conv 64"
  shows "\<exists>t. printf_x conv alt v s = Some (Inr t) \<and> but_for conv (put_str (hex_text alt v) s) t"
proof (cases alt)
  case True
  let ?t = "num_text 16 v" and ?m = "wr_bytes (mem s) (conv + 8) (num_text 16 v @ [0])"
  let ?L = "length (num_text 16 v)"
  have l: "?L \<le> 8" "0 \<notin> set ?t"
    using length_num_text16 length_num_text(2)[of 16 v] by simp_all
  have "cstr ?m (conv + 8) ?t" using l by (intro cstr_wr_bytes) auto
  then have sl: "strlen ?m (conv + 8) = Some (of_nat ?L)"
    using l by (intro strlen_cstr) auto
  have "pad_zeros conv (8 - ?L) ?L ?m = wr_bytes ?m (conv + of_nat ?L) (replicate (8 - ?L) 48)"
    using l by (intro pad_zeros_eq) auto
  also have "\<dots> = wr_bytes (wr_bytes (mem s) (conv + of_nat ?L) (replicate (8 - ?L) 48)) (conv + 8) (?t @ [0])"
    using l disjnt_rng_offsets[of ?L "8 - ?L" 8 "Suc ?L" conv]
    by (intro wr_bytes_commute) (simp add: disjnt_rng_sym)
  also have "\<dots> = wr_bytes (mem s) (conv + of_nat ?L) (hex_text True v @ [0])"
    using l by (simp add: hex_text_def wr_bytes_append of_nat_diff Let_def)
  finally have pz: "pad_zeros conv (8 - ?L) ?L ?m = wr_bytes (mem s) (conv + of_nat ?L) (hex_text True v @ [0])" .
  have "\<exists>t. puts (conv + of_nat ?L) (s\<lparr>mem := wr_bytes (mem s) (conv + of_nat ?L) (hex_text True v @ [0])\<rparr>)
      = Some (of_nat (length (hex_text True v)), t) \<and> but_for conv (put_str (hex_text True v) s) t"
    using l by (intro puts_conv[OF assms]) (auto simp: hex_text_def Let_def)
  with True l sl pz show ?thesis by (auto simp: printf_x_def itoa_num_text Let_def)
next
  case False
  then show ?thesis
    using itoa_puts_eq[OF assms, of 16 v] by (simp add: printf_x_def hex_text_def Let_def)
qed

section \<open>The format loop\<close>

text \<open>A string argument that the console does not overwrite while it prints.\<close>

definition str_ok :: "ptr \<Rightarrow> (ptr \<Rightarrow> bytes) \<Rightarrow> 'a console_scheme \<Rightarrow> ptr \<Rightarrow> bool" where
  "str_ok conv str s p \<longleftrightarrow>
    cstr (mem s) p (str p) \<and> length (str p) < 4294967295 \<and>
    disjnt_rng (video_mem s) 4352 p (Suc (length (str p))) \<and>
    disjnt_rng conv 64 p (Suc (length (str p)))"

lemma str_ok_cong:
  assumes "str_ok conv str s p" "video_mem t = video_mem s"
    and "\<And>a. \<not> in_rng conv 64 a \<Longrightarrow> \<not> in_rng (video_mem s) 4352 a \<Longrightarrow> mem t a = mem s a"
  shows "str_ok conv str t p"
proof -
  have "mem t a = mem s a" if "in_rng p (Suc (length (str p))) a" for a
    using assms(1,3) that by (auto simp: str_ok_def disjnt_rng_def)
  then have "cstr (mem t) p (str p) = cstr (mem s) p (str p)"
    using assms(1) by (intro cstr_cong) (auto simp: str_ok_def)
  with assms(1,2) show ?thesis by (simp add: str_ok_def)
qed

lemma emit_step:
  assumes "near_screen s"
  shows "near_screen (emit str q s)" "screen_step 4352 s (emit str q s)"
  using putc_step(1,2)[OF assms] put_str_step[OF assms] by (cases q; simp)+

definition pieces_ok :: "ptr \<Rightarrow> (ptr \<Rightarrow> bytes) \<Rightarrow> piece list \<Rightarrow> 'a console_scheme \<Rightarrow> bool" where
  "pieces_ok conv str qs s \<longleftrightarrow> near_screen s \<and> disjnt_rng (video_mem s) 4352 conv 64 \<and>
    (\<forall>p. StrAt p \<in> set qs \<longrightarrow> str_ok conv str s p)"

lemma pieces_ok_emit: "pieces_ok conv str (q # qs) s \<Longrightarrow> pieces_ok conv str qs (emit str q s)"
proof -
  assume ok: "pieces_ok conv str (q # qs) s"
  then have n: "near_screen s" by (simp add: pieces_ok_def)
  note st = emit_step[OF n, of str q]
  have "str_ok conv str (emit str q s) p" if "StrAt p \<in> set qs" for p
  proof (rule str_ok_cong)
    show "str_ok conv str s p" using ok that by (simp add: pieces_ok_def)
  qed (rule screen_stepD[OF st(2)], assumption?)+
  with ok st show ?thesis by (simp add: pieces_ok_def screen_stepD(1)[OF st(2)])
qed

lemma puts_str:
  assumes "but_for conv s t" "pieces_ok conv str (StrAt v # qs) s"
  shows "\<exists>n u. puts v t = Some (n, u) \<and> but_for conv (put_str (str v) s) u"
proof -
  have ok: "near_screen s" "disjnt_rng (video_mem s) 4352 conv 64" "str_ok conv str s v"
    using assms(2) by (simp_all add: pieces_ok_def)
  have "str_ok conv str t v"
    using ok(3) by (rule str_ok_cong) (simp_all add: but_forD[OF assms(1)])
  then have "puts v t = Some (of_nat (length (str v)), put_str (str v) t)"
    using ok(1) but_forD(4)[OF assms(1)] by (intro puts_eq) (simp_all add: str_ok_def)
  with but_for_put_str[OF assms(1) ok(1,2)] show ?thesis by blast
qed

lemma conversion_eq:
  assumes "but_for conv s t" "pieces_ok conv str (render_arg c alt v # qs) s"
    and "c \<in> {120, 117, 100, 99, 115}"
  shows "\<exists>u. (if c = 120 then printf_x conv alt v t
              else if c = 117 then itoa_puts conv conv v 10 t
              else if c = 100 then printf_d conv v t
              else if c = 99 then Some (Inr (putc (ucast v) t))
              else Option.bind (puts v t) (\<lambda>(n, s). Some (Inr s))) = Some (Inr u) \<and>
    but_for conv (emit str (render_arg c alt v) s) u"
proof -
  have n: "near_screen s" "disjnt_rng (video_mem s) 4352 conv 64"
    using assms(2) by (simp_all add: pieces_ok_def)
  have nt: "near_screen t" "disjnt_rng (video_mem t) 4352 conv 64"
    using n but_forD[OF assms(1)] by simp_all
  have via: "\<exists>u. r = Some (Inr u) \<and> but_for conv (put_str bs s) u"
    if "\<exists>u. r = Some (Inr u) \<and> but_for conv (put_str bs t) u" for r bs
    using that but_for_trans[OF but_for_put_str[OF assms(1) n]] by blast
  consider "c = 120" | "c = 117" | "c = 100" | "c = 99" | "c = 115" using assms(3) by auto
  then show ?thesis
  proof cases
    case 1
    then show ?thesis using via[OF printf_x_eq[OF nt]] by (simp add: render_arg_def)
  next
    case 2
    then show ?thesis using via[OF itoa_puts_eq[OF nt, of 10]] by (simp add: render_arg_def)
  next
    case 3
    then show ?thesis using via[OF printf_d_eq[OF nt]] by (simp add: render_arg_def)
  next
    case 4
    then show ?thesis using but_for_putc[OF assms(1) n] by (simp add: render_arg_def)
  next
    case 5
    then have "\<exists>n u. puts v t = Some (n, u) \<and> but_for conv (put_str (str v) s) u"
      using assms by (intro puts_str) (auto simp: render_arg_def)
    with 5 show ?thesis by (auto simp: render_arg_def)
  qed
qed

definition prints ::
  "ptr \<Rightarrow> (ptr \<Rightarrow> bytes) \<Rightarrow> piece list \<Rightarrow> 'a console_scheme \<Rightarrow> (fault + 'a console_scheme) option \<Rightarrow> bool" where
  "prints conv str qs s r \<longleftrightarrow> (\<exists>u. r = Some (Inr u) \<and> but_for conv (fold (emit str) qs s) u)"

lemma prints_fbind:
  assumes "\<exists>u. r = Some (Inr u) \<and> but_for conv (emit str q s) u"
    and "\<And>u. but_for conv (emit str q s) u \<Longrightarrow> prints conv str qs (emit str q s) (f u)"
  shows "prints conv str (q # qs) s (fbind r f)"
  using assms by (auto simp: prints_def fbind_def)

lemma printf_loop_render:
  fixes s t :: "'a console_scheme"
  shows "render fmt args = Some qs \<Longrightarrow> but_for conv s t \<Longrightarrow> pieces_ok conv str qs s \<Longrightarrow>
      prints conv str qs s (printf_loop conv fmt args t)"
    and "render_spec alt fmt args = Some qs \<Longrightarrow> but_for conv s t \<Longrightarrow> pieces_ok conv str qs s \<Longrightarrow>
      prints conv str qs s (printf_spec conv alt fmt args t)"
proof (induction fmt args and alt fmt args arbitrary: qs s t and qs s t rule: render_render_spec.induct)
  case (2 c f args)
  show ?case
  proof (cases "c = 37")
    case False
    then obtain qs' where q: "qs = Chr c # qs'" "render f args = Some qs'" using 2 by auto
    have "but_for conv (putc c s) (putc c t)"
      using 2(4,5) by (intro but_for_putc) (auto simp: pieces_ok_def)
    with 2(2)[OF False q(2)] 2(5) False q pieces_ok_emit[of conv str "Chr c" qs' s] show ?thesis
      by (simp add: prints_def)
  qed (use 2 in auto)
next
  case (4 alt c f args)
  consider "c = 37" | "c = 35" | "c \<in> {120, 117, 100, 99, 115}"
    | "c \<notin> {37, 35, 120, 117, 100, 99, 115}" by auto
  then show ?case
  proof cases
    case 1
    then obtain qs' where q: "qs = Chr 37 # qs'" "render f args = Some qs'" using 4 by auto
    have "but_for conv (putc 37 s) (putc 37 t)"
      using 4(6,7) by (intro but_for_putc) (auto simp: pieces_ok_def)
    with 4(1)[OF 1 q(2)] 4(7) 1 q pieces_ok_emit[of conv str "Chr 37" qs' s] show ?thesis
      by (simp add: prints_def)
  next
    case 3
    then obtain v args' qs' where q: "args = v # args'" "qs = render_arg c alt v # qs'"
      "render f args' = Some qs'" using 4(5) by (auto split: list.splits)
    have ok: "pieces_ok conv str qs' (emit str (render_arg c alt v) s)"
      using pieces_ok_emit 4(7) q(2) by blast
    have "prints conv str qs' (emit str (render_arg c alt v) s) (printf_loop conv f args' u)"
      if "but_for conv (emit str (render_arg c alt v) s) u" for u
      using 3 q that ok by (intro 4(3)) auto
    then have "prints conv str qs s (fbind (if c = 120 then printf_x conv alt v t
              else if c = 117 then itoa_puts conv conv v 10 t
              else if c = 100 then printf_d conv v t
              else if c = 99 then Some (Inr (putc (ucast v) t))
              else Option.bind (puts v t) (\<lambda>(n, s). Some (Inr s))) (printf_loop conv f args'))"
      unfolding q(2) using 4(6,7) 3 q(2) by (intro prints_fbind conversion_eq) auto
    with 3 q(1) show ?thesis by auto
  qed (use 4 in auto)
qed (simp_all add: prints_def)

text \<open>
  C30: formatted output. Whenever the arguments suffice for the format and it does not end inside a
  conversion, \<open>printf\<close> terminates without a fault, prints exactly the rendered pieces in order
  (hexadecimal with upper-case digits, zero-padded to eight after the \<^verbatim>\<open>#\<close> flag, signed and
  unsigned decimals including the most negative value, characters, strings) and returns the
  length of the format. Besides the console it touches only its local buffer.
\<close>

theorem printf_renders:
  assumes "render fmt args = Some qs" "pieces_ok conv str qs s"
  shows "\<exists>t. printf conv fmt args s = Some (Inr (of_nat (length fmt), t)) \<and>
    but_for conv (fold (emit str) qs s) t"
  using printf_loop_render(1)[OF assms(1) but_for_refl assms(2)]
  by (auto simp: printf_def prints_def fbind_def)

section \<open>Witnesses\<close>

text \<open>A console with the cursor at column 5 of row 3 and a string at address 4096.\<close>

definition demo_console :: console where
  "demo_console = \<lparr>mem = wr_bytes (\<lambda>_. 0) 4096 (asc ''hello'' @ [0]), io_trace = [],
    ports = echo_ports, if_flag = False, display_terminal = 0, running_terminal = 0,
    term_procs = replicate 6 (- 1), running_procs = replicate 3 (- 1),
    R_shift_check = 0, L_shift_check = 0, ctrl_check = 0, capslock_check = 0, alt_check = 0,
    enter_down = 0, shell_check = 0, current_line = 0, wrapped = 0,
    clear_offset = replicate 3 0, table_index = 0, key_index = replicate 3 0,
    key_buffer = replicate 384 0, last_screen_x = replicate 3 0, last_screen_y = replicate 3 0,
    screen_x = 5, screen_y = 3, video_mem = VIDEO\<rparr>"

lemma demo_console_ok:
  "on_screen demo_console" "near_screen demo_console" "get_key_index demo_console < 128"
  "screen_x demo_console = 5" "screen_y demo_console = 3" "video_mem demo_console = VIDEO"
  by (simp_all add: demo_console_def on_screen_def near_screen_def get_key_index_def)

lemma demo_console_str:
  "cstr (mem demo_console) 4096 (asc ''hello'')" "length (asc ''hello'') = 5"
  "disjnt_rng VIDEO 4352 4096 6" "disjnt_rng VIDEO 4352 8192 64"
proof -
  show "cstr (mem demo_console) 4096 (asc ''hello'')"
    unfolding demo_console_def by (simp del: cstr.simps) (rule cstr_wr_bytes; simp add: asc_def of_char_def)
  show "length (asc ''hello'') = 5" by (simp add: asc_def)
  show "disjnt_rng VIDEO 4352 4096 6" "disjnt_rng VIDEO 4352 8192 64"
    by (rule disjnt_rng_sym, rule disjnt_rng_below; simp)+
qed

theorem putc_refines_witness:
  "display (putc 65 demo_console) = grid_putc 65 (display demo_console) \<and> on_screen (putc 65 demo_console)"
  using putc_refines[OF demo_console_ok(1,3)] by blast

theorem print_backspace_refines_witness:
  "on_screen demo_console \<and> snd (display (print_backspace (putc 65 demo_console))) = snd (display demo_console)"
  using print_backspace_refines[OF demo_console_ok(1), of 65] demo_console_ok by (simp add: is_newline_def)

theorem puts_spec_witness:
  "\<exists>t. puts 4096 demo_console = Some (5, t) \<and> screen_x t = 10 \<and> on_screen t"
  using puts_spec[OF demo_console_str(1) demo_console_ok(2)] demo_console_str demo_console_ok by auto

theorem printf_renders_witness:
  "\<exists>t. printf 8192 (asc ''%d:%#x %s'') [- 3, 0x2AF, 4096] demo_console = Some (Inr (9, t)) \<and>
    but_for 8192 (fold (emit (\<lambda>_. asc ''hello''))
      [Txt (asc ''-3''), Chr 58, Txt (asc ''000002AF''), Chr 32, StrAt 4096] demo_console) t"
proof -
  have r: "render (asc ''%d:%#x %s'') [- 3, 0x2AF, 4096] =
      Some [Txt (asc ''-3''), Chr 58, Txt (asc ''000002AF''), Chr 32, StrAt 4096]"
    by (simp add: asc_def of_char_def render_arg_def dec_text_def hex_text_def num_text_def
        itoa_digits_def digits.simps lookup_eq) (simp add: numeral_eq_Suc)
  have "pieces_ok 8192 (\<lambda>_. asc ''hello'')
      [Txt (asc ''-3''), Chr 58, Txt (asc ''000002AF''), Chr 32, StrAt 4096] demo_console"
    using demo_console_ok demo_console_str disjnt_rng_below[of 4096 6 8192 64]
    by (simp add: pieces_ok_def str_ok_def disjnt_rng_sym)
  from printf_renders[OF r this] show ?thesis by (simp add: asc_def)
qed

end
