(* ===== verification/Rtc.thy ===== *)
theory Rtc
  imports Console
begin

text \<open>
  The real time clock driver \<^verbatim>\<open>student-distrib/rtc.c\<close>, the timer initialisation of
  \<^verbatim>\<open>student-distrib/pit.c\<close> and \<open>wait_sync\<close> of \<^verbatim>\<open>utils/clock_util.c\<close>. The hardware clock ticks
  at 1024 Hz; the driver derives a virtual frequency from it, one for all processes.

  A reader spins on \<open>IR_flag\<close> with interrupts enabled. Only the interrupt handler sets that flag,
  so the loop is modelled as taking the next clock interrupt as long as the flag is clear, and
  its result carries the number of interrupts taken. Not returning is \<open>None\<close>.

  The theorems: which frequencies are accepted, the rate at which a frequency signals, that a
  reader returns and when, that it hangs at frequency 0, and that the handler never faults in a
  reachable state unless the one bad frequency that the check lets through is written.
\<close>

section \<open>State and operations\<close>

record rtc = console +
  IR_flag :: int
  clk :: int
  virtual_freq :: int

abbreviation (input) RTC_PORT :: u16 where "RTC_PORT \<equiv> 0x70"
abbreviation (input) CMOS_PORT :: u16 where "CMOS_PORT \<equiv> 0x71"
abbreviation (input) MAX_FREQ :: int where "MAX_FREQ \<equiv> 1024"

text \<open>
  \<open>rtc_write\<close> in two parts: the check of the frequency, which \<open>rtc_open\<close> and \<open>wait_sync\<close> call
  with constants of the program, and the read of the user's buffer. The subtraction wraps.
\<close>

definition rtc_set_freq :: "u32 \<Rightarrow> int \<Rightarrow> 'a rtc_scheme \<Rightarrow> int \<times> 'a rtc_scheme" where
  "rtc_set_freq frequency nbytes s =
    (if sint frequency > 1024 then (- 1, s)
     else if frequency = 1 then (- 1, s)
     else if frequency AND (frequency - 1) \<noteq> 0 then (- 1, s)
     else (nbytes, s\<lparr>virtual_freq := sint frequency\<rparr>))"

definition rtc_write :: "int \<Rightarrow> ptr \<Rightarrow> int \<Rightarrow> 'a rtc_scheme \<Rightarrow> int \<times> 'a rtc_scheme" where
  "rtc_write fd buf nbytes s =
    (if nbytes \<noteq> 4 \<or> buf = NULL then (- 1, s)
     else rtc_set_freq (ld32 (mem s) buf) nbytes s)"

definition rtc_open :: "ptr \<Rightarrow> 'a rtc_scheme \<Rightarrow> int \<times> 'a rtc_scheme" where
  "rtc_open filename s =
    (let s = enable_irq 8 s;
         s = snd (rtc_set_freq 2 4 s);
         s = s\<lparr>clk := 0\<rparr>
     in (0, s))"

definition rtc_close :: "int \<Rightarrow> 'a rtc_scheme \<Rightarrow> int \<times> 'a rtc_scheme" where
  "rtc_close fd s = (0, s)"

definition rtc_init :: "'a rtc_scheme \<Rightarrow> 'a rtc_scheme" where
  "rtc_init s =
    (let s = cli s;
         s = outb (0x0B OR 0x80) RTC_PORT s;
         (v, s) = inb CMOS_PORT s;
         s = outb (ucast (0x40 OR v)) CMOS_PORT s;
         s = cli s;
         s = outb (0x80 OR 0x0A) RTC_PORT s;
         (v, s) = inb CMOS_PORT s;
         s = outb (ucast ((v AND 0xF0) OR 0x06)) CMOS_PORT s;
         s = snd (rtc_open NULL s)
     in enable_irq 8 s)"

text \<open>The interrupt handler. The division faults when the quotient above it is zero.\<close>

definition rtc_ack :: "'a rtc_scheme \<Rightarrow> 'a rtc_scheme" where
  "rtc_ack s =
    (let s = outb 0x0C RTC_PORT s;
         s = snd (inb CMOS_PORT s)
     in send_eoi 8 s)"

definition rtc_handler :: "'a rtc_scheme \<Rightarrow> fault + 'a rtc_scheme" where
  "rtc_handler s =
    (let s = cli s;
         s = s\<lparr>clk := (clk s + 1) smod MAX_FREQ\<rparr>
     in if virtual_freq s \<noteq> 0
        then if MAX_FREQ sdiv virtual_freq s = 0 then Inl Divide_Error
             else if clk s smod (MAX_FREQ sdiv virtual_freq s) = 0
             then Inr (rtc_ack (s\<lparr>IR_flag := 1\<rparr>))
             else Inr (rtc_ack s)
        else Inr (rtc_ack s))"

text \<open>
  The spinning reader; the number is that of the interrupts taken while it spins. The return from
  an interrupt restores the interrupt flag that the handler cleared.
\<close>

partial_function (option) rtc_wait :: "nat \<Rightarrow> 'a rtc_scheme \<Rightarrow> (fault + nat \<times> 'a rtc_scheme) option" where
  "rtc_wait n s =
    (if IR_flag s \<noteq> 0 then Some (Inr (n, s))
     else case rtc_handler s of
       Inl f \<Rightarrow> Some (Inl f)
     | Inr t \<Rightarrow> rtc_wait (n + 1) (t\<lparr>if_flag := if_flag s\<rparr>))"

definition rtc_read ::
  "int \<Rightarrow> ptr \<Rightarrow> int \<Rightarrow> 'a rtc_scheme \<Rightarrow> (fault + nat \<times> int \<times> 'a rtc_scheme) option" where
  "rtc_read fd buf nbytes s =
    Option.bind (rtc_wait 0 (sti s)) (\<lambda>r. case r of
        Inl f \<Rightarrow> Some (Inl f)
      | Inr (n, s) \<Rightarrow> Some (Inr (n, 0, s\<lparr>IR_flag := 0\<rparr>)))"

definition rtc_get_rate :: "'a rtc_scheme \<Rightarrow> u8 \<times> 'a rtc_scheme" where
  "rtc_get_rate s =
    (let s = cli s;
         s = outb (0x80 OR 0x0A) RTC_PORT s;
         (v, s) = inb CMOS_PORT s
     in (ucast (v AND NOT 0xF0), s))"

definition rtc_is_on :: "'a rtc_scheme \<Rightarrow> int \<times> 'a rtc_scheme" where
  "rtc_is_on s =
    (let s = cli s;
         s = outb (0x0B OR 0x80) RTC_PORT s;
         (v, s) = inb CMOS_PORT s
     in (if 0x40 AND v \<noteq> 0 then 1 else 0, s))"

fun read_ticks ::
  "nat \<Rightarrow> nat \<Rightarrow> 'a rtc_scheme \<Rightarrow> (fault + nat \<times> 'a rtc_scheme) option" where
  "read_ticks 0 n s = Some (Inr (n, s))"
| "read_ticks (Suc k) n s =
    Option.bind (rtc_read 0 NULL 0 s) (\<lambda>r. case r of
        Inl f \<Rightarrow> Some (Inl f)
      | Inr (i, _, s) \<Rightarrow> read_ticks k (n + i) s)"

definition wait_sync :: "u32 \<Rightarrow> 'a rtc_scheme \<Rightarrow> (fault + nat \<times> 'a rtc_scheme) option" where
  "wait_sync ms_delay s =
    (let s = snd (rtc_open NULL s);
         s = snd (rtc_set_freq 512 4 s);
         num_ticks = unat (ms_delay * 512 div 1000)
     in read_ticks num_ticks 0 s)"

definition pit_init :: "'a machine_scheme \<Rightarrow> 'a machine_scheme" where
  "pit_init s =
    (let divisor = of_nat (1193182 * 15 div 1000) :: u16;
         s = outb 0x36 0x43 s;
         s = outb (ucast (divisor AND 0xFF)) 0x40 s;
         s = outb (ucast (drop_bit 8 divisor AND 0xFF)) 0x40 s
     in enable_irq 0 s)"

section \<open>The frequency check\<close>

lemma and_pred_zero_iff: "n AND (n - 1) = 0 \<longleftrightarrow> n = 0 \<or> (\<exists>k. n = 2 ^ k)" for n :: nat
proof (induction n rule: less_induct)
  case (less n)
  show ?case
  proof (cases "n = 0")
    case False
    show ?thesis
    proof (cases "even n")
      case True
      then obtain m where m: "n = 2 * m" by blast
      with False have mp: "0 < m" "m < n" by auto
      have "(n - 1) div 2 = m - 1" "odd (n - 1)" using m mp by auto
      then have "n AND (n - 1) = 2 * (m AND (m - 1))"
        using m by (subst and_nat_rec) simp
      moreover have "(\<exists>k. n = 2 ^ k) \<longleftrightarrow> (\<exists>k. m = 2 ^ k)"
      proof
        assume "\<exists>k. n = 2 ^ k"
        then obtain k where k: "2 * m = 2 ^ k" using m by auto
        then obtain j where "k = Suc j" by (cases k) (auto dest: arg_cong[where f = even])
        with k show "\<exists>k. m = 2 ^ k" by auto
      next
        assume "\<exists>k. m = 2 ^ k"
        then show "\<exists>k. n = 2 ^ k" using m by (metis power_Suc)
      qed
      ultimately show ?thesis using less[OF mp(2)] mp False by simp
    next
      case False
      then obtain m where m: "n = 2 * m + 1" by (elim oddE)
      have "n AND (n - 1) = 2 * m" using m by (subst and_nat_rec) simp
      moreover have "(\<exists>k. n = 2 ^ k) \<longleftrightarrow> m = 0"
      proof
        assume "\<exists>k. n = 2 ^ k"
        then obtain k where "n = 2 ^ k" by blast
        with False have "k = 0" by (cases k) auto
        with \<open>n = 2 ^ k\<close> m show "m = 0" by simp
      qed (use m in \<open>auto intro: exI[of _ 0]\<close>)
      ultimately show ?thesis using m by simp
    qed
  qed simp
qed

lemma word_and_pred_zero_iff: "x AND (x - 1) = 0 \<longleftrightarrow> x = 0 \<or> (\<exists>k < 32. x = 2 ^ k)" for x :: u32
proof (cases "x = 0")
  case False
  have "unat (x - 1) = unat x - 1" using False by (simp add: unat_minus_one)
  then have "unat (x AND (x - 1)) = unat x AND (unat x - 1)"
    by (simp only: unsigned_and_eq)
  then have "x AND (x - 1) = 0 \<longleftrightarrow> unat x AND (unat x - 1) = 0"
    using unat_eq_0[of "x AND (x - 1)"] by (simp only:)
  also have "\<dots> \<longleftrightarrow> (\<exists>k. unat x = 2 ^ k)" using and_pred_zero_iff[of "unat x"] False by (simp add: unat_eq_0)
  also have "\<dots> \<longleftrightarrow> (\<exists>k < 32. x = 2 ^ k)"
  proof
    assume "\<exists>k. unat x = 2 ^ k"
    then obtain k where k: "unat x = 2 ^ k" by blast
    then have "(2 :: nat) ^ k < 2 ^ 32" using unat_lt32[of x] by simp
    then have "k < 32" using power_less_imp_less_exp[of "2 :: nat" k 32] by simp
    moreover have "x = 2 ^ k" using arg_cong[OF k, of "of_nat :: nat \<Rightarrow> u32"] by simp
    ultimately show "\<exists>k < 32. x = 2 ^ k" by blast
  next
    assume "\<exists>k < 32. x = 2 ^ k"
    then obtain k where k: "k < 32" "x = 2 ^ k" by blast
    then show "\<exists>k. unat x = 2 ^ k"
      using unat_of_nat32[of "2 ^ k"] power_strict_increasing[of k 32 "2 :: nat"] by auto
  qed
  finally show ?thesis using False by simp
qed simp

definition good_freq :: "int \<Rightarrow> bool" where
  "good_freq f \<longleftrightarrow> f = 0 \<or> (\<exists>k \<in> {1..10}. f = 2 ^ k)"

abbreviation (input) bad_freq :: u32 where "bad_freq \<equiv> 0x80000000"

lemma sint_pow2: "k < 31 \<Longrightarrow> sint (2 ^ k :: u32) = 2 ^ k"
  using sint_of_nat32[of "2 ^ k"] power_strict_increasing[of k 31 "2 :: nat"] by simp

lemma rtc_set_freq_eq:
  "rtc_set_freq f n s =
    (if good_freq (sint f) \<or> f = bad_freq then (n, s\<lparr>virtual_freq := sint f\<rparr>) else (- 1, s))"
proof -
  have inj: "f = g \<longleftrightarrow> sint f = sint g" for g by (auto dest: signed_word_eqI)
  have "good_freq (sint f) \<or> f = bad_freq"
    if acc: "sint f \<le> 1024" "f \<noteq> 1" "f AND (f - 1) = 0"
  proof (cases "f = 0")
    case False
    then obtain k where k: "k < 32" "f = 2 ^ k" using acc(3) word_and_pred_zero_iff by blast
    show ?thesis
    proof (cases "k = 31")
      case False
      then have s: "sint f = 2 ^ k" using k sint_pow2 by simp
      then have "(2 :: int) ^ k \<le> 2 ^ 10" using acc(1) by simp
      then have "k \<le> 10" by (simp only: power_increasing_iff)
      moreover have "k \<noteq> 0" using acc(2) k by (intro notI) simp
      ultimately show ?thesis using s by (auto simp: good_freq_def)
    qed (use k in simp)
  qed (simp add: good_freq_def)
  moreover have "sint f \<le> 1024 \<and> f \<noteq> 1 \<and> f AND (f - 1) = 0" if good: "good_freq (sint f)"
  proof (cases "sint f = 0")
    case False
    then obtain k where k: "k \<in> {1..10}" "sint f = 2 ^ k" using good by (auto simp: good_freq_def)
    then have f: "f = 2 ^ k" using inj sint_pow2[of k] by simp
    have "sint f \<le> 2 ^ 10" unfolding k(2) using k(1) by (intro power_increasing) auto
    moreover have "1 < sint f" unfolding k(2) using k(1) by (intro one_less_power) auto
    moreover have "f AND (f - 1) = 0" unfolding word_and_pred_zero_iff using f k(1)
      by (intro disjI2 exI[of _ k]) auto
    ultimately show ?thesis by auto
  qed (use inj[of 0] in auto)
  moreover have "sint f \<le> 1024 \<and> f \<noteq> 1 \<and> f AND (f - 1) = 0" if "f = bad_freq" using that by simp
  ultimately have iff: "(sint f \<le> 1024 \<and> f \<noteq> 1 \<and> f AND (f - 1) = 0) \<longleftrightarrow> good_freq (sint f) \<or> f = bad_freq"
    by blast
  show ?thesis unfolding iff[symmetric] by (auto simp: rtc_set_freq_def)
qed

text \<open>
  C37: \<open>rtc_write\<close> stores the frequency and returns the byte count 4 exactly for a four-byte buffer
  holding 0, a power of two from 2 to 1024, or the most negative integer, which its test for
  powers of two does not exclude; in every other case, the frequency 1 included, it returns -1 and
  changes nothing. The comment of the function and the driver test of the repository expect 0 on
  success instead of 4.
\<close>

theorem rtc_write_spec:
  "rtc_write fd buf nbytes s =
    (let f = ld32 (mem s) buf
     in if nbytes = 4 \<and> buf \<noteq> NULL \<and> (good_freq (sint f) \<or> f = 0x80000000)
        then (4, s\<lparr>virtual_freq := sint f\<rparr>) else (- 1, s))"
  by (simp add: rtc_write_def rtc_set_freq_eq Let_def)

section \<open>The virtual rate\<close>

text \<open>The driver's invariant, and the clock interrupt in the states that satisfy it.\<close>

definition rtc_ok :: "'a rtc_scheme \<Rightarrow> bool" where
  "rtc_ok s \<longleftrightarrow> 0 \<le> clk s \<and> clk s < 1024 \<and> good_freq (virtual_freq s)"

definition signals :: "int \<Rightarrow> int \<Rightarrow> bool" where
  "signals f c \<longleftrightarrow> f \<noteq> 0 \<and> c mod (1024 div f) = 0"

lemma good_freq_cases:
  assumes "good_freq f"
  obtains "f = 0" | "0 < f" "0 < 1024 div f" "1024 div f * f = 1024"
proof (cases "f = 0")
  case False
  then obtain k where k: "k \<in> {1..10}" "f = 2 ^ k" using assms by (auto simp: good_freq_def)
  have "(1024 :: int) = 2 ^ (10 - k) * 2 ^ k" using k(1) by (simp flip: power_add)
  with k(2) that(2) show thesis by simp
qed (use that in blast)

lemma rtc_ack_frame [simp]:
  "clk (rtc_ack s) = clk s" "virtual_freq (rtc_ack s) = virtual_freq s" "IR_flag (rtc_ack s) = IR_flag s"
  "mem (rtc_ack s) = mem s"
  by (simp_all add: rtc_ack_def send_eoi_def outb_def inb_def Let_def)

lemma rtc_handler_eq:
  assumes "rtc_ok s"
  obtains t where "rtc_handler s = Inr t" "clk t = (clk s + 1) mod 1024"
    "virtual_freq t = virtual_freq s" "mem t = mem s"
    "IR_flag t = (if signals (virtual_freq s) (clk t) then 1 else IR_flag s)" "rtc_ok t"
proof -
  let ?c = "(clk s + 1) mod 1024"
  let ?s = "(cli s)\<lparr>clk := ?c\<rparr>"
  let ?t = "rtc_ack (if signals (virtual_freq s) ?c then ?s\<lparr>IR_flag := 1\<rparr> else ?s)"
  have b: "0 \<le> clk s + 1" "good_freq (virtual_freq s)" using assms by (auto simp: rtc_ok_def)
  have "rtc_handler s = Inr ?t"
    using b(1) by (cases rule: good_freq_cases[OF b(2)])
      (auto simp: rtc_handler_def cli_def signals_def Let_def)
  then show thesis
    using assms by (intro that[of ?t]) (auto simp: rtc_ok_def cli_def)
qed

text \<open>The state after a number of clock interrupts.\<close>

primrec ticks :: "nat \<Rightarrow> 'a rtc_scheme \<Rightarrow> fault + 'a rtc_scheme" where
  "ticks 0 s = Inr s"
| "ticks (Suc n) s = (case ticks n s of Inl f \<Rightarrow> Inl f | Inr t \<Rightarrow> rtc_handler t)"

lemma ticks_eq:
  assumes "rtc_ok s"
  shows "\<exists>t. ticks n s = Inr t \<and> clk t = (clk s + int n) mod 1024 \<and>
    virtual_freq t = virtual_freq s \<and> rtc_ok t"
proof (induction n)
  case 0
  then show ?case using assms by (auto simp: rtc_ok_def)
next
  case (Suc n)
  then obtain t where t: "ticks n s = Inr t" "clk t = (clk s + int n) mod 1024"
    "virtual_freq t = virtual_freq s" "rtc_ok t" by blast
  obtain u where u: "rtc_handler t = Inr u" "clk u = (clk t + 1) mod 1024"
    "virtual_freq u = virtual_freq t" "rtc_ok u"
    by (rule rtc_handler_eq[OF t(4)]) blast
  have "clk u = (clk s + int (Suc n)) mod 1024"
    unfolding u(2) t(2) by (simp add: mod_simps algebra_simps)
  with t u show ?case by auto
qed

text \<open>Whether the interrupt after \<open>n\<close> others signals the readers.\<close>

definition signalled :: "'a rtc_scheme \<Rightarrow> nat \<Rightarrow> bool" where
  "signalled s n \<longleftrightarrow> (case ticks n s of Inl f \<Rightarrow> False
    | Inr t \<Rightarrow> (case rtc_handler (t\<lparr>IR_flag := 0\<rparr>) of Inl f \<Rightarrow> False | Inr u \<Rightarrow> IR_flag u = 1))"

lemma signalled_iff:
  assumes "rtc_ok s"
  shows "signalled s n \<longleftrightarrow> signals (virtual_freq s) ((clk s + 1 + int n) mod 1024)"
proof -
  obtain t where t: "ticks n s = Inr t" "clk t = (clk s + int n) mod 1024"
    "virtual_freq t = virtual_freq s" "rtc_ok t" using ticks_eq[OF assms] by blast
  have "rtc_ok (t\<lparr>IR_flag := 0\<rparr>)" using t(4) by (simp add: rtc_ok_def)
  then obtain u where "rtc_handler (t\<lparr>IR_flag := 0\<rparr>) = Inr u" "clk u = (clk t + 1) mod 1024"
    "IR_flag u = (if signals (virtual_freq t) (clk u) then 1 else 0)"
    by (rule rtc_handler_eq) simp
  moreover have "(clk t + 1) mod 1024 = (clk s + 1 + int n) mod 1024"
    unfolding t(2) by (simp add: mod_simps algebra_simps)
  ultimately show ?thesis using t by (simp add: signalled_def)
qed

lemma card_multiples:
  fixes p f :: nat
  assumes "p * f = N" "0 < p"
  shows "card {x. x < N \<and> p dvd x} = f"
proof -
  have "{x. x < N \<and> p dvd x} = (\<lambda>i. p * i) ` {..<f}"
    using assms by (auto simp: image_iff elim!: dvdE)
  moreover have "inj_on (\<lambda>i. p * i) {..<f}" using assms(2) by (simp add: inj_on_def)
  ultimately show ?thesis by (simp add: card_image)
qed

lemma rotate_residues:
  fixes c N :: nat
  assumes "0 < N"
  shows "bij_betw (\<lambda>i. (c + i) mod N) {..<N} {..<N}"
proof -
  have le: "i = j" if "i < N" "j < N" "(c + i) mod N = (c + j) mod N" "i \<le> j" for i j
  proof -
    have "N dvd (c + j) - (c + i)" using that by (intro iffD1[OF mod_eq_dvd_iff_nat]) auto
    then have "N dvd j - i" by simp
    with that(2,4) show ?thesis by (auto dest!: dvd_imp_le)
  qed
  have "inj_on (\<lambda>i. (c + i) mod N) {..<N}"
    using le by (intro inj_onI) (metis lessThan_iff nle_le)
  moreover have "(\<lambda>i. (c + i) mod N) ` {..<N} \<subseteq> {..<N}" using assms by auto
  ultimately show ?thesis by (simp add: bij_betw_def endo_inj_surj)
qed

text \<open>
  C18: the virtual rate. From any state of the driver with a frequency \<open>f\<close> it accepts (other than
  0), exactly \<open>f\<close> of any 1024 consecutive clock interrupts, that is of one second, signal the
  readers; at frequency 0 none does.
\<close>

theorem rtc_virtual_rate:
  assumes "rtc_ok s"
  shows "card {n. n < 1024 \<and> signalled s n} = nat (virtual_freq s)"
proof -
  have good: "good_freq (virtual_freq s)" using assms by (simp add: rtc_ok_def)
  show ?thesis
  proof (cases rule: good_freq_cases[OF good])
    case 1
    then show ?thesis using signalled_iff[OF assms] by (simp add: signals_def)
  next
    case 2
    define p f c where "p = nat (1024 div virtual_freq s)" and "f = nat (virtual_freq s)"
      and "c = nat (clk s + 1)"
    have pf: "p * f = 1024" "0 < p" "int p = 1024 div virtual_freq s" "int c = clk s + 1"
      using 2 assms by (auto simp: p_def f_def c_def rtc_ok_def simp flip: nat_mult_distrib)
    have sig: "signalled s n \<longleftrightarrow> p dvd (c + n) mod 1024" for n
    proof -
      have "signalled s n \<longleftrightarrow> int ((c + n) mod 1024) mod int p = 0"
        using 2(1) pf(3,4) by (simp add: signalled_iff[OF assms] signals_def zmod_int)
      then show ?thesis by (simp add: dvd_eq_mod_eq_0 flip: zmod_int)
    qed
    let ?g = "\<lambda>n. (c + n) mod 1024"
    have bij: "bij_betw ?g {..<1024} {..<1024}" by (rule rotate_residues) simp
    then have "bij_betw ?g {n \<in> {..<1024}. signalled s n} {x \<in> {..<1024}. p dvd x}"
      using sig by (intro bij_betw_Collect) auto
    then have "card {n. n < 1024 \<and> signalled s n} = card {x. x < 1024 \<and> p dvd x}"
      using bij_betw_same_card by fastforce
    then show ?thesis using card_multiples[OF pf(1,2)] by (simp add: f_def)
  qed
qed

section \<open>Readers\<close>

definition next_signal :: "'a rtc_scheme \<Rightarrow> nat" where
  "next_signal s =
    (if IR_flag s \<noteq> 0 then 0
     else let p = 1024 div virtual_freq s in nat (p - clk s mod p))"

lemma rtc_wait_eq:
  assumes "rtc_ok s" "virtual_freq s \<noteq> 0"
  shows "\<exists>t. rtc_wait n s = Some (Inr (n + next_signal s, t)) \<and> IR_flag t \<noteq> 0 \<and>
    clk t = (clk s + int (next_signal s)) mod 1024 \<and>
    virtual_freq t = virtual_freq s \<and> mem t = mem s \<and> rtc_ok t"
  using assms
proof (induction "next_signal s" arbitrary: s n)
  case 0
  let ?p = "1024 div virtual_freq s"
  have pp: "0 < ?p" using 0 by (auto simp: rtc_ok_def elim: good_freq_cases)
  have "0 < nat (?p - clk s mod ?p)" using pos_mod_bound[OF pp, of "clk s"] by linarith
  then have "IR_flag s \<noteq> 0" using 0(1) by (metis next_signal_def less_irrefl)
  with 0 show ?case by (subst rtc_wait.simps) (auto simp: next_signal_def rtc_ok_def)
next
  case (Suc k)
  define p where "p = 1024 div virtual_freq s"
  have p: "0 < p" "p * virtual_freq s = 1024"
    using Suc.prems by (auto simp: p_def rtc_ok_def elim: good_freq_cases)
  then have pd: "p dvd 1024" by (metis dvd_triv_left)
  have fl: "IR_flag s = 0" and k: "int (Suc k) = p - clk s mod p"
    using Suc.hyps(2) p by (auto simp: next_signal_def Let_def p_def split: if_splits)
  obtain h where h: "rtc_handler s = Inr h" "clk h = (clk s + 1) mod 1024"
    "virtual_freq h = virtual_freq s" "mem h = mem s"
    "IR_flag h = (if signals (virtual_freq s) (clk h) then 1 else IR_flag s)" "rtc_ok h"
    by (rule rtc_handler_eq[OF Suc.prems(1)])
  define t where "t = h\<lparr>if_flag := if_flag s\<rparr>"
  have t: "rtc_handler s = Inr h" "clk t = (clk s + 1) mod 1024"
    "virtual_freq t = virtual_freq s" "mem t = mem s"
    "IR_flag t = (if signals (virtual_freq s) (clk t) then 1 else IR_flag s)" "rtc_ok t"
    using h by (simp_all add: t_def rtc_ok_def)
  have cm: "clk t mod p = (clk s + 1) mod p" unfolding t(2) using pd by (rule mod_mod_cancel)
  have "clk s mod p + 1 = p - int k" and kp: "int k < p"
    using k pos_mod_sign[OF p(1), of "clk s"] by auto
  then have "clk t mod p = (p - int k) mod p" unfolding cm by (metis mod_add_left_eq)
  moreover have "(p - int k) mod p = p - int k" if "k \<noteq> 0"
    using that kp by (intro mod_pos_pos_trivial) linarith+
  ultimately have ck: "clk t mod p = (if k = 0 then 0 else p - int k)" by auto
  then have sg: "signals (virtual_freq s) (clk t) \<longleftrightarrow> k = 0"
    using Suc.prems(2) kp by (simp add: signals_def p_def)
  then have "k = next_signal t"
    using t(3,5) fl ck by (simp add: next_signal_def p_def Let_def)
  then obtain u where "rtc_wait (n + 1) t = Some (Inr (n + 1 + k, u))" "IR_flag u \<noteq> 0"
    "clk u = (clk t + int k) mod 1024" "virtual_freq u = virtual_freq t" "mem u = mem t" "rtc_ok u"
    using Suc.hyps(1)[of t "n + 1"] t Suc.prems(2) by auto
  moreover have "(clk t + int k) mod 1024 = (clk s + int (Suc k)) mod 1024"
    unfolding t(2) by (simp add: mod_simps algebra_simps)
  ultimately show ?case
    using fl t Suc.hyps(2) by (subst rtc_wait.simps) (auto simp: t_def)
qed

text \<open>At frequency 0 nothing ever signals the reader.\<close>

lemma rtc_wait_hangs:
  assumes "rtc_wait n s = Some r"
  shows "\<not> (rtc_ok s \<and> virtual_freq s = 0 \<and> IR_flag s = 0)"
proof (rule rtc_wait.raw_induct[OF _ assms])
  fix wait n and s :: "'a rtc_scheme" and r
  assume IH: "\<And>n s r. wait n s = Some r \<Longrightarrow> \<not> (rtc_ok s \<and> virtual_freq s = 0 \<and> IR_flag s = 0)"
    and step: "(if IR_flag s \<noteq> 0 then Some (Inr (n, s))
      else case rtc_handler s of Inl f \<Rightarrow> Some (Inl f) | Inr t \<Rightarrow> wait (n + 1) (t\<lparr>if_flag := if_flag s\<rparr>)) = Some r"
  show "\<not> (rtc_ok s \<and> virtual_freq s = 0 \<and> IR_flag s = 0)"
  proof
    assume h: "rtc_ok s \<and> virtual_freq s = 0 \<and> IR_flag s = 0"
    then obtain t where "rtc_handler s = Inr t" "virtual_freq t = virtual_freq s"
      "IR_flag t = (if signals (virtual_freq s) (clk t) then 1 else IR_flag s)" "rtc_ok t"
      by (auto elim: rtc_handler_eq)
    with h step IH[of "n + 1" "t\<lparr>if_flag := if_flag s\<rparr>" r] show False by (simp add: signals_def rtc_ok_def)
  qed
qed

lemma sti_frame [simp]:
  "rtc_ok (sti s) = rtc_ok s" "next_signal (sti s) = next_signal s"
  "virtual_freq (sti s) = virtual_freq s" "clk (sti s) = clk s" "IR_flag (sti s) = IR_flag s"
  by (simp_all add: sti_def rtc_ok_def next_signal_def)

lemma rtc_read_eq:
  assumes "rtc_ok s" "virtual_freq s \<noteq> 0"
  shows "\<exists>t. rtc_read fd buf nbytes s = Some (Inr (next_signal s, 0, t)) \<and> IR_flag t = 0 \<and>
    clk t = (clk s + int (next_signal s)) mod 1024 \<and>
    virtual_freq t = virtual_freq s \<and> mem t = mem s \<and> rtc_ok t"
  using rtc_wait_eq[of "sti s" 0] assms by (auto simp: rtc_read_def rtc_ok_def)

lemma next_signal_bound:
  "rtc_ok s \<Longrightarrow> virtual_freq s \<noteq> 0 \<Longrightarrow> int (next_signal s) \<le> 1024 div virtual_freq s"
  by (auto simp: next_signal_def rtc_ok_def Let_def elim: good_freq_cases)

text \<open>
  C17: reading the clock. In every state of the driver with a nonzero frequency \<open>f\<close>, \<open>rtc_read\<close>
  returns 0, at once if a signal is pending and otherwise at the next multiple of the period,
  within \<open>1024 / f\<close> clock interrupts; it leaves the flag clear. At frequency 0, which \<open>rtc_write\<close>
  accepts, it returns at once if a signal is pending and otherwise never.
\<close>

theorem rtc_read_returns:
  assumes "rtc_ok s"
  shows "if virtual_freq s \<noteq> 0
    then \<exists>n t. rtc_read fd buf nbytes s = Some (Inr (n, 0, t)) \<and>
      int n \<le> 1024 div virtual_freq s \<and> IR_flag t = 0 \<and> rtc_ok t \<and> mem t = mem s \<and>
      (IR_flag s \<noteq> 0 \<longrightarrow> n = 0) \<and> (IR_flag s = 0 \<longrightarrow> clk t mod (1024 div virtual_freq s) = 0)
    else rtc_read fd buf nbytes s = (if IR_flag s = 0 then None else Some (Inr (0, 0, (sti s)\<lparr>IR_flag := 0\<rparr>)))"
proof (cases "virtual_freq s = 0")
  case True
  show ?thesis
  proof (cases "IR_flag s = 0")
    case clear: True
    then have "rtc_wait 0 (sti s) = None"
      using rtc_wait_hangs[of 0 "sti s"] assms True by (cases "rtc_wait 0 (sti s)") auto
    with clear True show ?thesis by (simp add: rtc_read_def)
  next
    case False
    then have "rtc_wait 0 (sti s) = Some (Inr (0, sti s))" by (subst rtc_wait.simps) simp
    with False True show ?thesis by (simp add: rtc_read_def)
  qed
next
  case False
  let ?p = "1024 div virtual_freq s"
  obtain t where t: "rtc_read fd buf nbytes s = Some (Inr (next_signal s, 0, t))" "IR_flag t = 0"
    "clk t = (clk s + int (next_signal s)) mod 1024" "mem t = mem s" "rtc_ok t"
    using rtc_read_eq[OF assms False] by blast
  have p: "0 < ?p" "?p dvd 1024"
    using assms False by (auto simp: rtc_ok_def elim!: good_freq_cases) (metis dvd_triv_left)
  have "clk t mod ?p = 0" if "IR_flag s = 0"
  proof -
    have "int (next_signal s) = ?p - clk s mod ?p"
      using that pos_mod_bound[OF p(1), of "clk s"] by (simp add: next_signal_def Let_def)
    then have "clk t mod ?p = (clk s + (?p - clk s mod ?p)) mod ?p"
      unfolding t(3) using p(2) by (simp add: mod_mod_cancel)
    also have "\<dots> = 0" by (simp add: mod_simps algebra_simps)
    finally show ?thesis .
  qed
  with t next_signal_bound[OF assms False] False show ?thesis
    by (auto simp: next_signal_def)
qed

section \<open>The driver as a state machine\<close>

text \<open>
  Everything that can happen to the driver's variables after \<open>rtc_init\<close>: clock interrupts, the
  system calls of any process in any order, and other code, which does not touch them. The only
  excluded event is a write of the most negative frequency.
\<close>

inductive rtc_step :: "'a rtc_scheme \<Rightarrow> 'a rtc_scheme \<Rightarrow> bool" where
  tick: "rtc_handler s = Inr t \<Longrightarrow> rtc_step s t"
| rd: "rtc_read fd buf nbytes s = Some (Inr (n, r, t)) \<Longrightarrow> rtc_step s t"
| wr: "rtc_write fd buf nbytes s = (r, t) \<Longrightarrow> ld32 (mem s) buf \<noteq> bad_freq \<Longrightarrow> rtc_step s t"
| op: "rtc_open filename s = (r, t) \<Longrightarrow> rtc_step s t"
| cl: "rtc_close fd s = (r, t) \<Longrightarrow> rtc_step s t"
| other: "clk t = clk s \<Longrightarrow> virtual_freq t = virtual_freq s \<Longrightarrow> rtc_step s t"

inductive_cases rtc_stepE: "rtc_step s t"

definition rtc_booted :: "'a rtc_scheme \<Rightarrow> bool" where
  "rtc_booted s \<longleftrightarrow> (\<exists>s0. s = rtc_init s0)"

lemma enable_irq_rtc [simp]:
  "clk (enable_irq n s) = clk s" "virtual_freq (enable_irq n s) = virtual_freq s"
  "IR_flag (enable_irq n s) = IR_flag s"
  by (simp_all add: enable_irq_def clear_port_bit_def outb_def inb_def Let_def)

lemma rtc_open_vars:
  "fst (rtc_open f s) = 0" "clk (snd (rtc_open f s)) = 0" "virtual_freq (snd (rtc_open f s)) = 2"
  "IR_flag (snd (rtc_open f s)) = IR_flag s"
  by (simp_all add: rtc_open_def rtc_set_freq_eq good_freq_def Let_def exI[of _ 1] bexI[of _ 1])

lemma good_freq_values: "good_freq 2" "good_freq 512"
  by (auto simp: good_freq_def intro: bexI[of _ 1] bexI[of _ 9])

lemma rtc_open_ok: "rtc_ok (snd (rtc_open f s))"
  by (simp add: rtc_ok_def rtc_open_vars good_freq_values)

lemma rtc_read_ok:
  assumes "rtc_ok s" "rtc_read fd buf nbytes s = Some (Inr (n, r, t))"
  shows "rtc_ok t"
proof (cases "virtual_freq s = 0")
  case False
  then show ?thesis using rtc_read_eq[OF assms(1) False, of fd buf nbytes] assms(2) by auto
next
  case True
  then have "IR_flag s \<noteq> 0"
    using rtc_wait_hangs[of 0 "sti s"] assms by (auto simp: rtc_read_def bind_eq_Some_conv)
  then have "t = (sti s)\<lparr>IR_flag := 0\<rparr>"
    using assms(2) by (simp add: rtc_read_def rtc_wait.simps)
  with assms(1) show ?thesis by (simp add: rtc_ok_def)
qed

lemma rtc_step_ok: "rtc_ok s \<Longrightarrow> rtc_step s t \<Longrightarrow> rtc_ok t"
proof (erule rtc_stepE)
  assume "rtc_ok s" "rtc_handler s = Inr t"
  then show "rtc_ok t" by (metis rtc_handler_eq sum.inject(2))
next
  fix fd buf nbytes r
  assume "rtc_ok s" "rtc_write fd buf nbytes s = (r, t)" "ld32 (mem s) buf \<noteq> bad_freq"
  then show "rtc_ok t" by (auto simp: rtc_write_def rtc_set_freq_eq rtc_ok_def split: if_splits)
next
  fix f r assume "rtc_open f s = (r, t)"
  then show "rtc_ok t" using rtc_open_ok[of f s] by simp
next
  fix fd buf nbytes n r
  assume "rtc_ok s" "rtc_read fd buf nbytes s = Some (Inr (n, r, t))"
  then show "rtc_ok t" by (rule rtc_read_ok)
qed (simp_all add: rtc_close_def rtc_ok_def)

lemma rtc_booted_ok: "rtc_booted s \<Longrightarrow> rtc_ok s"
  by (auto simp: rtc_booted_def rtc_init_def split_beta Let_def rtc_ok_def rtc_open_vars good_freq_values)

interpretation rtc: step_invariant rtc_booted rtc_step rtc_ok
  by unfold_locales (fact rtc_booted_ok, fact rtc_step_ok)

text \<open>
  C16: safety of the interrupt handler. In every state reachable from \<open>rtc_init\<close> by clock
  interrupts and system calls in any order, as long as nobody writes the most negative
  frequency, the driver's invariant holds and the handler completes without a division fault.
\<close>

theorem rtc_handler_safe:
  fixes s :: "'a rtc_scheme"
  assumes "reachable rtc_booted rtc_step s"
  shows "rtc_ok s \<and> (\<exists>t. rtc_handler s = Inr t)"
proof -
  have "rtc_ok s" by (rule rtc.reachable_inv[OF assms])
  then show ?thesis by (metis rtc_handler_eq)
qed

text \<open>
  C38: the write that the check lets through. \<open>rtc_write\<close> of the most negative integer reports
  success, and the next clock interrupt divides by zero inside the kernel.
\<close>

theorem rtc_bad_freq_faults:
  assumes "ld32 (mem s) buf = 0x80000000" "buf \<noteq> NULL"
  shows "fst (rtc_write fd buf 4 s) = 4 \<and> rtc_handler (snd (rtc_write fd buf 4 s)) = Inl Divide_Error"
  using assms
  by (simp add: rtc_write_def rtc_set_freq_eq rtc_handler_def cli_def signed_divide_int_def Let_def)

section \<open>Waiting\<close>

definition in_phase :: "'a rtc_scheme \<Rightarrow> bool" where
  "in_phase s \<longleftrightarrow> rtc_ok s \<and> virtual_freq s \<noteq> 0 \<and> clk s mod (1024 div virtual_freq s) = 0"

lemma rtc_read_in_phase:
  assumes "in_phase s"
  shows "\<exists>t. rtc_read fd buf nbytes s =
      Some (Inr (if IR_flag s = 0 then nat (1024 div virtual_freq s) else 0, 0, t)) \<and>
    in_phase t \<and> IR_flag t = 0 \<and> virtual_freq t = virtual_freq s"
proof -
  let ?p = "1024 div virtual_freq s"
  have ok: "rtc_ok s" "virtual_freq s \<noteq> 0" "clk s mod ?p = 0" using assms by (simp_all add: in_phase_def)
  have p: "0 < ?p" "?p dvd 1024"
    using ok by (auto simp: rtc_ok_def elim!: good_freq_cases) (metis dvd_triv_left)
  have n: "next_signal s = (if IR_flag s = 0 then nat ?p else 0)"
    using ok by (simp add: next_signal_def Let_def)
  obtain t where t: "rtc_read fd buf nbytes s = Some (Inr (next_signal s, 0, t))" "IR_flag t = 0"
    "clk t = (clk s + int (next_signal s)) mod 1024" "virtual_freq t = virtual_freq s" "rtc_ok t"
    using rtc_read_eq[OF ok(1,2)] by blast
  have "clk t mod ?p = (clk s + int (next_signal s)) mod ?p"
    unfolding t(3) using p(2) by (rule mod_mod_cancel)
  also have "\<dots> = 0" using ok(3) p(1) n by auto
  finally show ?thesis using t ok n by (auto simp: in_phase_def)
qed

lemma read_ticks_in_phase:
  assumes "in_phase s"
  shows "\<exists>t. read_ticks k n s =
      Some (Inr (n + (if IR_flag s = 0 then k else k - 1) * nat (1024 div virtual_freq s), t)) \<and> in_phase t"
  using assms
proof (induction k arbitrary: n s)
  case (Suc k)
  obtain t where t: "rtc_read 0 NULL 0 s =
      Some (Inr (if IR_flag s = 0 then nat (1024 div virtual_freq s) else 0, 0, t))"
    "in_phase t" "IR_flag t = 0" "virtual_freq t = virtual_freq s"
    using rtc_read_in_phase[OF Suc.prems] by blast
  show ?case
    using t(1) t(3,4) Suc.IH[OF t(2), of "n + (if IR_flag s = 0 then nat (1024 div virtual_freq s) else 0)"]
    by auto
qed auto

text \<open>
  C39: \<open>wait_sync\<close> terminates without a fault from every state, after exactly two interrupts of the
  1024 Hz clock for each of its \<open>ms * 512 / 1000\<close> ticks, the product taken modulo \<open>2 ^ 32\<close>; a
  signal left over from before, which opening the device does not clear, costs it one tick.
\<close>

theorem wait_sync_duration:
  "\<exists>t. wait_sync ms s =
    (let n = (unat ms * 512 mod 2 ^ 32) div 1000
     in Some (Inr (2 * (if IR_flag s = 0 then n else n - 1), t)))"
proof -
  let ?s = "snd (rtc_set_freq 512 4 (snd (rtc_open NULL s)))"
  have "in_phase ?s" "virtual_freq ?s = 512" "IR_flag ?s = IR_flag s"
    by (simp_all add: rtc_set_freq_eq good_freq_values in_phase_def rtc_ok_def rtc_open_vars)
  moreover have "unat (ms * 512 div 1000) = (unat ms * 512 mod 2 ^ 32) div 1000"
    by (simp add: unat_div unat_word_ariths)
  ultimately show ?thesis
    using read_ticks_in_phase[of ?s "unat (ms * 512 div 1000)" 0]
    by (auto simp: wait_sync_def Let_def mult.commute)
qed

section \<open>Witnesses\<close>

definition demo_rtc :: rtc where
  "demo_rtc = rtc_init (console.extend demo_console (rtc.fields 0 0 0))"

lemma demo_rtc_ok: "rtc_ok demo_rtc" "virtual_freq demo_rtc = 2" "clk demo_rtc = 0"
  by (simp_all add: demo_rtc_def rtc_init_def rtc_ok_def rtc_open_vars good_freq_values split_beta Let_def)

theorem rtc_virtual_rate_witness: "card {n. n < 1024 \<and> signalled demo_rtc n} = 2"
  using rtc_virtual_rate[OF demo_rtc_ok(1)] demo_rtc_ok by simp

theorem rtc_read_returns_witness:
  "\<exists>n t. rtc_read 0 NULL 0 demo_rtc = Some (Inr (n, 0, t)) \<and> n \<le> 512 \<and> IR_flag t = 0"
  using rtc_read_returns[OF demo_rtc_ok(1), of 0 NULL 0] demo_rtc_ok by auto

theorem rtc_handler_safe_witness:
  "reachable rtc_booted rtc_step demo_rtc \<and> (\<exists>t. rtc_handler demo_rtc = Inr t)"
proof -
  have "reachable rtc_booted rtc_step demo_rtc"
    by (rule reachable.start) (auto simp: rtc_booted_def demo_rtc_def)
  with rtc_handler_safe[OF this] show ?thesis by blast
qed

theorem rtc_bad_freq_faults_witness:
  "fst (rtc_write 2 4096 4 (demo_rtc\<lparr>mem := st32 (\<lambda>_. 0) 4096 0x80000000\<rparr>)) = 4"
  using rtc_bad_freq_faults[of "demo_rtc\<lparr>mem := st32 (\<lambda>_. 0) 4096 0x80000000\<rparr>" 4096 2] by simp

end
