(* ===== verification/Paging.thy ===== *)
theory Paging
  imports Rtc
begin

text \<open>
  Virtual memory: \<^verbatim>\<open>student-distrib/paging.c\<close> with the bit fields of the page directory and
  page table entries of \<^verbatim>\<open>student-distrib/x86_desc.h\<close>. The two tables are lists of words;
  their link addresses are fields of the state, and the control registers too. The translation
  that the processor performs on the tables is \<open>walk\<close>, from the documentation of the processor:
  it gives the physical address and whether the page is writable and open to user code.

  The theorems: what \<open>map_v_p\<close> accepts; that a mapping is what the processor then translates to,
  for both page sizes, and that nothing else changes; the address space after \<open>init_paging\<close>. The
  locale \<open>page_mapper\<close> states the contract the kernel's clients rely on, and is interpreted for
  the 4 KB and the 4 MB pages.
\<close>

section \<open>State\<close>

record paging = rtc +
  page_dir :: "u32 list"
  page_table :: "u32 list"
  page_dir_addr :: ptr
  page_table_addr :: ptr
  cr0 :: u32
  cr3 :: u32
  cr4 :: u32

text \<open>Assignment to a bit field of \<open>n\<close> bits starting at bit \<open>lo\<close>.\<close>

definition set_field :: "nat \<Rightarrow> nat \<Rightarrow> u32 \<Rightarrow> u32 \<Rightarrow> u32" where
  "set_field lo n v w = (w AND NOT (push_bit lo (mask n))) OR push_bit lo (take_bit n v)"

definition set_present :: "u32 \<Rightarrow> u32 \<Rightarrow> u32" where
  "set_present = set_field 0 1"

definition set_read_write :: "u32 \<Rightarrow> u32 \<Rightarrow> u32" where
  "set_read_write = set_field 1 1"

definition set_user_supervisor :: "u32 \<Rightarrow> u32 \<Rightarrow> u32" where
  "set_user_supervisor = set_field 2 1"

definition set_page_size :: "u32 \<Rightarrow> u32 \<Rightarrow> u32" where
  "set_page_size = set_field 7 1"

text \<open>The fields that the two entry types share: \<^verbatim>\<open>write_through\<close> to \<^verbatim>\<open>dirty\<close>.\<close>

definition clear_status :: "u32 \<Rightarrow> u32" where
  "clear_status w = set_field 6 1 0 (set_field 5 1 0 (set_field 4 1 0 (set_field 3 1 0 w)))"

section \<open>Operations\<close>

definition pde_pte_init :: "u32 \<Rightarrow> u32" where
  "pde_pte_init w =
    (let w = set_user_supervisor 1 (set_read_write 0 (set_present 0 w));
         w = set_field 5 1 0 (set_field 4 1 0 (set_field 3 1 0 w));
         w = set_field 8 4 0 (set_page_size 0 (set_field 6 1 0 w))
     in set_field 12 20 0 w)"

definition pte_4kb_init :: "u32 \<Rightarrow> u32" where
  "pte_4kb_init w =
    (let w = set_user_supervisor 1 (set_read_write 0 (set_present 0 w));
         w = clear_status w;
         w = set_field 9 3 0 (set_field 8 1 0 (set_field 7 1 0 w))
     in set_field 12 20 0 w)"

definition flush_tlb :: "'a paging_scheme \<Rightarrow> 'a paging_scheme" where
  "flush_tlb s = s\<lparr>cr3 := cr3 s\<rparr>"

definition map_pde_table :: "u32 \<Rightarrow> u32 \<Rightarrow> u32" where
  "map_pde_table table w =
    (let w = set_page_size 0 w;
         w = set_present 1 w;
         w = set_read_write 1 w;
         w = set_user_supervisor 1 w
     in set_field 12 20 (drop_bit 12 table) w)"

definition map_pte_4kb :: "u32 \<Rightarrow> u32 \<Rightarrow> u32 \<Rightarrow> u32 \<Rightarrow> u32" where
  "map_pte_4kb physical_addr read_write user_supervisor w =
    (if physical_addr = 0
     then set_user_supervisor user_supervisor (set_read_write read_write (set_present 0 w))
     else let w = set_user_supervisor user_supervisor (set_read_write read_write (set_present 1 w));
              w = clear_status w;
              w = set_field 9 3 0 (set_field 8 1 0 (set_field 7 1 0 w))
          in set_field 12 20 (drop_bit 12 physical_addr) w)"

definition map_pde_4mb :: "u32 \<Rightarrow> u32 \<Rightarrow> u32 \<Rightarrow> u32 \<Rightarrow> u32" where
  "map_pde_4mb physical_addr read_write user_supervisor w =
    (let w = set_page_size 1 w
     in if physical_addr = 0
        then set_user_supervisor user_supervisor (set_read_write read_write (set_present 0 w))
        else let w = set_user_supervisor user_supervisor (set_read_write read_write (set_present 1 w));
                 w = set_page_size 1 (clear_status w);
                 w = set_field 9 3 1 (set_field 8 1 0 w);
                 w = set_field 21 1 0 (set_field 13 8 0 (set_field 12 1 0 w))
             in set_field 22 10 (drop_bit 22 physical_addr) w)"

definition map_v_p ::
  "u32 \<Rightarrow> u32 \<Rightarrow> u32 \<Rightarrow> u32 \<Rightarrow> u32 \<Rightarrow> 'a paging_scheme \<Rightarrow> u32 \<times> 'a paging_scheme" where
  "map_v_p virtual_addr physical_addr kb_or_mb read_write user_supervisor s =
    (if kb_or_mb \<noteq> 0 \<and> kb_or_mb \<noteq> 1 then (- 1, s)
     else if virtual_addr = 0 then (- 1, s)
     else if (virtual_addr OR physical_addr) AND (if kb_or_mb = 0 then 0xFFF else 0x3FFF) \<noteq> 0
     then (- 1, s)
     else if kb_or_mb = 0 \<and> virtual_addr \<ge> 0x400000 then (- 1, s)
     else let d = unat (drop_bit 22 virtual_addr)
          in if kb_or_mb = 0
             then let t = unat (drop_bit 12 virtual_addr AND 0x3FF);
                      s = s\<lparr>page_dir := (page_dir s)
                             [d := map_pde_table (page_table_addr s) (page_dir s ! d)]\<rparr>;
                      s = s\<lparr>page_table := (page_table s)
                             [t := map_pte_4kb physical_addr read_write user_supervisor (page_table s ! t)]\<rparr>
                  in (0, flush_tlb s)
             else let s = s\<lparr>page_dir := (page_dir s)
                             [d := map_pde_4mb physical_addr read_write user_supervisor (page_dir s ! d)]\<rparr>
                  in (0, flush_tlb s))"

definition enable_paging :: "'a paging_scheme \<Rightarrow> 'a paging_scheme" where
  "enable_paging s =
    s\<lparr>cr3 := page_dir_addr s AND 0xFFFFF000, cr4 := cr4 s OR 0x10, cr0 := cr0 s OR 0x80000001\<rparr>"

definition disable_paging :: "'a paging_scheme \<Rightarrow> 'a paging_scheme" where
  "disable_paging s = s\<lparr>cr0 := cr0 s AND 0x7FFFFFFE\<rparr>"

text \<open>The two local entries start with whatever the stack holds.\<close>

definition init_paging :: "u32 \<Rightarrow> u32 \<Rightarrow> 'a paging_scheme \<Rightarrow> 'a paging_scheme" where
  "init_paging junk1 junk2 s =
    (let s = s\<lparr>page_dir := replicate 1024 (pde_pte_init junk1)\<rparr>;
         s = s\<lparr>page_table := replicate 1024 (pte_4kb_init junk2)\<rparr>;
         s = snd (map_v_p 0x400000 0x400000 1 1 1 s);
         s = snd (map_v_p VIDEO VIDEO 0 1 1 s)
     in enable_paging s)"

section \<open>The translation of the processor\<close>

definition walk :: "'a paging_scheme \<Rightarrow> u32 \<Rightarrow> (u32 \<times> bool \<times> bool) option" where
  "walk s a =
    (let pde = page_dir s ! unat (drop_bit 22 a); i = drop_bit 12 a AND 0x3FF
     in if \<not> bit pde 0 then None
        else if bit pde 7
        then Some ((pde AND 0xFFC00000) OR (a AND 0x3FFFFF), bit pde 1, bit pde 2)
        else let pte = (if pde AND 0xFFFFF000 = page_table_addr s then page_table s ! unat i
                        else ld32 (mem s) ((pde AND 0xFFFFF000) + 4 * i))
             in if \<not> bit pte 0 then None
                else Some ((pte AND 0xFFFFF000) OR (a AND 0xFFF),
                           bit pde 1 \<and> bit pte 1, bit pde 2 \<and> bit pte 2))"

section \<open>Bit fields\<close>

lemma bit_set_field:
  "k < 32 \<Longrightarrow> bit (set_field lo n v w) k \<longleftrightarrow>
    (if lo \<le> k \<and> k < lo + n then bit v (k - lo) else bit w k)"
  by (auto simp: set_field_def bit_simps)

lemma bit_pde_4mb:
  assumes "p \<noteq> 0"
  shows "bit (map_pde_4mb p rw us w) 0" "bit (map_pde_4mb p rw us w) 7"
    "bit (map_pde_4mb p rw us w) 1 = bit rw 0" "bit (map_pde_4mb p rw us w) 2 = bit us 0"
    "22 \<le> k \<Longrightarrow> k < 32 \<Longrightarrow> bit (map_pde_4mb p rw us w) k = bit p k"
  using assms
  by (simp_all add: map_pde_4mb_def clear_status_def set_present_def set_read_write_def
      set_user_supervisor_def set_page_size_def bit_set_field bit_drop_bit_eq Let_def)

lemma bit_pte_4kb:
  assumes "p \<noteq> 0"
  shows "bit (map_pte_4kb p rw us w) 0"
    "bit (map_pte_4kb p rw us w) 1 = bit rw 0" "bit (map_pte_4kb p rw us w) 2 = bit us 0"
    "12 \<le> k \<Longrightarrow> k < 32 \<Longrightarrow> bit (map_pte_4kb p rw us w) k = bit p k"
  using assms
  by (simp_all add: map_pte_4kb_def clear_status_def set_present_def set_read_write_def
      set_user_supervisor_def bit_set_field bit_drop_bit_eq Let_def)

lemma bit_unmapped:
  "\<not> bit (map_pte_4kb 0 rw us w) 0" "\<not> bit (map_pde_4mb 0 rw us w) 0"
  by (simp_all add: map_pte_4kb_def map_pde_4mb_def set_present_def set_read_write_def
      set_user_supervisor_def set_page_size_def bit_set_field Let_def)

lemma bit_pde_table:
  "bit (map_pde_table t w) 0" "bit (map_pde_table t w) 1" "bit (map_pde_table t w) 2"
  "\<not> bit (map_pde_table t w) 7"
  "12 \<le> k \<Longrightarrow> k < 32 \<Longrightarrow> bit (map_pde_table t w) k = bit t k"
  by (simp_all add: map_pde_table_def set_present_def set_read_write_def
      set_user_supervisor_def set_page_size_def bit_set_field bit_drop_bit_eq Let_def)

section \<open>Page numbers and offsets\<close>

lemma page_masks:
  "(0x3FFFFF :: u32) = mask 22" "(0xFFC00000 :: u32) = NOT (mask 22)"
  "(0xFFF :: u32) = mask 12" "(0xFFFFF000 :: u32) = NOT (mask 12)" "(0x3FF :: u32) = mask 10"
  by (simp_all add: mask_eq_exp_minus_1)

text \<open>An aligned page address plus an offset below the page size.\<close>

lemma aligned_add:
  fixes p q :: u32
  assumes "p AND mask n = 0" "q AND NOT (mask n) = 0"
  shows "p + q = p OR q" and "(p + q) AND mask n = q" and "(p + q) AND NOT (mask n) = p"
    and "drop_bit n (p + q) = drop_bit n p"
proof -
  have p: "n \<le> k" if "bit p k" for k
    using arg_cong[OF assms(1), of "\<lambda>w. bit w k"] that bit_imp_le_length[OF that]
    by (auto simp: bit_simps)
  have q: "k < n" if "bit q k" for k
    using arg_cong[OF assms(2), of "\<lambda>w. bit w k"] that bit_imp_le_length[OF that]
    by (auto simp: bit_simps)
  show e: "p + q = p OR q" by (rule disjunctive_add) (use p q in force)
  show "(p + q) AND mask n = q" "(p + q) AND NOT (mask n) = p" "drop_bit n (p + q) = drop_bit n p"
    unfolding e by (rule bit_word_eqI; use p q in \<open>force simp: bit_simps\<close>)+
qed

lemma offset_mask: "q < 2 ^ n \<Longrightarrow> n < 32 \<Longrightarrow> q AND NOT (mask n) = 0" for q :: u32
proof -
  assume "q < 2 ^ n" "n < 32"
  then have e: "q AND mask n = q" by (intro less_mask_eq) simp
  show ?thesis by (subst e[symmetric]) (simp add: and.assoc)
qed

lemma and_mask_cong:
  fixes x p :: u32
  assumes "\<And>k. n \<le> k \<Longrightarrow> k < 32 \<Longrightarrow> bit x k = bit p k"
  shows "x AND NOT (mask n) = p AND NOT (mask n)"
  by (rule bit_word_eqI) (use assms in \<open>auto simp: bit_simps\<close>)

lemma dir_index: "unat (drop_bit 22 (a :: u32)) < 1024"
  using unat_lt32[of a] by (simp add: drop_bit_eq_div unat_div div_less_iff_less_mult)

lemma table_index: "unat (i AND mask 10 :: u32) < 1024"
  by (simp add: unat_mod take_bit_eq_mod flip: take_bit_eq_mask)

lemma dir_index_inj: "unat (drop_bit 22 a) = unat (drop_bit 22 b) \<longleftrightarrow> drop_bit 22 a = drop_bit 22 b" for a b :: u32
  by (simp add: word_unat_eq_iff)

text \<open>The shape of the tables: only the lowest 4 MB are mapped through the page table.\<close>

definition paging_ok :: "'a paging_scheme \<Rightarrow> bool" where
  "paging_ok s \<longleftrightarrow> length (page_dir s) = 1024 \<and> length (page_table s) = 1024 \<and>
    page_table_addr s AND 0xFFF = 0 \<and>
    (\<forall>i \<in> {1..<1024}. bit (page_dir s ! i) 0 \<longrightarrow> bit (page_dir s ! i) 7)"

text \<open>The directory entry of the lowest 4 MB refers to the page table.\<close>

definition low_mapped :: "'a paging_scheme \<Rightarrow> bool" where
  "low_mapped s \<longleftrightarrow> paging_ok s \<and> bit (page_dir s ! 0) 0 \<and> bit (page_dir s ! 0) 1 \<and>
    bit (page_dir s ! 0) 2 \<and> \<not> bit (page_dir s ! 0) 7 \<and>
    page_dir s ! 0 AND 0xFFFFF000 = page_table_addr s"

lemma walk_low:
  assumes "low_mapped s" "drop_bit 22 a = 0"
  shows "walk s a = (let pte = page_table s ! unat (drop_bit 12 a AND 0x3FF)
    in if bit pte 0 then Some ((pte AND 0xFFFFF000) OR (a AND 0xFFF), bit pte 1, bit pte 2) else None)"
  using assms by (simp add: walk_def low_mapped_def Let_def)

definition map_4mb :: "u32 \<Rightarrow> u32 \<Rightarrow> u32 \<Rightarrow> u32 \<Rightarrow> 'a paging_scheme \<Rightarrow> 'a paging_scheme" where
  "map_4mb v p rw us s = snd (map_v_p v p 1 rw us s)"

definition map_4kb :: "u32 \<Rightarrow> u32 \<Rightarrow> u32 \<Rightarrow> u32 \<Rightarrow> 'a paging_scheme \<Rightarrow> 'a paging_scheme" where
  "map_4kb v p rw us s = snd (map_v_p v p 0 rw us s)"

lemma flush_tlb_id [simp]: "flush_tlb s = s"
  by (simp add: flush_tlb_def)

section \<open>Mapping 4 MB pages\<close>

definition big_page :: "u32 \<Rightarrow> bool" where
  "big_page v \<longleftrightarrow> v AND mask 22 = 0"

lemma aligned_smaller:
  fixes v p :: u32
  assumes "v AND mask n = 0" "p AND mask n = 0" "k \<le> n"
  shows "(v OR p) AND mask k = 0"
proof -
  have "(v OR p) AND mask n = 0" using assms(1,2) by (simp add: bit.conj_disj_distrib2)
  moreover have mk: "mask n AND mask k = (mask k :: u32)"
    using assms(3) by (intro bit_word_eqI) (auto simp: bit_simps)
  have "(v OR p) AND mask k = ((v OR p) AND mask n) AND mask k" by (simp only: and.assoc mk)
  ultimately show ?thesis by simp
qed

lemma map_4mb_eq:
  assumes "big_page v" "big_page p" "v \<noteq> 0"
  shows "map_v_p v p 1 rw us s = (0, s\<lparr>page_dir := (page_dir s)
    [unat (drop_bit 22 v) := map_pde_4mb p rw us (page_dir s ! unat (drop_bit 22 v))]\<rparr>)"
proof -
  have "(0x3FFF :: u32) = mask 14" by (simp add: mask_eq_exp_minus_1)
  then have "(v OR p) AND 0x3FFF = 0" using assms aligned_smaller[of v 22 p 14] by (simp add: big_page_def)
  then show ?thesis using assms(3) by (simp add: map_v_p_def Let_def)
qed

lemma big_page_nonzero: "big_page v \<Longrightarrow> v \<noteq> 0 \<Longrightarrow> drop_bit 22 v \<noteq> 0"
  by (metis big_page_def bits_ident add_cancel_left_right push_bit_of_0 take_bit_eq_mask)

lemma walk_map_4mb:
  assumes "paging_ok s" "big_page v" "big_page p" "v \<noteq> 0"
  shows "q < 0x400000 \<Longrightarrow> walk (map_4mb v p rw us s) (v + q) =
      (if p = 0 then None else Some (p + q, bit rw 0, bit us 0))"
    and "drop_bit 22 a \<noteq> drop_bit 22 v \<Longrightarrow> walk (map_4mb v p rw us s) a = walk s a"
    and "paging_ok (map_4mb v p rw us s)" and "low_mapped s \<Longrightarrow> low_mapped (map_4mb v p rw us s)"
proof -
  let ?d = "unat (drop_bit 22 v)" and ?e = "map_pde_4mb p rw us (page_dir s ! unat (drop_bit 22 v))"
  have e: "map_4mb v p rw us s = s\<lparr>page_dir := (page_dir s)[?d := ?e]\<rparr>"
    using map_4mb_eq[OF assms(2-4), of rw us s] by (simp add: map_4mb_def)
  have len: "length (page_dir s) = 1024" using assms(1) by (simp add: paging_ok_def)
  have "bit ?e 0 \<Longrightarrow> bit ?e 7" using bit_pde_4mb(1,2) bit_unmapped(2) by (cases "p = 0") auto
  then show ok: "paging_ok (map_4mb v p rw us s)"
    using assms(1) dir_index[of v] by (auto simp: e paging_ok_def nth_list_update)
  have "?d \<noteq> 0" using big_page_nonzero[OF assms(2,4)] by (simp add: unat_eq_0)
  then show "low_mapped (map_4mb v p rw us s)" if "low_mapped s"
    using that ok by (simp add: e low_mapped_def)
  show "walk (map_4mb v p rw us s) a = walk s a" if "drop_bit 22 a \<noteq> drop_bit 22 v"
    using that dir_index_inj[of v a] by (simp add: e walk_def Let_def)
  show "walk (map_4mb v p rw us s) (v + q) = (if p = 0 then None else Some (p + q, bit rw 0, bit us 0))"
    if "q < 0x400000"
  proof -
    have q: "q AND NOT (mask 22) = 0" using that by (intro offset_mask) simp_all
    note av = aligned_add[OF assms(2)[unfolded big_page_def] q]
    note ap = aligned_add[OF assms(3)[unfolded big_page_def] q]
    show ?thesis
    proof (cases "p = 0")
      case True
      then have "\<not> bit ?e 0" using bit_unmapped(2) by simp
      then have "walk (map_4mb v p rw us s) (v + q) = None"
        using av(4) len dir_index[of v] by (simp add: e walk_def Let_def)
      with True show ?thesis by simp
    next
      case False
      have "?e AND NOT (mask 22) = p AND NOT (mask 22)" using bit_pde_4mb(5)[OF False] by (rule and_mask_cong)
      also have "\<dots> = p" using aligned_add(3)[OF assms(3)[unfolded big_page_def], of 0] by simp
      finally have "(?e AND NOT (mask 22)) OR ((v + q) AND mask 22) = p + q" using av(2) ap(1) by simp
      with False show ?thesis using av(4) len dir_index[of v] bit_pde_4mb[OF False]
        by (simp add: e walk_def page_masks Let_def)
    qed
  qed
qed

section \<open>Mapping 4 KB pages\<close>

definition small_page :: "u32 \<Rightarrow> bool" where
  "small_page v \<longleftrightarrow> v AND mask 12 = 0 \<and> v < 0x400000"

lemma low_page: "v < 0x400000 \<longleftrightarrow> drop_bit 22 v = 0" for v :: u32
  by (simp add: word_less_nat_alt drop_bit_eq_div word_unat_eq_iff unat_div div_eq_0_iff)

lemma table_index_inj:
  fixes a b :: u32
  assumes "drop_bit 22 a = 0" "drop_bit 22 b = 0"
  shows "unat (drop_bit 12 a AND mask 10) = unat (drop_bit 12 b AND mask 10) \<longleftrightarrow> drop_bit 12 a = drop_bit 12 b"
proof -
  have "drop_bit 12 c AND mask 10 = drop_bit 12 c" if "drop_bit 22 c = 0" for c :: u32
  proof (rule bit_word_eqI)
    fix k assume "k < LENGTH(32)"
    moreover have "\<not> bit (drop_bit 22 c) (k - 10)" using that by simp
    moreover have "22 + (k - 10) = 12 + k" if "\<not> k < 10" using that by simp
    ultimately show "bit (drop_bit 12 c AND mask 10) k = bit (drop_bit 12 c) k"
      by (cases "k < 10") (auto simp: bit_simps)
  qed
  with assms show ?thesis by (simp add: word_unat_eq_iff)
qed

lemma map_4kb_eq:
  assumes "small_page v" "p AND mask 12 = 0" "v \<noteq> 0"
  shows "map_v_p v p 0 rw us s = (0, s\<lparr>
    page_dir := (page_dir s)[0 := map_pde_table (page_table_addr s) (page_dir s ! 0)],
    page_table := (page_table s)[unat (drop_bit 12 v AND mask 10) :=
      map_pte_4kb p rw us (page_table s ! unat (drop_bit 12 v AND mask 10))]\<rparr>)"
proof -
  have "(v OR p) AND 0xFFF = 0"
    using assms aligned_smaller[of v 12 p 12] by (simp add: small_page_def page_masks)
  moreover have "drop_bit 22 v = 0" using assms(1) by (simp add: small_page_def low_page)
  ultimately show ?thesis
    using assms(1,3) by (simp add: map_v_p_def small_page_def page_masks(5) Let_def not_le)
qed

lemma low_mapped_table:
  assumes "paging_ok s" "length pt = 1024"
  shows "low_mapped (s\<lparr>page_dir := (page_dir s)[0 := map_pde_table (page_table_addr s) (page_dir s ! 0)],
    page_table := pt\<rparr>)"
proof -
  have "map_pde_table (page_table_addr s) w AND NOT (mask 12) = page_table_addr s AND NOT (mask 12)" for w
    using bit_pde_table(5) by (rule and_mask_cong)
  moreover have "page_table_addr s AND NOT (mask 12) = page_table_addr s"
    using assms(1) aligned_add(3)[of "page_table_addr s" 12 0] by (simp add: paging_ok_def page_masks)
  ultimately show ?thesis
    using assms bit_pde_table by (simp add: low_mapped_def paging_ok_def page_masks)
qed

lemma walk_map_4kb:
  assumes "paging_ok s" "small_page v" "p AND mask 12 = 0" "v \<noteq> 0"
  shows "q < 0x1000 \<Longrightarrow> walk (map_4kb v p rw us s) (v + q) =
      (if p = 0 then None else Some (p + q, bit rw 0, bit us 0))"
    and "low_mapped s \<Longrightarrow> drop_bit 12 a \<noteq> drop_bit 12 v \<Longrightarrow> walk (map_4kb v p rw us s) a = walk s a"
    and "low_mapped (map_4kb v p rw us s)"
    and "drop_bit 22 a \<noteq> 0 \<Longrightarrow> walk (map_4kb v p rw us s) a = walk s a"
proof -
  let ?i = "unat (drop_bit 12 v AND mask 10)"
  let ?e = "map_pte_4kb p rw us (page_table s ! ?i)"
  let ?pt = "(page_table s)[?i := ?e]"
  have e: "map_4kb v p rw us s =
      s\<lparr>page_dir := (page_dir s)[0 := map_pde_table (page_table_addr s) (page_dir s ! 0)], page_table := ?pt\<rparr>"
    using map_4kb_eq[OF assms(2-4), of rw us s] by (simp add: map_4kb_def)
  have len: "length (page_table s) = 1024" using assms(1) by (simp add: paging_ok_def)
  show low: "low_mapped (map_4kb v p rw us s)"
    unfolding e using assms(1) len by (intro low_mapped_table) simp_all
  have v0: "drop_bit 22 v = 0" "v AND mask 12 = 0" using assms(2) by (simp_all add: small_page_def low_page)
  show high: "walk (map_4kb v p rw us s) a = walk s a" if "drop_bit 22 a \<noteq> 0" for a
  proof -
    have "unat (drop_bit 22 a) \<noteq> 0" using that by (simp add: unat_eq_0)
    with assms(1) dir_index[of a] show ?thesis by (simp add: e walk_def paging_ok_def Let_def)
  qed
  show "walk (map_4kb v p rw us s) a = walk s a" if "low_mapped s" "drop_bit 12 a \<noteq> drop_bit 12 v"
  proof (cases "drop_bit 22 a = 0")
    case True
    then show ?thesis
      using walk_low[OF low True] walk_low[OF that(1) True] table_index_inj[OF v0(1) True] that(2)
      by (simp add: e page_masks(5) Let_def)
  qed (rule high)
  show "walk (map_4kb v p rw us s) (v + q) = (if p = 0 then None else Some (p + q, bit rw 0, bit us 0))"
    if "q < 0x1000"
  proof -
    have q: "q AND NOT (mask 12) = 0" using that by (intro offset_mask) simp_all
    note av = aligned_add[OF v0(2) q] and ap = aligned_add[OF assms(3) q]
    have "drop_bit 22 (v + q) = drop_bit 10 (drop_bit 12 (v + q))" by simp
    also have "\<dots> = 0" unfolding av(4) using v0(1) by simp
    finally have d: "drop_bit 22 (v + q) = 0" .
    have pe: "page_table (map_4kb v p rw us s) ! ?i = ?e"
      using len table_index[of "drop_bit 12 v"] by (simp add: e)
    show ?thesis
    proof (cases "p = 0")
      case True
      then have "\<not> bit ?e 0" using bit_unmapped(1) by simp
      then have "walk (map_4kb v p rw us s) (v + q) = None"
        unfolding walk_low[OF low d] by (simp only: av(4) page_masks(5) pe Let_def) simp
      with True show ?thesis by simp
    next
      case False
      have "?e AND NOT (mask 12) = p AND NOT (mask 12)" using bit_pte_4kb(4)[OF False] by (rule and_mask_cong)
      also have "\<dots> = p" using aligned_add(3)[OF assms(3), of 0] by simp
      finally have "(?e AND NOT (mask 12)) OR ((v + q) AND mask 12) = p + q" using av(2) ap(1) by simp
      with False show ?thesis
        using walk_low[OF low d] bit_pte_4kb[OF False]
        by (simp only: av(4) page_masks pe Let_def) simp
    qed
  qed
qed

section \<open>The contract of a page mapper\<close>

text \<open>
  What the rest of the kernel relies on when it maps a page, for one page size of \<open>2 ^ n\<close> bytes,
  and what follows from it: a later mapping of the same page overrides an earlier one, so that
  switching the user page away and back restores the address space, and mappings of different
  pages do not interfere.
\<close>

locale page_mapper =
  fixes map_page :: "u32 \<Rightarrow> u32 \<Rightarrow> 's \<Rightarrow> 's"
    and look :: "'s \<Rightarrow> u32 \<Rightarrow> (u32 \<times> bool \<times> bool) option"
    and ok :: "'s \<Rightarrow> bool"
    and valid :: "u32 \<Rightarrow> bool"
    and n :: nat
  assumes map_in: "ok s \<Longrightarrow> valid v \<Longrightarrow> p AND mask n = 0 \<Longrightarrow> p \<noteq> 0 \<Longrightarrow> q < 2 ^ n \<Longrightarrow>
      look (map_page v p s) (v + q) = Some (p + q, True, True)"
    and map_out: "ok s \<Longrightarrow> valid v \<Longrightarrow> p AND mask n = 0 \<Longrightarrow> p \<noteq> 0 \<Longrightarrow>
      drop_bit n a \<noteq> drop_bit n v \<Longrightarrow> look (map_page v p s) a = look s a"
    and map_ok: "ok s \<Longrightarrow> valid v \<Longrightarrow> p AND mask n = 0 \<Longrightarrow> p \<noteq> 0 \<Longrightarrow> ok (map_page v p s)"
    and valid_aligned: "valid v \<Longrightarrow> v AND mask n = 0"
    and size: "n < 32"
begin

lemma in_page:
  assumes "valid v" "drop_bit n a = drop_bit n v"
  obtains q where "a = v + q" "q < 2 ^ n"
proof -
  have "v = push_bit n (drop_bit n v)"
    using valid_aligned[OF assms(1)] bits_ident[of n v] by (simp add: take_bit_eq_mask)
  then have "a = v + take_bit n a"
    using assms(2) bits_ident[of n a] by simp
  moreover have "take_bit n a < 2 ^ n"
    using size by (simp add: take_bit_eq_mask and_mask_less')
  ultimately show thesis by (rule that)
qed

lemma override:
  assumes "ok s" "valid v" "p AND mask n = 0" "p \<noteq> 0" "p' AND mask n = 0" "p' \<noteq> 0"
  shows "look (map_page v p (map_page v p' s)) a = look (map_page v p s) a"
proof (cases "drop_bit n a = drop_bit n v")
  case True
  then obtain q where "a = v + q" "q < 2 ^ n" using in_page[OF assms(2)] by blast
  with assms map_ok[OF assms(1,2,5,6)] show ?thesis by (simp add: map_in)
next
  case False
  with assms map_ok[OF assms(1,2,5,6)] show ?thesis by (simp add: map_out)
qed

lemma commute:
  assumes "ok s" "valid v" "valid w" "drop_bit n v \<noteq> drop_bit n w"
    and "p AND mask n = 0" "p \<noteq> 0" "p' AND mask n = 0" "p' \<noteq> 0"
  shows "look (map_page v p (map_page w p' s)) a = look (map_page w p' (map_page v p s)) a"
proof -
  have k: "ok (map_page w p' s)" "ok (map_page v p s)" using assms map_ok by blast+
  consider q where "a = v + q" "q < 2 ^ n" "drop_bit n a = drop_bit n v"
    | q where "a = w + q" "q < 2 ^ n" "drop_bit n a = drop_bit n w"
    | "drop_bit n a \<noteq> drop_bit n v" "drop_bit n a \<noteq> drop_bit n w"
    using in_page[OF assms(2), of a] in_page[OF assms(3), of a] by blast
  then show ?thesis
    by cases (use assms k in \<open>simp_all add: map_in map_out\<close>)
qed

end

interpretation big: page_mapper "\<lambda>v p. map_4mb v p 1 1" walk low_mapped "\<lambda>v. big_page v \<and> v \<noteq> 0" 22
proof
  fix s :: "'a paging_scheme" and v p q a :: u32
  assume s: "low_mapped s" and v: "big_page v \<and> v \<noteq> 0" and p: "p AND mask 22 = 0" "p \<noteq> 0"
  have ok: "paging_ok s" and bp: "big_page p" using s p by (simp_all add: low_mapped_def big_page_def)
  note w = walk_map_4mb[OF ok _ bp, of v]
  show "q < 2 ^ 22 \<Longrightarrow> walk (map_4mb v p 1 1 s) (v + q) = Some (p + q, True, True)"
    using w(1)[of q 1 1] v p by simp
  show "drop_bit 22 a \<noteq> drop_bit 22 v \<Longrightarrow> walk (map_4mb v p 1 1 s) a = walk s a"
    using w(2)[of a 1 1] v by simp
  show "low_mapped (map_4mb v p 1 1 s)" using w(4)[of 1 1] v s by simp
qed (simp_all add: big_page_def)

interpretation small: page_mapper "\<lambda>v p. map_4kb v p 1 1" walk low_mapped "\<lambda>v. small_page v \<and> v \<noteq> 0" 12
proof
  fix s :: "'a paging_scheme" and v p q a :: u32
  assume s: "low_mapped s" and v: "small_page v \<and> v \<noteq> 0" and p: "p AND mask 12 = 0" "p \<noteq> 0"
  have ok: "paging_ok s" using s by (simp add: low_mapped_def)
  note w = walk_map_4kb[OF ok _ p(1), of v]
  show "q < 2 ^ 12 \<Longrightarrow> walk (map_4kb v p 1 1 s) (v + q) = Some (p + q, True, True)"
    using w(1)[of q 1 1] v p by simp
  show "drop_bit 12 a \<noteq> drop_bit 12 v \<Longrightarrow> walk (map_4kb v p 1 1 s) a = walk s a"
    using w(2)[of a 1 1] v s by simp
  show "low_mapped (map_4kb v p 1 1 s)" using w(3)[of 1 1] v by simp
qed (simp_all add: small_page_def)

section \<open>Properties of the mappings\<close>

text \<open>What a mapping of a page of \<open>2 ^ n\<close> bytes is expected to do to the translation.\<close>

definition maps_page ::
  "nat \<Rightarrow> u32 \<Rightarrow> u32 \<Rightarrow> bool \<Rightarrow> bool \<Rightarrow> 'a paging_scheme \<Rightarrow> 'a paging_scheme \<Rightarrow> bool" where
  "maps_page n v p rw us s t \<longleftrightarrow> low_mapped t \<and>
    (\<forall>q < 2 ^ n. walk t (v + q) = (if p = 0 then None else Some (p + q, rw, us))) \<and>
    (\<forall>a. drop_bit n a \<noteq> drop_bit n v \<longrightarrow> walk t a = walk s a)"

lemma map_4mb_maps:
  assumes "low_mapped s" "v \<noteq> 0" "big_page v" "big_page p"
  shows "fst (map_v_p v p 1 rw us s) = 0"
    and "maps_page 22 v p (bit rw 0) (bit us 0) s (snd (map_v_p v p 1 rw us s))"
proof -
  have ok: "paging_ok s" using assms(1) by (simp add: low_mapped_def)
  show "fst (map_v_p v p 1 rw us s) = 0" using map_4mb_eq[OF assms(3,4,2), of rw us s] by simp
  show "maps_page 22 v p (bit rw 0) (bit us 0) s (snd (map_v_p v p 1 rw us s))"
    using walk_map_4mb[OF ok assms(3,4,2)] assms(1) by (simp add: maps_page_def flip: map_4mb_def)
qed

lemma map_4kb_maps:
  assumes "low_mapped s" "v \<noteq> 0" "small_page v" "p AND mask 12 = 0"
  shows "fst (map_v_p v p 0 rw us s) = 0"
    and "maps_page 12 v p (bit rw 0) (bit us 0) s (snd (map_v_p v p 0 rw us s))"
proof -
  have ok: "paging_ok s" using assms(1) by (simp add: low_mapped_def)
  show "fst (map_v_p v p 0 rw us s) = 0" using map_4kb_eq[OF assms(3,4,2), of rw us s] by simp
  show "maps_page 12 v p (bit rw 0) (bit us 0) s (snd (map_v_p v p 0 rw us s))"
    using walk_map_4kb[OF ok assms(3,4,2)] assms(1) by (simp add: maps_page_def flip: map_4kb_def)
qed

text \<open>
  C13: a mapping is what the processor then translates. On addresses aligned for the page size
  (and, for 4 KB pages, a virtual address below 4 MB) \<open>map_v_p\<close> returns 0, every address of
  the page goes to the same offset of the physical page with the requested permissions, or
  faults if the physical address is 0, every other address translates as before, and the tables
  stay well-formed.
\<close>

theorem map_v_p_translates:
  assumes "low_mapped s" "v \<noteq> 0" "(kb_or_mb, n) = (0, 12) \<or> (kb_or_mb, n) = (1, 22)"
    and "v AND mask n = 0" "p AND mask n = 0" "kb_or_mb = 0 \<longrightarrow> v < 0x400000"
  shows "fst (map_v_p v p kb_or_mb rw us s) = 0 \<and>
    maps_page n v p (bit rw 0) (bit us 0) s (snd (map_v_p v p kb_or_mb rw us s))"
  using assms map_4mb_maps[OF assms(1,2)] map_4kb_maps[OF assms(1,2)]
  by (auto simp: big_page_def small_page_def)

text \<open>
  C15: the alignment check for 4 MB pages is too weak: its mask covers 14 bits instead of 22. For
  addresses that pass it, the mapping is installed for the whole 4 MB frames around them, so that
  the virtual address goes to the physical one only if the two have the same offset.
\<close>

theorem map_v_p_4mb_truncates:
  assumes "paging_ok s" "v \<noteq> 0" "p \<noteq> 0" "(v OR p) AND 0x3FFF = 0"
  shows "fst (map_v_p v p 1 rw us s) = 0 \<and>
    walk (snd (map_v_p v p 1 rw us s)) v =
      Some ((p AND 0xFFC00000) OR (v AND 0x3FFFFF), bit rw 0, bit us 0)"
proof -
  let ?d = "unat (drop_bit 22 v)"
  let ?e = "map_pde_4mb p rw us (page_dir s ! ?d)"
  have e: "map_v_p v p 1 rw us s = (0, s\<lparr>page_dir := (page_dir s)[?d := ?e]\<rparr>)"
    using assms(2,4) by (simp add: map_v_p_def Let_def)
  have "?e AND NOT (mask 22) = p AND NOT (mask 22)"
    using bit_pde_4mb(5)[OF assms(3)] by (rule and_mask_cong)
  then show ?thesis
    using assms(1) dir_index[of v] bit_pde_4mb[OF assms(3)]
    by (simp add: e walk_def paging_ok_def page_masks Let_def)
qed

section \<open>The address space after initialisation\<close>

lemma init_entries:
  "\<not> bit (pde_pte_init w) 0" "\<not> bit (pte_4kb_init w) 0"
  by (simp_all add: pde_pte_init_def pte_4kb_init_def clear_status_def set_present_def
      set_read_write_def set_user_supervisor_def set_page_size_def bit_set_field Let_def)

definition blank_tables :: "u32 \<Rightarrow> u32 \<Rightarrow> 'a paging_scheme \<Rightarrow> 'a paging_scheme" where
  "blank_tables j1 j2 s = s\<lparr>page_dir := replicate 1024 (pde_pte_init j1),
    page_table := replicate 1024 (pte_4kb_init j2)\<rparr>"

lemma init_paging_eq:
  "init_paging j1 j2 s =
    enable_paging (map_4kb VIDEO VIDEO 1 1 (map_4mb 0x400000 0x400000 1 1 (blank_tables j1 j2 s)))"
  by (simp add: init_paging_def map_4mb_def map_4kb_def blank_tables_def Let_def)

lemma kernel_page: "big_page 0x400000" "small_page VIDEO" "VIDEO AND mask 12 = 0"
  by (simp_all add: big_page_def small_page_def mask_eq_exp_minus_1)

lemma walk_blank: "walk (blank_tables j1 j2 s) a = None"
  using dir_index[of a] by (simp add: walk_def blank_tables_def init_entries Let_def)

lemma paging_ok_blank: "page_table_addr s AND 0xFFF = 0 \<Longrightarrow> paging_ok (blank_tables j1 j2 s)"
  by (simp add: paging_ok_def blank_tables_def init_entries)

lemma walk_kernel_page:
  assumes "page_table_addr s AND 0xFFF = 0"
  shows "walk (map_4mb 0x400000 0x400000 1 1 (blank_tables j1 j2 s)) a =
    (if drop_bit 22 a = 1 then Some (a, True, True) else None)"
proof -
  note w = walk_map_4mb[OF paging_ok_blank[OF assms, of j1 j2] kernel_page(1,1)]
  show ?thesis
  proof (cases "drop_bit 22 a = 1")
    case True
    then have "drop_bit 22 a = drop_bit 22 (0x400000 :: u32)" by simp
    then obtain q where q: "a = 0x400000 + q" "q < 2 ^ 22"
      using big.in_page[of "0x400000" a] kernel_page(1) by auto
    with w(1)[of q 1 1] True show ?thesis by simp
  next
    case False
    with w(2)[of a 1 1] show ?thesis by (simp add: walk_blank)
  qed
qed

lemma walk_video_page:
  fixes j1 j2 :: u32
  assumes "page_table_addr s AND 0xFFF = 0"
  defines "t \<equiv> map_4mb 0x400000 0x400000 1 1 (blank_tables j1 j2 s)"
  shows "walk (map_4kb VIDEO VIDEO 1 1 t) a =
    (if drop_bit 22 a = 1 \<or> drop_bit 12 a = 0xB8 then Some (a, True, True) else None)"
    and "low_mapped (map_4kb VIDEO VIDEO 1 1 t)"
proof -
  have ok: "paging_ok t"
    unfolding t_def using paging_ok_blank[OF assms(1)] kernel_page by (intro walk_map_4mb) simp_all
  note w = walk_map_4kb[OF ok kernel_page(2,3)]
  show low: "low_mapped (map_4kb VIDEO VIDEO 1 1 t)" by (rule w(3)) simp
  have d: "drop_bit 22 a = drop_bit 10 (drop_bit 12 a)" by simp
  consider "drop_bit 22 a \<noteq> 0" | "drop_bit 22 a = 0" "drop_bit 12 a = 0xB8"
    | "drop_bit 22 a = 0" "drop_bit 12 a \<noteq> 0xB8" by blast
  then show "walk (map_4kb VIDEO VIDEO 1 1 t) a =
    (if drop_bit 22 a = 1 \<or> drop_bit 12 a = 0xB8 then Some (a, True, True) else None)"
  proof cases
    case 1
    have "drop_bit 12 a \<noteq> 0xB8" using 1 d by (intro notI) simp
    moreover have "walk (map_4kb VIDEO VIDEO 1 1 t) a = walk t a" using 1 by (intro w(4)) simp_all
    ultimately show ?thesis by (simp add: t_def walk_kernel_page[OF assms(1)])
  next
    case 2
    then have "drop_bit 12 a = drop_bit 12 VIDEO" by simp
    then obtain q where q: "a = VIDEO + q" "q < 2 ^ 12"
      using small.in_page[of VIDEO a] kernel_page(2) by auto
    with w(1)[of q 1 1] 2 show ?thesis by simp
  next
    case 3
    let ?i = "unat (drop_bit 12 a AND mask 10)"
    have "?i \<noteq> unat (drop_bit 12 VIDEO AND mask 10)"
      using 3 table_index_inj[of a VIDEO] by simp
    moreover have "page_table t = replicate 1024 (pte_4kb_init j2)"
      by (simp add: t_def map_4mb_def map_v_p_def blank_tables_def Let_def)
    ultimately have "page_table (map_4kb VIDEO VIDEO 1 1 t) ! ?i = pte_4kb_init j2"
      using map_4kb_eq[OF kernel_page(2,3), of 1 1 t] table_index[of "drop_bit 12 a"]
      by (simp add: map_4kb_def)
    with 3 walk_low[OF low 3(1)] show ?thesis
      by (simp add: page_masks(5) init_entries Let_def)
  qed
qed

text \<open>
  C14: after \<open>init_paging\<close> exactly the kernel's 4 MB page at 4 MB and the 4 KB page of the video
  memory are mapped, each to itself; every other access faults. Paging is on, with mixed page
  sizes, and the directory register holds the kernel's directory.
\<close>

theorem init_paging_space:
  assumes "page_table_addr s AND 0xFFF = 0" "page_dir_addr s AND 0xFFF = 0"
  shows "low_mapped (init_paging j1 j2 s) \<and>
    walk (init_paging j1 j2 s) a =
      (if drop_bit 22 a = 1 \<or> drop_bit 12 a = 0xB8 then Some (a, True, True) else None) \<and>
    cr3 (init_paging j1 j2 s) = page_dir_addr s \<and> bit (cr0 (init_paging j1 j2 s)) 31 \<and>
    bit (cr4 (init_paging j1 j2 s)) 4"
proof -
  let ?t = "map_4kb VIDEO VIDEO 1 1 (map_4mb 0x400000 0x400000 1 1 (blank_tables j1 j2 s))"
  have e: "walk (enable_paging ?t) a = walk ?t a" "low_mapped (enable_paging ?t) = low_mapped ?t"
    by (simp_all add: enable_paging_def walk_def low_mapped_def paging_ok_def Let_def)
  have "page_dir_addr ?t = page_dir_addr s"
    by (simp add: map_4kb_def map_4mb_def map_v_p_def blank_tables_def Let_def)
  moreover have "page_dir_addr s AND NOT (mask 12) = page_dir_addr s"
    using assms(2) aligned_add(3)[of "page_dir_addr s" 12 0] by (simp add: page_masks)
  moreover have "bit (0x80000001 :: u32) 31" "bit (0x10 :: u32) 4" by code_simp+
  ultimately show ?thesis
    using walk_video_page[OF assms(1), of j1 j2] unfolding init_paging_eq e
    by (simp add: enable_paging_def page_masks(4) bit_or_iff)
qed

section \<open>Witnesses\<close>

definition demo_boot :: paging where
  "demo_boot = rtc.extend demo_rtc (paging.fields [] [] 0x401000 0x402000 0 0 0)"

definition demo_paging :: paging where
  "demo_paging = init_paging 0 0 demo_boot"

lemma demo_boot_addrs: "page_table_addr demo_boot = 0x402000" "page_dir_addr demo_boot = 0x401000"
  by (simp_all add: demo_boot_def rtc.defs paging.defs)

lemma demo_paging_low: "low_mapped demo_paging"
  using walk_video_page(2)[of demo_boot 0 0]
  by (simp add: demo_paging_def init_paging_eq enable_paging_def low_mapped_def paging_ok_def
      demo_boot_addrs)

theorem map_v_p_translates_witness:
  "walk (snd (map_v_p 0x8000000 0x800000 1 1 1 demo_paging)) 0x8048000 = Some (0x848000, True, True)"
proof -
  have "fst (map_v_p 0x8000000 0x800000 1 1 1 demo_paging) = 0 \<and>
    maps_page 22 0x8000000 0x800000 True True demo_paging (snd (map_v_p 0x8000000 0x800000 1 1 1 demo_paging))"
    using map_v_p_translates[OF demo_paging_low, of "0x8000000" 1 22 "0x800000" 1 1]
    by (simp add: mask_eq_exp_minus_1)
  then have "walk (snd (map_v_p 0x8000000 0x800000 1 1 1 demo_paging)) (0x8000000 + 0x48000) =
      Some (0x800000 + 0x48000, True, True)"
    by (auto simp: maps_page_def dest!: spec[of _ "0x48000 :: u32"])
  then show ?thesis by simp
qed

theorem map_v_p_4mb_truncates_witness:
  "walk (snd (map_v_p 0x8000000 0x804000 1 1 1 demo_paging)) 0x8000000 = Some (0x800000, True, True)"
  using map_v_p_4mb_truncates[of demo_paging "0x8000000" "0x804000" 1 1] demo_paging_low
  by (simp add: low_mapped_def)

theorem init_paging_space_witness:
  "walk demo_paging 0x400123 = Some (0x400123, True, True) \<and> walk demo_paging 0x123 = None"
  using init_paging_space[of demo_boot 0 0 "0x400123"] init_paging_space[of demo_boot 0 0 "0x123"]
  by (simp add: demo_paging_def demo_boot_addrs)

end
