(* ===== verification/Filesys.thy ===== *)
theory Filesys
  imports Paging
begin

text \<open>
  The read-only file system: \<^verbatim>\<open>student-distrib/filesys.c\<close> (all but the two operations that go
  through the file descriptor table, which are with the processes) and \<open>is_executable\<close> of
  \<^verbatim>\<open>utils/file_util.c\<close>. The image lies in memory at \<open>filesys_addr\<close>: a boot block, the inodes,
  the data blocks, 4096 bytes each. The kernel keeps a copy of the boot block, as a record here;
  inodes and data are read from the image on every access.

  A directory entry is an output parameter of the code; here it is a result, \<open>None\<close> standing for
  the return value -1. \<open>Out_Of_Bounds\<close> is an access past the end of an array: the lookup by name
  runs over the number of inodes instead of the number of entries.

  The theorems state the contract of a file system as functions on bytes: a lookup finds the
  first entry of that name, \<open>read_data\<close> returns the wanted slice of the file's contents, the
  directory is enumerated entry by entry.
\<close>

section \<open>State\<close>

record dentry =
  name :: bytes
  file_type :: u32
  inode_index :: u32
  reserved :: bytes

record boot_block_t =
  dentry_count :: u32
  inode_count :: u32
  data_count :: u32
  dentries :: "dentry list"

record inode_t =
  length_of :: u32
  data_indices :: "u32 list"

record filesys = paging +
  filesys_addr :: ptr
  boot_block :: boot_block_t
  dr_index :: u32

abbreviation (input) BLOCK_SIZE :: u32 where "BLOCK_SIZE \<equiv> 4096"
abbreviation (input) FNAME_MAX_LEN :: nat where "FNAME_MAX_LEN \<equiv> 32"
abbreviation (input) DENTRY_COUNT :: nat where "DENTRY_COUNT \<equiv> 63"

definition load_dentry :: "mem \<Rightarrow> ptr \<Rightarrow> dentry" where
  "load_dentry m p = \<lparr>name = rd_bytes m p 32, file_type = ld32 m (p + 32),
    inode_index = ld32 m (p + 36), reserved = rd_bytes m (p + 40) 24\<rparr>"

definition load_boot_block :: "mem \<Rightarrow> ptr \<Rightarrow> boot_block_t" where
  "load_boot_block m p = \<lparr>dentry_count = ld32 m p, inode_count = ld32 m (p + 4),
    data_count = ld32 m (p + 8),
    dentries = map (\<lambda>i. load_dentry m (p + 64 + 64 * of_nat i)) [0..<DENTRY_COUNT]\<rparr>"

definition load_inode :: "mem \<Rightarrow> ptr \<Rightarrow> inode_t" where
  "load_inode m p = \<lparr>length_of = ld32 m p,
    data_indices = map (\<lambda>i. ld32 m (p + 4 + 4 * of_nat i)) [0..<1023]\<rparr>"

section \<open>Operations\<close>

definition init_filesys :: "ptr \<Rightarrow> 'a filesys_scheme \<Rightarrow> 'a filesys_scheme" where
  "init_filesys fs_addr s =
    s\<lparr>filesys_addr := fs_addr, boot_block := load_boot_block (mem s) fs_addr, dr_index := 0\<rparr>"

text \<open>The inner loop of the lookup: does the entry's name match the string?\<close>

function name_match :: "bytes \<Rightarrow> mem \<Rightarrow> ptr \<Rightarrow> nat \<Rightarrow> bool" where
  "name_match nm m fname j =
    (if j < FNAME_MAX_LEN
     then if nm ! j \<noteq> m (fname + of_nat j) then False
          else if nm ! j OR m (fname + of_nat j) = 0 \<or> j = FNAME_MAX_LEN - 1 then True
          else name_match nm m fname (j + 1)
     else False)"
  by pat_completeness auto
termination
  by (relation "measure (\<lambda>(nm, m, fname, j). 32 - j)") auto

declare name_match.simps [simp del]

function dentry_loop :: "boot_block_t \<Rightarrow> mem \<Rightarrow> ptr \<Rightarrow> nat \<Rightarrow> fault + dentry option" where
  "dentry_loop bb m fname i =
    (if i < unat (inode_count bb)
     then if i \<ge> DENTRY_COUNT then Inl Out_Of_Bounds
          else if name_match (name (dentries bb ! i)) m fname 0 then Inr (Some (dentries bb ! i))
          else dentry_loop bb m fname (i + 1)
     else Inr None)"
  by pat_completeness auto
termination
  by (relation "measure (\<lambda>(bb, m, fname, i). 64 - i)") auto

declare dentry_loop.simps [simp del]

text \<open>
  The entry that the code stores through its last argument is the result here. Every caller passes
  the address of a local variable, so that the test of that argument against NULL never fails.
\<close>

definition read_dentry_by_name :: "ptr \<Rightarrow> 'a filesys_scheme \<Rightarrow> fault + dentry option" where
  "read_dentry_by_name fname s =
    (if fname = NULL then Inr None
     else if mem s fname = 0 then Inr None
     else dentry_loop (boot_block s) (mem s) fname 0)"

definition read_dentry_by_index :: "u32 \<Rightarrow> 'a filesys_scheme \<Rightarrow> fault + dentry option" where
  "read_dentry_by_index index s =
    (if index \<ge> dentry_count (boot_block s) then Inr None
     else if unat index \<ge> DENTRY_COUNT then Inl Out_Of_Bounds
     else Inr (Some (dentries (boot_block s) ! unat index)))"

definition inode_addr :: "u32 \<Rightarrow> 'a filesys_scheme \<Rightarrow> ptr" where
  "inode_addr i s = filesys_addr s + BLOCK_SIZE + BLOCK_SIZE * i"

definition data_base :: "'a filesys_scheme \<Rightarrow> ptr" where
  "data_base s = filesys_addr s + BLOCK_SIZE * (1 + inode_count (boot_block s))"

definition file_size :: "ptr \<Rightarrow> 'a filesys_scheme \<Rightarrow> fault + u32" where
  "file_size fname s =
    (case read_dentry_by_name fname s of
       Inl f \<Rightarrow> Inl f
     | Inr None \<Rightarrow> Inr (- 1)
     | Inr (Some d) \<Rightarrow> Inr (length_of (load_inode (mem s) (inode_addr (inode_index d) s))))"

text \<open>The copy loop of \<open>read_data\<close>; the additions and comparisons are on 32-bit words.\<close>

definition data_addr :: "ptr \<Rightarrow> inode_t \<Rightarrow> u32 \<Rightarrow> ptr" where
  "data_addr blocks inode pos =
    blocks + BLOCK_SIZE * (data_indices inode ! unat (drop_bit 12 pos)) + (pos AND 0xFFF)"

function read_data_loop ::
  "ptr \<Rightarrow> inode_t \<Rightarrow> u32 \<Rightarrow> ptr \<Rightarrow> u32 \<Rightarrow> nat \<Rightarrow> mem \<Rightarrow> fault + nat \<times> mem" where
  "read_data_loop blocks inode offset buffer len byte_count m =
    (if byte_count < unat len \<and> of_nat byte_count + offset < length_of inode
     then let pos = of_nat byte_count + offset
          in if unat (drop_bit 12 pos) \<ge> 1023 then Inl Out_Of_Bounds
             else read_data_loop blocks inode offset buffer len (byte_count + 1)
                    (m(buffer + of_nat byte_count := m (data_addr blocks inode pos)))
     else Inr (byte_count, m))"
  by pat_completeness auto
termination
  by (relation "measure (\<lambda>(blocks, inode, offset, buffer, len, byte_count, m). unat len - byte_count)") auto

declare read_data_loop.simps [simp del]

definition read_data ::
  "u32 \<Rightarrow> u32 \<Rightarrow> ptr \<Rightarrow> u32 \<Rightarrow> 'a filesys_scheme \<Rightarrow> fault + int \<times> 'a filesys_scheme" where
  "read_data inode_i offset buffer len s =
    (if inode_i \<ge> inode_count (boot_block s) then Inr (- 1, s)
     else if buffer = NULL then Inr (- 1, s)
     else let inode = load_inode (mem s) (inode_addr inode_i s)
          in case read_data_loop (data_base s) inode offset buffer len 0 (mem s) of
               Inl f \<Rightarrow> Inl f
             | Inr (byte_count, m) \<Rightarrow> Inr (sint (of_nat byte_count :: u32), s\<lparr>mem := m\<rparr>))"

definition read_file_bytes_by_name ::
  "ptr \<Rightarrow> ptr \<Rightarrow> u32 \<Rightarrow> 'a filesys_scheme \<Rightarrow> fault + int \<times> 'a filesys_scheme" where
  "read_file_bytes_by_name fname buf len s =
    (case read_dentry_by_name fname s of
       Inl f \<Rightarrow> Inl f
     | Inr None \<Rightarrow> Inr (- 1, s)
     | Inr (Some d) \<Rightarrow>
        (case read_data (inode_index d) 0 buf len s of
           Inl f \<Rightarrow> Inl f
         | Inr (r, s) \<Rightarrow> if r < 0 then Inr (- 1, s) else Inr (0, s)))"

text \<open>The entry under the directory position, which the callers advance.\<close>

definition next_dentry :: "'a filesys_scheme \<Rightarrow> fault + dentry option \<times> 'a filesys_scheme" where
  "next_dentry s =
    (let i = dr_index s; s = s\<lparr>dr_index := dr_index s + 1\<rparr>
     in case read_dentry_by_index i s of
          Inl f \<Rightarrow> Inl f
        | Inr None \<Rightarrow> Inr (None, s\<lparr>dr_index := 0\<rparr>)
        | Inr (Some d) \<Rightarrow> Inr (Some d, s))"

fun put_name :: "bytes \<Rightarrow> ptr \<Rightarrow> nat \<Rightarrow> mem \<Rightarrow> mem" where
  "put_name [] buf i m = m(buf + of_nat i := 0)"
| "put_name (c # cs) buf i m =
    (if c \<noteq> 0 then put_name cs buf (i + 1) (m(buf + of_nat i := c)) else m(buf + of_nat i := 0))"

definition put_next_dir_name :: "ptr \<Rightarrow> 'a filesys_scheme \<Rightarrow> fault + u32 \<times> 'a filesys_scheme" where
  "put_next_dir_name buf s =
    (let s = s\<lparr>mem := (mem s)(buf + 32 := 0)\<rparr>
     in case next_dentry s of
          Inl f \<Rightarrow> Inl f
        | Inr (None, s) \<Rightarrow> Inr (0, s)
        | Inr (Some d, s) \<Rightarrow> Inr (1, s\<lparr>mem := put_name (name d) buf 0 (mem s)\<rparr>))"

text \<open>
  \<open>dir_read\<close> copies from the local entry, whose 64 bytes are its fields one after the other. A
  longer copy reads past it.
\<close>

definition dentry_bytes :: "dentry \<Rightarrow> bytes" where
  "dentry_bytes d = name d @ le_bytes4 (file_type d) @ le_bytes4 (inode_index d) @ reserved d"

definition dir_read ::
  "int \<Rightarrow> ptr \<Rightarrow> int \<Rightarrow> 'a filesys_scheme \<Rightarrow> fault + int \<times> 'a filesys_scheme" where
  "dir_read fd buf nbytes s =
    (case next_dentry s of
       Inl f \<Rightarrow> Inl f
     | Inr (None, s) \<Rightarrow> Inr (0, s)
     | Inr (Some d, s) \<Rightarrow>
         if buf = NULL then Inr (nbytes, s)
         else if unat (word_of_int nbytes :: u32) > 64 then Inl Out_Of_Bounds
         else Inr (nbytes, s\<lparr>mem := wr_bytes (mem s) buf
                (take (unat (word_of_int nbytes :: u32)) (dentry_bytes d))\<rparr>))"

definition file_write :: "int \<Rightarrow> ptr \<Rightarrow> int \<Rightarrow> 'a filesys_scheme \<Rightarrow> int \<times> 'a filesys_scheme" where
  "file_write fd buf nbytes s = (- 1, s)"

definition file_open :: "ptr \<Rightarrow> 'a filesys_scheme \<Rightarrow> int \<times> 'a filesys_scheme" where
  "file_open filename s = (0, s)"

definition file_close :: "int \<Rightarrow> 'a filesys_scheme \<Rightarrow> int \<times> 'a filesys_scheme" where
  "file_close fd s = (0, s)"

definition dir_write :: "int \<Rightarrow> ptr \<Rightarrow> int \<Rightarrow> 'a filesys_scheme \<Rightarrow> int \<times> 'a filesys_scheme" where
  "dir_write fd buf nbytes s = (- 1, s)"

definition dir_open :: "ptr \<Rightarrow> 'a filesys_scheme \<Rightarrow> int \<times> 'a filesys_scheme" where
  "dir_open filename s = (0, s)"

definition dir_close :: "int \<Rightarrow> 'a filesys_scheme \<Rightarrow> int \<times> 'a filesys_scheme" where
  "dir_close fd s = (0, s)"

text \<open>
  \<open>is_executable\<close> with its local arrays \<open>data\<close> and \<open>buf\<close> and the literal \<open>elf\<close>. When the file
  does not begin with four bytes other than 0, \<open>substring\<close> fails and \<open>buf\<close> is compared as it was.
\<close>

definition is_executable ::
  "ptr \<Rightarrow> ptr \<Rightarrow> ptr \<Rightarrow> ptr \<Rightarrow> 'a filesys_scheme \<Rightarrow> (fault + u32 \<times> 'a filesys_scheme) option" where
  "is_executable data buf elf exe s =
    (let s = s\<lparr>mem := (mem s)(data + 4 := 0)\<rparr>
     in case read_file_bytes_by_name exe data 4 s of
          Inl f \<Rightarrow> Some (Inl f)
        | Inr (r, s) \<Rightarrow>
            if r < 0 then Some (Inr (0, s))
            else let s = s\<lparr>mem := snd (substring (mem s) data buf 1 4)\<rparr>
                 in Option.bind (string_equal (mem s) buf elf)
                      (\<lambda>e. Some (Inr (if e = 0 then 0 else 1, s))))"

section \<open>Looking up a name\<close>

text \<open>The name of an entry: its bytes up to the first NUL, all 32 if there is none.\<close>

definition dname :: "dentry \<Rightarrow> bytes" where
  "dname d = takeWhile (\<lambda>c. c \<noteq> 0) (name d)"

definition boot_ok :: "boot_block_t \<Rightarrow> bool" where
  "boot_ok bb \<longleftrightarrow> length (dentries bb) = DENTRY_COUNT \<and>
    (\<forall>d \<in> set (dentries bb). length (name d) = FNAME_MAX_LEN \<and> length (reserved d) = 24)"

lemma boot_ok_load: "boot_ok (load_boot_block m p)"
  by (auto simp: boot_ok_def load_boot_block_def load_dentry_def)

lemma name_match_iff:
  "length nm = 32 \<Longrightarrow> j < 32 \<Longrightarrow> cstr m (fname + of_nat j) str \<Longrightarrow>
    name_match nm m fname j \<longleftrightarrow> takeWhile (\<lambda>c. c \<noteq> 0) (drop j nm) = take (32 - j) str"
proof (induction "31 - j" arbitrary: j str)
  case 0
  then have j: "j = 31" by simp
  with 0 have "drop j nm = [nm ! 31]" by (simp add: Cons_nth_drop_Suc[symmetric])
  with 0 j show ?case by (cases str) (auto simp: name_match.simps[of nm m fname 31])
next
  case (Suc k)
  then have j: "j < 31" by simp
  have d: "drop j nm = nm ! j # drop (Suc j) nm" using Suc by (simp add: Cons_nth_drop_Suc)
  have n: "32 - j = Suc (32 - Suc j)" using j by simp
  show ?case
  proof (cases str)
    case Nil
    with Suc j d show ?thesis by (auto simp: name_match.simps[of nm m fname j])
  next
    case (Cons c cs)
    have "name_match nm m fname (Suc j) \<longleftrightarrow> takeWhile (\<lambda>c. c \<noteq> 0) (drop (Suc j) nm) = take (32 - Suc j) cs"
      using Suc.prems Cons j Suc.hyps(2) by (intro Suc.hyps(1)) (auto simp: algebra_simps)
    with Suc.prems Cons j d n show ?thesis
      by (auto simp: name_match.simps[of nm m fname j])
  qed
qed

definition named :: "bytes \<Rightarrow> dentry \<Rightarrow> bool" where
  "named str d \<longleftrightarrow> dname d = take FNAME_MAX_LEN str"

lemma dentry_loop_find:
  assumes "boot_ok bb" "cstr m fname str"
  shows "i \<le> 63 \<Longrightarrow> dentry_loop bb m fname i =
    (case find (named str) (drop i (take (unat (inode_count bb)) (dentries bb))) of
       Some d \<Rightarrow> Inr (Some d)
     | None \<Rightarrow> if unat (inode_count bb) > 63 then Inl Out_Of_Bounds else Inr None)"
proof (induction "63 - i" arbitrary: i)
  case 0
  have "length (dentries bb) = 63" using assms(1) by (simp add: boot_ok_def)
  with 0 show ?case by (subst dentry_loop.simps) simp
next
  case (Suc k)
  have len: "length (dentries bb) = 63" using assms(1) by (simp add: boot_ok_def)
  show ?case
  proof (cases "i < unat (inode_count bb)")
    case True
    let ?d = "dentries bb ! i" and ?l = "take (unat (inode_count bb)) (dentries bb)"
    have dr: "drop i ?l = ?d # drop (Suc i) ?l"
      using True Suc len by (subst Cons_nth_drop_Suc[symmetric]) auto
    have "length (name ?d) = 32" using assms(1) Suc len by (simp add: boot_ok_def)
    then have "name_match (name ?d) m fname 0 \<longleftrightarrow> named str ?d"
      using name_match_iff[of "name ?d" 0 m fname str] assms(2) by (simp add: named_def dname_def)
    with Suc True dr show ?thesis by (subst dentry_loop.simps) auto
  next
    case False
    with Suc show ?thesis by (subst dentry_loop.simps) simp
  qed
qed

text \<open>The directory as the lookup sees it, and the entry it finds.\<close>

definition lookup_name :: "bytes \<Rightarrow> 'a filesys_scheme \<Rightarrow> dentry option" where
  "lookup_name str s =
    (if str = [] then None
     else find (named str) (take (unat (inode_count (boot_block s))) (dentries (boot_block s))))"

lemma read_dentry_by_name_eq:
  assumes "boot_ok (boot_block s)" "cstr (mem s) fname str" "fname \<noteq> NULL"
  shows "read_dentry_by_name fname s =
    (case lookup_name str s of Some d \<Rightarrow> Inr (Some d)
     | None \<Rightarrow> if str \<noteq> [] \<and> unat (inode_count (boot_block s)) > 63 then Inl Out_Of_Bounds else Inr None)"
  using dentry_loop_find[OF assms(1,2), of 0] assms(2,3)
  by (cases str) (auto simp: read_dentry_by_name_def lookup_name_def)

text \<open>
  C20: lookup by name. For a NUL-terminated name the result is the first entry, among as many as
  there are inodes, whose name equals the first 32 characters of the given one, and failure for
  the empty name; if there is none and the image has more than 63 inodes, the search reads past
  the 63 entries of the boot block.
\<close>

theorem read_dentry_by_name_spec:
  assumes "boot_ok (boot_block s)" "cstr (mem s) fname str" "fname \<noteq> NULL"
  shows "(\<forall>d. read_dentry_by_name fname s = Inr (Some d) \<longleftrightarrow>
      str \<noteq> [] \<and> (\<exists>i < 63. i < unat (inode_count (boot_block s)) \<and> dentries (boot_block s) ! i = d \<and>
        named str d \<and> (\<forall>j < i. \<not> named str (dentries (boot_block s) ! j)))) \<and>
    (read_dentry_by_name fname s = Inl Out_Of_Bounds \<longleftrightarrow>
      str \<noteq> [] \<and> unat (inode_count (boot_block s)) > 63 \<and>
      (\<forall>d \<in> set (dentries (boot_block s)). \<not> named str d))"
proof -
  let ?n = "unat (inode_count (boot_block s))" and ?ds = "dentries (boot_block s)"
  have len: "length ?ds = 63" using assms(1) by (simp add: boot_ok_def)
  have some: "read_dentry_by_name fname s = Inr (Some d) \<longleftrightarrow>
      str \<noteq> [] \<and> find (named str) (take ?n ?ds) = Some d" for d
    by (auto simp: read_dentry_by_name_eq[OF assms] lookup_name_def split: option.splits)
  have none: "read_dentry_by_name fname s = Inl Out_Of_Bounds \<longleftrightarrow>
      str \<noteq> [] \<and> ?n > 63 \<and> find (named str) (take ?n ?ds) = None"
    by (auto simp: read_dentry_by_name_eq[OF assms] lookup_name_def split: option.splits)
  have first: "find (named str) (take ?n ?ds) = Some d \<longleftrightarrow> (\<exists>i < 63. i < ?n \<and> ?ds ! i = d \<and>
        named str d \<and> (\<forall>j < i. \<not> named str (?ds ! j)))" for d
    unfolding find_Some_iff using len by auto
  have "find (named str) (take ?n ?ds) = None \<longleftrightarrow> (\<forall>d \<in> set ?ds. \<not> named str d)" if "?n > 63"
    using that len by (auto simp: find_None_iff)
  then show ?thesis unfolding some none first by blast
qed

section \<open>Reading data\<close>

text \<open>The contents of a file: the bytes of its data blocks, as many as its length says.\<close>

definition contents :: "ptr \<Rightarrow> inode_t \<Rightarrow> mem \<Rightarrow> bytes" where
  "contents blocks inode m = map (\<lambda>p. m (data_addr blocks inode (of_nat p))) [0..<unat (length_of inode)]"

definition apart :: "ptr \<Rightarrow> inode_t \<Rightarrow> ptr \<Rightarrow> nat \<Rightarrow> bool" where
  "apart blocks inode buffer n \<longleftrightarrow>
    (\<forall>p < unat (length_of inode). \<not> in_rng buffer n (data_addr blocks inode (of_nat p)))"

lemma slice_Suc:
  "off + k < length xs \<Longrightarrow> take (Suc k) (drop off xs) = take k (drop off xs) @ [xs ! (off + k)]"
  by (simp add: take_Suc_conv_app_nth)

lemma read_data_loop_eq:
  assumes "unat (length_of inode) \<le> 1023 * 4096" "apart blocks inode buffer (unat len)"
    and "k \<le> length (take (unat len) (drop (unat offset) (contents blocks inode m)))"
  shows "read_data_loop blocks inode offset buffer len k
      (wr_bytes m buffer (take k (drop (unat offset) (contents blocks inode m)))) =
    Inr (length (take (unat len) (drop (unat offset) (contents blocks inode m))),
         wr_bytes m buffer (take (unat len) (drop (unat offset) (contents blocks inode m))))"
  using assms(3)
proof (induction "length (take (unat len) (drop (unat offset) (contents blocks inode m))) - k" arbitrary: k)
  case 0
  let ?c = "contents blocks inode m" and ?L = "unat (length_of inode)"
  have L: "length ?c = ?L" by (simp add: contents_def)
  with 0 have k: "k = min (unat len) (?L - unat offset)" by (auto simp: min_def)
  have stop: "\<not> (k < unat len \<and> of_nat k + offset < length_of inode)"
  proof
    assume a: "k < unat len \<and> of_nat k + offset < length_of inode"
    with k have kL: "k = ?L - unat offset" by (auto simp: min_def split: if_splits)
    show False
    proof (cases "unat offset \<le> ?L")
      case True
      then have "of_nat k + offset = length_of inode"
        unfolding kL by (simp add: of_nat_diff)
      with a show False by simp
    next
      case False
      with kL a show False by (simp add: word_less_nat_alt)
    qed
  qed
  have "take k (drop (unat offset) ?c) = take (unat len) (drop (unat offset) ?c)"
    using k L by (simp add: min_def)
  moreover have "length (take (unat len) (drop (unat offset) ?c)) = k" using k L by simp
  ultimately show ?case by (subst read_data_loop.simps, subst if_not_P[OF stop]) simp
next
  case (Suc n)
  let ?c = "contents blocks inode m" and ?L = "unat (length_of inode)"
  let ?sl = "\<lambda>k. take k (drop (unat offset) ?c)"
  have L: "length ?c = ?L" by (simp add: contents_def)
  with Suc have k: "k < unat len" "unat offset + k < ?L" by auto
  let ?pos = "of_nat k + offset"
  have p2: "?pos = of_nat (unat offset + k)" by (simp add: add.commute)
  have "unat offset + k < 4294967296" using k(2) unat_lt32[of "length_of inode"] by linarith
  then have "unat ?pos = unat offset + k" unfolding p2 by (rule unat_of_nat32)
  note pos = this p2
  have "unat (drop_bit 12 ?pos) = (unat offset + k) div 4096"
    unfolding drop_bit_eq_div unat_div pos(1) by simp
  then have i: "\<not> unat (drop_bit 12 ?pos) \<ge> 1023" using k assms(1) by simp
  have c: "?pos < length_of inode" using k(2) by (simp only: word_less_nat_alt pos(1))
  have "wr_bytes m buffer (?sl k) (data_addr blocks inode ?pos) = ?c ! (unat offset + k)"
  proof -
    have "\<not> in_rng buffer (unat len) (data_addr blocks inode ?pos)"
      unfolding pos(2) using assms(2) k(2) unfolding apart_def by blast
    then have "\<not> in_rng buffer (length (?sl k)) (data_addr blocks inode ?pos)"
      using k(1) by (auto simp: in_rng_def)
    then have "wr_bytes m buffer (?sl k) (data_addr blocks inode ?pos) = m (data_addr blocks inode ?pos)"
      by (rule wr_bytes_out)
    also have "\<dots> = ?c ! (unat offset + k)"
      unfolding pos(2) using k(2) by (simp add: contents_def del: of_nat_add)
    finally show ?thesis .
  qed
  moreover have "(wr_bytes m buffer (?sl k))(buffer + of_nat k := ?c ! (unat offset + k)) =
      wr_bytes m buffer (?sl (Suc k))"
  proof -
    have "length (?sl k) = k" using k L by simp
    moreover have "k < 4294967296" using k(1) unat_lt32[of len] by linarith
    ultimately show ?thesis
      using wr_bytes_snoc[of "?sl k" m buffer] k L by (simp add: slice_Suc)
  qed
  moreover have "read_data_loop blocks inode offset buffer len (Suc k) (wr_bytes m buffer (?sl (Suc k))) =
      Inr (length (?sl (unat len)), wr_bytes m buffer (?sl (unat len)))"
    using Suc k L by (intro Suc.hyps(1)) auto
  ultimately show ?case
    using k(1) c i by (subst read_data_loop.simps) (simp add: Let_def)
qed

definition file_contents :: "u32 \<Rightarrow> 'a filesys_scheme \<Rightarrow> bytes" where
  "file_contents i s = contents (data_base s) (load_inode (mem s) (inode_addr i s)) (mem s)"

definition inode_ok :: "u32 \<Rightarrow> 'a filesys_scheme \<Rightarrow> bool" where
  "inode_ok i s \<longleftrightarrow> i < inode_count (boot_block s) \<and>
    unat (length_of (load_inode (mem s) (inode_addr i s))) \<le> 1023 * 4096"

definition buffer_apart :: "u32 \<Rightarrow> ptr \<Rightarrow> nat \<Rightarrow> 'a filesys_scheme \<Rightarrow> bool" where
  "buffer_apart i buffer n s \<longleftrightarrow> apart (data_base s) (load_inode (mem s) (inode_addr i s)) buffer n"

lemma length_file_contents: "inode_ok i s \<Longrightarrow> length (file_contents i s) \<le> 1023 * 4096"
  by (simp add: inode_ok_def file_contents_def contents_def)

lemma read_data_eq:
  assumes "inode_ok i s" "buffer \<noteq> NULL" "buffer_apart i buffer (unat len) s"
  shows "read_data i offset buffer len s =
    (let bs = take (unat len) (drop (unat offset) (file_contents i s))
     in Inr (int (length bs), s\<lparr>mem := wr_bytes (mem s) buffer bs\<rparr>))"
proof -
  let ?in = "load_inode (mem s) (inode_addr i s)"
  have "read_data_loop (data_base s) ?in offset buffer len 0 (mem s) =
      Inr (length (take (unat len) (drop (unat offset) (file_contents i s))),
           wr_bytes (mem s) buffer (take (unat len) (drop (unat offset) (file_contents i s))))"
    using read_data_loop_eq[of ?in "data_base s" buffer len 0 offset "mem s"] assms
    by (simp add: inode_ok_def buffer_apart_def file_contents_def)
  then show ?thesis
    using assms length_file_contents[OF assms(1)]
    by (simp add: read_data_def inode_ok_def Let_def not_le)
qed

text \<open>
  C19: \<open>read_data\<close> refines reading a slice of a byte sequence: on a valid inode, with a buffer
  outside the file's data, it returns the number of bytes from \<open>offset\<close> to the end of the file or
  of the request, whichever comes first, and stores exactly these bytes, for every 32-bit offset
  and length; an inode out of range or a null buffer is refused.
\<close>

theorem read_data_spec:
  "(i \<ge> inode_count (boot_block s) \<or> buffer = NULL \<longrightarrow> read_data i offset buffer len s = Inr (- 1, s)) \<and>
   (inode_ok i s \<and> buffer \<noteq> NULL \<and> buffer_apart i buffer (unat len) s \<longrightarrow>
      read_data i offset buffer len s =
        (let bs = take (unat len) (drop (unat offset) (file_contents i s))
         in Inr (int (length bs), s\<lparr>mem := wr_bytes (mem s) buffer bs\<rparr>)))"
  using read_data_eq[of i s buffer len offset] by (auto simp: read_data_def)

section \<open>Reading the directory\<close>

text \<open>
  One listing of the directory: from position 0, one call for each entry and one more that
  reports the end and rewinds. \<open>n\<close> calls are made; the result collects the entries.
\<close>

fun list_dir :: "nat \<Rightarrow> 'a filesys_scheme \<Rightarrow> fault + dentry option list \<times> 'a filesys_scheme" where
  "list_dir 0 s = Inr ([], s)"
| "list_dir (Suc n) s =
    (case next_dentry s of
       Inl f \<Rightarrow> Inl f
     | Inr (r, s) \<Rightarrow> (case list_dir n s of Inl f \<Rightarrow> Inl f | Inr (rs, s) \<Rightarrow> Inr (r # rs, s)))"

lemma next_dentry_eq:
  assumes "boot_ok (boot_block s)" "unat (dentry_count (boot_block s)) \<le> 63"
  shows "next_dentry s =
    (if unat (dr_index s) < unat (dentry_count (boot_block s))
     then Inr (Some (dentries (boot_block s) ! unat (dr_index s)), s\<lparr>dr_index := dr_index s + 1\<rparr>)
     else Inr (None, s\<lparr>dr_index := 0\<rparr>))"
  using assms by (auto simp: next_dentry_def read_dentry_by_index_def Let_def word_le_nat_alt)

lemma list_dir_eq:
  assumes "boot_ok (boot_block s)" "unat (dentry_count (boot_block s)) \<le> 63"
    and "unat (dr_index s) \<le> unat (dentry_count (boot_block s))"
    and "n = unat (dentry_count (boot_block s)) - unat (dr_index s)"
  shows "list_dir (Suc n) s =
    Inr (map Some (drop (unat (dr_index s)) (take (unat (dentry_count (boot_block s))) (dentries (boot_block s)))) @ [None],
         s\<lparr>dr_index := 0\<rparr>)"
  using assms
proof (induction n arbitrary: s)
  case 0
  then show ?case by (simp add: next_dentry_eq)
next
  case (Suc n)
  let ?c = "unat (dentry_count (boot_block s))" and ?ds = "dentries (boot_block s)"
  let ?s = "s\<lparr>dr_index := dr_index s + 1\<rparr>"
  have lt: "unat (dr_index s) < ?c" using Suc.prems by simp
  have u: "unat (dr_index s + 1) = Suc (unat (dr_index s))"
    using lt Suc.prems(2) by (simp add: unat_word_ariths)
  have "list_dir (Suc n) ?s = Inr (map Some (drop (unat (dr_index s + 1)) (take ?c ?ds)) @ [None], s\<lparr>dr_index := 0\<rparr>)"
    using Suc.prems lt u by (subst Suc.IH) simp_all
  moreover have "drop (unat (dr_index s)) (take ?c ?ds) = ?ds ! unat (dr_index s) # drop (Suc (unat (dr_index s))) (take ?c ?ds)"
    using lt Suc.prems by (subst Cons_nth_drop_Suc[symmetric]) (auto simp: boot_ok_def)
  ultimately show ?case
    using lt u Suc.prems(1,2) by (subst list_dir.simps) (simp add: next_dentry_eq del: list_dir.simps)
qed

text \<open>
  C21: the directory is enumerated completely. Starting at the beginning, the calls behind
  \<open>dir_read\<close> and \<open>put_next_dir_name\<close> return every entry exactly once, in order, then report the end
  and start over, so that a second listing returns the same.
\<close>

theorem list_dir_complete:
  assumes "boot_ok (boot_block s)" "unat (dentry_count (boot_block s)) \<le> 63" "dr_index s = 0"
  shows "list_dir (Suc (unat (dentry_count (boot_block s)))) s =
    Inr (map Some (take (unat (dentry_count (boot_block s))) (dentries (boot_block s))) @ [None], s)"
proof -
  have "s\<lparr>dr_index := 0\<rparr> = s" using assms(3) by (cases s) simp
  with list_dir_eq[OF assms(1,2)] assms(3) show ?thesis by simp
qed

lemma put_name_eq:
  "i + length cs < 4294967295 \<Longrightarrow>
    put_name cs buf i m = wr_bytes m (buf + of_nat i) (takeWhile (\<lambda>c. c \<noteq> 0) cs @ [0])"
proof (induction cs arbitrary: i m)
  case (Cons c cs)
  have "length (takeWhile (\<lambda>c. c \<noteq> 0) cs) \<le> length cs" by (rule length_takeWhile_le)
  with Cons show ?case by (auto simp: wr_bytes_Cons wr_bytes_single fun_upd_def add.assoc add.commute[of 1])
qed (simp add: wr_bytes_single)

lemma dentry_bytes_name: "boot_ok bb \<Longrightarrow> d \<in> set (dentries bb) \<Longrightarrow> n \<le> 32 \<Longrightarrow>
    take n (dentry_bytes d) = take n (name d)"
  by (simp add: dentry_bytes_def boot_ok_def)

text \<open>
  C22: one step of the directory. While entries remain, \<open>dir_read\<close> with a request of at most 32
  bytes stores that many bytes of the name field and returns the size of the request (not the
  length of the name), and \<open>put_next_dir_name\<close> stores the name NUL-terminated in its 33-byte
  buffer and returns 1; at the end both return 0 and rewind.
\<close>

theorem dir_read_spec:
  assumes "boot_ok (boot_block s)" "unat (dentry_count (boot_block s)) \<le> 63"
    and "0 \<le> nbytes" "nbytes \<le> 32" "buf \<noteq> NULL"
  shows "if unat (dr_index s) < unat (dentry_count (boot_block s))
    then let d = dentries (boot_block s) ! unat (dr_index s); t = s\<lparr>dr_index := dr_index s + 1\<rparr>
         in dir_read fd buf nbytes s = Inr (nbytes, t\<lparr>mem := wr_bytes (mem s) buf (take (nat nbytes) (name d))\<rparr>) \<and>
            (\<exists>m. put_next_dir_name buf s = Inr (1, t\<lparr>mem := m\<rparr>) \<and> cstr m buf (dname d) \<and>
              (\<forall>a. \<not> in_rng buf 33 a \<longrightarrow> m a = mem s a))
    else dir_read fd buf nbytes s = Inr (0, s\<lparr>dr_index := 0\<rparr>) \<and>
         put_next_dir_name buf s = Inr (0, s\<lparr>dr_index := 0, mem := (mem s)(buf + 32 := 0)\<rparr>)"
proof (cases "unat (dr_index s) < unat (dentry_count (boot_block s))")
  case True
  let ?d = "dentries (boot_block s) ! unat (dr_index s)" and ?m = "(mem s)(buf + 32 := 0)"
  let ?bs = "dname ?d"
  have d: "?d \<in> set (dentries (boot_block s))" using True assms(1,2) by (simp add: boot_ok_def)
  then have l: "length (name ?d) = 32" using assms(1) by (simp add: boot_ok_def)
  have u: "unat (word_of_int nbytes :: u32) = nat nbytes"
    using assms(3,4) by (simp add: unsigned_of_int take_bit_int_eq_self)
  have bl: "length ?bs \<le> 32" using length_takeWhile_le[of "\<lambda>c. c \<noteq> 0" "name ?d"] l by (simp add: dname_def)
  have nz: "0 \<notin> set ?bs" by (auto simp: dname_def dest: set_takeWhileD)
  have pn: "put_name (name ?d) buf 0 ?m = wr_bytes ?m buf (?bs @ [0])"
    using put_name_eq[of 0 "name ?d" buf ?m] l by (simp add: dname_def)
  have "cstr (wr_bytes ?m buf (?bs @ [0])) buf ?bs" using bl nz by (intro cstr_wr_bytes) auto
  moreover have "wr_bytes ?m buf (?bs @ [0]) a = mem s a" if "\<not> in_rng buf 33 a" for a
  proof -
    have "\<not> in_rng buf (length (?bs @ [0])) a" using that bl by (auto simp: in_rng_def)
    moreover have "in_rng buf 33 (buf + of_nat 32)" by (rule in_rngI) simp_all
    with that have "a \<noteq> buf + 32" by auto
    ultimately show ?thesis using wr_bytes_out[of buf "?bs @ [0]" a ?m] by simp
  qed
  moreover have "take (nat nbytes) (dentry_bytes ?d) = take (nat nbytes) (name ?d)"
    using dentry_bytes_name[OF assms(1) d] assms(4) by simp
  ultimately show ?thesis
    using True assms pn u by (auto simp: dir_read_def put_next_dir_name_def next_dentry_eq Let_def)
next
  case False
  with assms show ?thesis by (simp add: dir_read_def put_next_dir_name_def next_dentry_eq Let_def)
qed

section \<open>The image in memory\<close>

text \<open>
  The bytes the image occupies. Writes outside it change neither the inodes nor the contents of
  the files, and a buffer outside it is apart from every file.
\<close>

definition image_size :: "'a filesys_scheme \<Rightarrow> nat" where
  "image_size s = 4096 * (1 + unat (inode_count (boot_block s)) + unat (data_count (boot_block s)))"

definition in_image :: "'a filesys_scheme \<Rightarrow> ptr \<Rightarrow> bool" where
  "in_image s a \<longleftrightarrow> in_rng (filesys_addr s) (image_size s) a"

definition fs_wf :: "'a filesys_scheme \<Rightarrow> bool" where
  "fs_wf s \<longleftrightarrow> boot_ok (boot_block s) \<and> image_size s \<le> 4294967296"

definition inode_wf :: "u32 \<Rightarrow> 'a filesys_scheme \<Rightarrow> bool" where
  "inode_wf i s \<longleftrightarrow> inode_ok i s \<and>
    (\<forall>p < unat (length_of (load_inode (mem s) (inode_addr i s))).
      data_indices (load_inode (mem s) (inode_addr i s)) ! (p div 4096) < data_count (boot_block s))"

lemma inode_in_image:
  assumes "fs_wf s" "i < inode_count (boot_block s)" "k < 4096"
  shows "in_image s (inode_addr i s + of_nat k)"
proof -
  have "inode_addr i s + of_nat k = filesys_addr s + of_nat (4096 + 4096 * unat i + k)"
    by (simp add: inode_addr_def algebra_simps)
  moreover have "4096 + 4096 * unat i + k < image_size s"
    using assms(2,3) by (simp add: image_size_def word_less_nat_alt)
  ultimately show ?thesis using assms(1) by (simp only: in_image_def fs_wf_def in_rngI)
qed

lemma drop_low_bits: "x < 4194304 \<Longrightarrow> unat (drop_bit 12 (of_nat x :: u32)) = x div 4096"
  by (simp add: drop_bit_eq_div unat_div)

lemma data_in_image:
  assumes "fs_wf s" "inode_wf i s" "p < unat (length_of (load_inode (mem s) (inode_addr i s)))"
  shows "in_image s (data_addr (data_base s) (load_inode (mem s) (inode_addr i s)) (of_nat p))"
proof -
  let ?in = "load_inode (mem s) (inode_addr i s)"
  let ?x = "data_indices ?in ! (p div 4096)" and ?q = "unat ((of_nat p :: u32) AND 0xFFF)"
  have p: "p < 4194304" using assms(2,3) by (simp add: inode_wf_def inode_ok_def)
  have "?x < data_count (boot_block s)" using assms(2,3) by (simp add: inode_wf_def)
  moreover have "?q < 4096"
    unfolding page_masks(3) by (simp add: unat_mod take_bit_eq_mod flip: take_bit_eq_mask)
  ultimately have "4096 * (1 + unat (inode_count (boot_block s))) + 4096 * unat ?x + ?q < image_size s"
    by (simp add: image_size_def word_less_nat_alt)
  moreover have "data_addr (data_base s) ?in (of_nat p) = filesys_addr s +
      of_nat (4096 * (1 + unat (inode_count (boot_block s))) + 4096 * unat ?x + ?q)"
    by (simp add: data_addr_def data_base_def drop_low_bits[OF p] algebra_simps)
  ultimately show ?thesis using assms(1) by (simp only: in_image_def fs_wf_def in_rngI)
qed

lemma image_buffer_apart:
  assumes "fs_wf s" "inode_wf i s" "\<And>a. in_rng buf n a \<Longrightarrow> \<not> in_image s a"
  shows "buffer_apart i buf n s"
  using data_in_image[OF assms(1,2)] assms(3) unfolding buffer_apart_def apart_def by blast

text \<open>Two states with the same file system.\<close>

definition same_fs :: "'a filesys_scheme \<Rightarrow> 'b filesys_scheme \<Rightarrow> bool" where
  "same_fs s t \<longleftrightarrow> filesys_addr t = filesys_addr s \<and> boot_block t = boot_block s \<and>
    (\<forall>a. in_image s a \<longrightarrow> mem t a = mem s a)"

lemma same_fs_inode:
  assumes "same_fs s t" "fs_wf s" "i < inode_count (boot_block s)"
  shows "load_inode (mem t) (inode_addr i t) = load_inode (mem s) (inode_addr i s)"
proof -
  have a: "inode_addr i t = inode_addr i s" using assms(1) by (simp add: inode_addr_def same_fs_def)
  have ld: "ld32 (mem t) (inode_addr i s + of_nat k) = ld32 (mem s) (inode_addr i s + of_nat k)"
    if k: "k + 4 \<le> 4096" for k
  proof (rule ld32_cong)
    fix b assume "in_rng (inode_addr i s + of_nat k) 4 b"
    then obtain j where "j < 4" "b = inode_addr i s + of_nat (k + j)"
      by (auto simp: add.assoc dest!: in_rng_exD)
    then have "in_image s b" using k by (simp only: inode_in_image[OF assms(2,3)])
    then show "mem t b = mem s b" using assms(1) by (simp add: same_fs_def)
  qed
  have "ld32 (mem t) (inode_addr i s + 4 + 4 * of_nat j) = ld32 (mem s) (inode_addr i s + 4 + 4 * of_nat j)"
    if "j < 1023" for j
    using ld[of "4 + 4 * j"] that by (simp add: add.assoc)
  then show ?thesis unfolding a using ld[of 0] by (simp add: load_inode_def)
qed

lemma same_fs_contents:
  assumes "same_fs s t" "fs_wf s" "inode_wf i s"
  shows "file_contents i t = file_contents i s" and "inode_wf i t" and "fs_wf t"
proof -
  have i: "i < inode_count (boot_block s)" using assms(3) by (simp add: inode_wf_def inode_ok_def)
  note e = same_fs_inode[OF assms(1,2) i]
  have b: "boot_block t = boot_block s" "data_base t = data_base s"
    using assms(1) by (simp_all add: same_fs_def data_base_def)
  show "file_contents i t = file_contents i s"
    unfolding file_contents_def contents_def e b
    using data_in_image[OF assms(2,3)] assms(1) by (simp add: same_fs_def)
  show "inode_wf i t" using assms(3) by (simp add: inode_wf_def inode_ok_def e b)
  show "fs_wf t" using assms(2) by (simp add: fs_wf_def image_size_def b)
qed

lemma same_fs_mem:
  "(\<And>a. in_image s a \<Longrightarrow> m a = mem s a) \<Longrightarrow> same_fs s (s\<lparr>mem := m\<rparr>)"
  by (simp add: same_fs_def)

lemma same_fs_wr:
  "(\<And>a. in_rng p (length bs) a \<Longrightarrow> \<not> in_image s a) \<Longrightarrow> same_fs s (s\<lparr>mem := wr_bytes (mem s) p bs\<rparr>)"
  by (rule same_fs_mem) (auto intro!: wr_bytes_out)

section \<open>Executables\<close>

lemma read_file_eq:
  assumes "read_dentry_by_name fname s = Inr (Some d)" "inode_ok (inode_index d) s" "buf \<noteq> NULL"
    and "buffer_apart (inode_index d) buf (unat len) s"
  shows "read_file_bytes_by_name fname buf len s =
    Inr (0, s\<lparr>mem := wr_bytes (mem s) buf (take (unat len) (file_contents (inode_index d) s))\<rparr>)"
  using assms read_data_eq[OF assms(2-4), of 0]
  by (simp add: read_file_bytes_by_name_def Let_def)

lemma string_equal_cstr:
  assumes "cstr m p a" "cstr m q b" "p \<noteq> NULL" "q \<noteq> NULL"
  shows "string_equal m p q = Some (if a = b then 1 else 0)"
  using string_equal_loop_cstr[of m p 0 a q b] assms by (simp add: string_equal_def)

lemma read_dentry_cong:
  assumes "boot_block t = boot_block s" "\<And>a. in_rng fname (Suc (length str)) a \<Longrightarrow> mem t a = mem s a"
    and "cstr (mem s) fname str" "length str < 4294967296" "boot_ok (boot_block s)"
  shows "read_dentry_by_name fname t = read_dentry_by_name fname s" "cstr (mem t) fname str"
proof -
  show c: "cstr (mem t) fname str" using cstr_cong[OF assms(2,4)] assms(3) by simp
  show "read_dentry_by_name fname t = read_dentry_by_name fname s"
    using read_dentry_by_name_eq[OF assms(5,3)] read_dentry_by_name_eq[of t, OF _ c] assms(1,5)
    by (cases "fname = NULL") (simp_all add: lookup_name_def, simp add: read_dentry_by_name_def)
qed

text \<open>Where the local arrays of \<open>is_executable\<close> are: apart from everything it reads.\<close>

definition exec_frame :: "ptr \<Rightarrow> ptr \<Rightarrow> ptr \<Rightarrow> ptr \<Rightarrow> bytes \<Rightarrow> 'a filesys_scheme \<Rightarrow> bool" where
  "exec_frame data buf elf exe str s \<longleftrightarrow>
    data \<noteq> NULL \<and> buf \<noteq> NULL \<and> elf \<noteq> NULL \<and> exe \<noteq> NULL \<and> length str < 4294967295 \<and>
    disjnt_rng data 5 buf 4 \<and>
    (\<forall>a. in_rng data 5 a \<or> in_rng buf 4 a \<longrightarrow>
      \<not> in_image s a \<and> \<not> in_rng elf 4 a \<and> \<not> in_rng exe (Suc (length str)) a)"

lemma in_rng_last: "in_rng p (Suc n) (p + of_nat n)" if "n < 4294967296"
  using that by (intro in_rngI) auto

lemma is_executable_data:
  assumes wf: "fs_wf s" and exe: "cstr (mem s) exe str" and elf: "cstr (mem s) elf (asc ''ELF'')"
    and fr: "exec_frame data buf elf exe str s"
    and d: "read_dentry_by_name exe s = Inr (Some d)" "inode_wf (inode_index d) s"
    and b: "take 4 (file_contents (inode_index d) s) = [b0, b1, b2, b3]" "0 \<notin> {b0, b1, b2, b3}"
  shows "\<exists>t. is_executable data buf elf exe s = Some (Inr (if [b1, b2, b3] = asc ''ELF'' then 1 else 0, t)) \<and>
    (\<exists>m. t = s\<lparr>mem := m\<rparr> \<and> (\<forall>a. \<not> in_rng data 5 a \<and> \<not> in_rng buf 4 a \<longrightarrow> m a = mem s a))"
proof -
  let ?m1 = "(mem s)(data + 4 := 0)"
  let ?m2 = "wr_bytes ?m1 data [b0, b1, b2, b3]"
  let ?m3 = "wr_bytes ?m2 buf [b1, b2, b3, 0]"
  have ptrs: "data \<noteq> NULL" "buf \<noteq> NULL" "elf \<noteq> NULL" "exe \<noteq> NULL" and dj: "disjnt_rng data 5 buf 4"
    and ln: "length str < 4294967295"
    and out: "\<And>a. in_rng data 5 a \<or> in_rng buf 4 a \<Longrightarrow> \<not> in_image s a \<and> \<not> in_rng elf 4 a \<and> \<not> in_rng exe (Suc (length str)) a"
    using fr by (auto simp: exec_frame_def)
  have d4: "in_rng data 5 (data + 4)" using in_rng_last[of 4 data] by simp
  have m1: "?m1 a = mem s a" if "\<not> in_rng data 5 a" for a using that d4 by auto
  have m2: "?m2 a = mem s a" if "\<not> in_rng data 5 a" for a
    using that m1[OF that] wr_bytes_out[of data "[b0, b1, b2, b3]" a ?m1] by (auto simp: in_rng_def)
  have m3: "?m3 a = mem s a" if "\<not> in_rng data 5 a" "\<not> in_rng buf 4 a" for a
    using that m2[OF that(1)] wr_bytes_out[of buf "[b1, b2, b3, 0]" a ?m2] by (auto simp: in_rng_def)
  let ?s1 = "s\<lparr>mem := ?m1\<rparr>"
  have same: "same_fs s ?s1" using out m1 by (intro same_fs_mem) blast
  note fs1 = same_fs_contents[OF same wf d(2)]
  have rd: "read_dentry_by_name exe ?s1 = Inr (Some d)"
    using read_dentry_cong(1)[of ?s1 s exe str] exe ln wf out m1 d(1) by (auto simp: fs_wf_def)
  have ap: "buffer_apart (inode_index d) data 4 ?s1"
  proof (rule image_buffer_apart[OF fs1(3,2)])
    fix a assume "in_rng data 4 a"
    then have "in_rng data 5 a" by (rule in_rng_mono) simp
    then show "\<not> in_image ?s1 a" using out[of a] by (simp add: in_image_def image_size_def)
  qed
  have r: "read_file_bytes_by_name exe data 4 ?s1 = Inr (0, s\<lparr>mem := ?m2\<rparr>)"
    using read_file_eq[OF rd _ ptrs(1), of 4] fs1 ap b(1) by (simp add: inode_wf_def)
  have "?m2 (data + 4) = 0"
    using wr_bytes_out[of data "[b0, b1, b2, b3]" "data + 4" ?m1] by (simp add: in_rng_def)
  then have c2: "cstr ?m2 data [b0, b1, b2, b3]"
    unfolding cstr_iff using b(2) rd_wr_bytes[of "[b0, b1, b2, b3]" ?m1 data] by simp
  have "disjnt_rng buf 3 (data + 1) 3"
  proof -
    have "in_rng (data + 1) 3 a \<Longrightarrow> in_rng data 5 a" for a using in_rng_offset[of data 1 3 a 5] by simp
    moreover have "in_rng buf 3 a \<Longrightarrow> in_rng buf 4 a" for a by (rule in_rng_mono) auto
    ultimately show ?thesis using dj by (auto simp: disjnt_rng_def)
  qed
  then have sub: "snd (substring ?m2 data buf 1 4) = ?m3"
    using substring_cstr[OF c2 _ ptrs(1,2), of 1 4] by simp
  have cb: "cstr ?m3 buf [b1, b2, b3]"
    using cstr_wr_bytes[of "[b1, b2, b3]" ?m2 buf] b(2) by simp
  have "cstr ?m3 elf (asc ''ELF'')"
  proof (rule iffD1[OF cstr_cong elf])
    fix a assume "in_rng elf (Suc (length (asc ''ELF''))) a"
    then have "in_rng elf 4 a" by (simp add: asc_def numeral_eq_Suc)
    then show "mem s a = ?m3 a" using out m3 by metis
  qed (simp add: asc_def)
  then have "string_equal ?m3 buf elf = Some (if [b1, b2, b3] = asc ''ELF'' then 1 else 0)"
    using cb ptrs(2,3) by (intro string_equal_cstr)
  with r sub have "is_executable data buf elf exe s =
      Some (Inr (if [b1, b2, b3] = asc ''ELF'' then 1 else 0, s\<lparr>mem := ?m3\<rparr>))"
    by (simp add: is_executable_def Let_def)
  with m3 show ?thesis by blast
qed

text \<open>
  C23: \<open>is_executable\<close> answers 1 on a file whose second to fourth bytes spell ELF, 0 on one that starts
  with four other nonzero bytes and 0 on a name that does not exist; it writes only its local
  arrays. The first byte of the magic number is not checked: it may be any byte but 0. This is how
  \<open>execute\<close> uses the answer; the test of it in \<^verbatim>\<open>checkpoint2.c\<close> takes 0 for a failure and a
  negative number for a file that is not executable.
\<close>

theorem is_executable_spec:
  assumes "fs_wf s" "cstr (mem s) exe str"
    and "cstr (mem s) elf (asc ''ELF'')" "exec_frame data buf elf exe str s"
  shows "(read_dentry_by_name exe s = Inr None \<longrightarrow>
      is_executable data buf elf exe s = Some (Inr (0, s\<lparr>mem := (mem s)(data + 4 := 0)\<rparr>))) \<and>
    (\<forall>d b0 b1 b2 b3. read_dentry_by_name exe s = Inr (Some d) \<and> inode_wf (inode_index d) s \<and>
        take 4 (file_contents (inode_index d) s) = [b0, b1, b2, b3] \<and> 0 \<notin> {b0, b1, b2, b3} \<longrightarrow>
      (\<exists>t. is_executable data buf elf exe s = Some (Inr (if [b1, b2, b3] = asc ''ELF'' then 1 else 0, t)) \<and>
        (\<exists>m. t = s\<lparr>mem := m\<rparr> \<and> (\<forall>a. \<not> in_rng data 5 a \<and> \<not> in_rng buf 4 a \<longrightarrow> m a = mem s a))))"
proof -
  let ?s1 = "s\<lparr>mem := (mem s)(data + 4 := 0)\<rparr>"
  have nr: "\<not> in_rng exe (Suc (length str)) (data + 4)" and ln: "length str < 4294967296"
    using assms(4) in_rng_last[of 4 data] unfolding exec_frame_def by simp_all
  have "mem ?s1 a = mem s a" if "in_rng exe (Suc (length str)) a" for a
    using that nr by (cases "a = data + 4") simp_all
  then have "read_dentry_by_name exe ?s1 = read_dentry_by_name exe s"
    using assms(1,2) ln by (intro read_dentry_cong(1)[of ?s1 s exe str]) (simp_all add: fs_wf_def)
  then have "is_executable data buf elf exe s = Some (Inr (0, ?s1))" if "read_dentry_by_name exe s = Inr None"
    using that by (simp add: is_executable_def read_file_bytes_by_name_def Let_def)
  then show ?thesis
    by (intro conjI impI allI; (elim conjE)?) (assumption | rule is_executable_data[OF assms] | simp)+
qed

section \<open>Witnesses\<close>

text \<open>
  An image at \<^verbatim>\<open>0x500000\<close> with one inode and one data block that holds 28 bytes, all 63
  entries naming it; the string at 4096 is the name, the literal ELF is at 8192.
\<close>

definition demo_dentry :: dentry where
  "demo_dentry = \<lparr>name = asc ''prog'' @ replicate 28 0, file_type = 2, inode_index = 0,
    reserved = replicate 24 0\<rparr>"

definition demo_file :: bytes where
  "demo_file = [127, 69, 76, 70, 1, 1, 1, 0] @ replicate 16 0 @ [0x74, 0x80, 0x04, 0x08]"

lemma length_demo_file: "length demo_file = 28"
  by (simp add: demo_file_def)

definition demo_fs_mem :: mem where
  "demo_fs_mem = wr_bytes (wr_bytes (wr_bytes (st32 (\<lambda>_. 0) 0x501000 28) 0x502000 demo_file)
    4096 (asc ''prog'' @ [0])) 8192 (asc ''ELF'' @ [0])"

definition demo_fs :: filesys where
  "demo_fs = (paging.extend demo_paging (filesys.fields 0x500000
     \<lparr>dentry_count = 1, inode_count = 1, data_count = 1, dentries = replicate 63 demo_dentry\<rparr> 0))
     \<lparr>mem := demo_fs_mem\<rparr>"

lemma demo_fs_fields [simp]:
  "mem demo_fs = demo_fs_mem" "filesys_addr demo_fs = 0x500000" "dr_index demo_fs = 0"
  "boot_block demo_fs = \<lparr>dentry_count = 1, inode_count = 1, data_count = 1, dentries = replicate 63 demo_dentry\<rparr>"
  by (simp_all add: demo_fs_def paging.defs filesys.defs)

lemma demo_strings:
  "cstr demo_fs_mem 4096 (asc ''prog'')" "cstr demo_fs_mem 8192 (asc ''ELF'')"
  by (simp_all add: demo_fs_mem_def wr_bytes_def st32_def asc_def of_char_def)

lemma demo_ld: "ld32 demo_fs_mem 0x501000 = 28" "ld32 demo_fs_mem 0x501004 = 0"
  by (simp_all add: ld32_def demo_fs_mem_def wr_bytes_def st32_def le_bytes4_def asc_def demo_file_def)

lemma demo_inode: "length_of (load_inode demo_fs_mem (inode_addr 0 demo_fs)) = 28"
  "data_indices (load_inode demo_fs_mem (inode_addr 0 demo_fs)) ! 0 = 0"
  by (simp_all add: load_inode_def inode_addr_def demo_ld)

lemma demo_fs_ok: "fs_wf demo_fs" "inode_wf 0 demo_fs" "image_size demo_fs = 12288"
  by (auto simp: fs_wf_def boot_ok_def demo_dentry_def asc_def image_size_def inode_wf_def inode_ok_def demo_inode)

lemma demo_contents: "file_contents 0 demo_fs = demo_file"
proof -
  have "data_addr (data_base demo_fs) (load_inode demo_fs_mem (inode_addr 0 demo_fs)) (of_nat p) =
      0x502000 + of_nat p" if "p < 28" for p
  proof -
    have "(of_nat p :: u32) AND 0xFFF = of_nat p"
      unfolding page_masks(3) using that by (intro less_mask_eq) (simp add: word_less_nat_alt)
    then show ?thesis using that demo_inode(2)
      by (simp add: data_addr_def data_base_def drop_low_bits)
  qed
  moreover have "demo_fs_mem (0x502000 + of_nat p) = demo_file ! p" if "p < 28" for p
  proof -
    have u: "unat (0x502000 + of_nat p :: u32) = 0x502000 + p" using that by (simp add: unat_word_ariths)
    have "wr_bytes m 0x502000 demo_file (0x502000 + of_nat p) = demo_file ! p" for m
      using that by (intro wr_bytes_in) (simp_all add: length_demo_file)
    then show ?thesis
      by (simp add: demo_fs_mem_def wr_bytes_out in_rng_unat u asc_def)
  qed
  ultimately show ?thesis
    by (intro nth_equalityI) (simp_all add: file_contents_def contents_def demo_inode length_demo_file)
qed

lemma demo_apart: "(\<And>a. in_rng p n a \<Longrightarrow> \<not> in_image demo_fs a)" if "disjnt_rng p n 0x500000 12288"
  using that disjnt_rngD1 by (auto simp: in_image_def demo_fs_ok(3))

theorem read_dentry_by_name_spec_witness:
  "read_dentry_by_name 4096 demo_fs = Inr (Some demo_dentry)"
proof -
  have "named (asc ''prog'') demo_dentry"
    by (simp add: named_def dname_def demo_dentry_def asc_def of_char_def)
  then show ?thesis
    using read_dentry_by_name_spec[of demo_fs 4096 "asc ''prog''"] demo_fs_ok(1) demo_strings(1)
    by (auto simp: fs_wf_def asc_def intro!: exI[of _ 0])
qed

theorem read_data_spec_witness:
  "\<exists>t. read_data 0 25 0x600000 100 demo_fs = Inr (3, t) \<and> rd_bytes (mem t) 0x600000 3 = [0x80, 4, 8]"
proof -
  have "disjnt_rng 0x600000 100 0x500000 12288" by (rule disjnt_rng_sym, rule disjnt_rng_below) simp_all
  then have "buffer_apart 0 0x600000 (unat (100 :: u32)) demo_fs"
    using demo_fs_ok(1,2) demo_apart by (intro image_buffer_apart) simp_all
  then have "read_data 0 25 0x600000 100 demo_fs =
      Inr (3, demo_fs\<lparr>mem := wr_bytes demo_fs_mem 0x600000 [0x80, 4, 8]\<rparr>)"
    using read_data_spec[of demo_fs 0 "0x600000" 25 100] demo_fs_ok(2)
    by (simp add: inode_wf_def demo_contents demo_file_def)
  moreover have "rd_bytes (wr_bytes demo_fs_mem 0x600000 [0x80, 4, 8]) 0x600000 (length [0x80, 4, 8 :: u8]) = [0x80, 4, 8]"
    by (rule rd_wr_bytes) simp
  then have "rd_bytes (wr_bytes demo_fs_mem 0x600000 [0x80, 4, 8]) 0x600000 3 = [0x80, 4, 8]" by (simp add: numeral_3_eq_3)
  ultimately show ?thesis by simp
qed

theorem list_dir_complete_witness: "list_dir 2 demo_fs = Inr ([Some demo_dentry, None], demo_fs)"
  using list_dir_complete[of demo_fs] demo_fs_ok(1) by (simp add: fs_wf_def numeral_2_eq_2)

theorem dir_read_spec_witness:
  "\<exists>t. dir_read 2 0x600000 32 demo_fs = Inr (32, t) \<and> dr_index t = 1"
  using dir_read_spec[of demo_fs 32 "0x600000" 2] demo_fs_ok(1) by (auto simp: fs_wf_def Let_def)

theorem is_executable_spec_witness:
  "\<exists>t. is_executable 0x600000 0x600010 8192 4096 demo_fs = Some (Inr (1, t))"
proof -
  have "disjnt_rng 0x600000 5 0x500000 12288" "disjnt_rng 0x600010 4 0x500000 12288"
    "disjnt_rng 0x600000 5 8192 4" "disjnt_rng 0x600010 4 8192 4"
    "disjnt_rng 0x600000 5 4096 5" "disjnt_rng 0x600010 4 4096 5"
    by (rule disjnt_rng_sym, rule disjnt_rng_below; simp)+
  moreover have "disjnt_rng 0x600000 5 0x600010 4" by (rule disjnt_rng_below) simp_all
  moreover have l: "Suc (length (asc ''prog'')) = 5" "length (asc ''prog'') < 4294967295" by (simp_all add: asc_def)
  ultimately have fr: "exec_frame 0x600000 0x600010 8192 4096 (asc ''prog'') demo_fs"
    unfolding exec_frame_def in_image_def demo_fs_ok(3) l(1) demo_fs_fields(2)
    by (simp add: disjnt_rng_def)
  have rd: "read_dentry_by_name 4096 demo_fs = Inr (Some demo_dentry)"
  proof -
    have "named (asc ''prog'') demo_dentry"
      by (simp add: named_def dname_def demo_dentry_def asc_def of_char_def)
    then have "lookup_name (asc ''prog'') demo_fs = Some demo_dentry"
      by (simp add: lookup_name_def asc_def)
    then show ?thesis
      using read_dentry_by_name_eq[of demo_fs 4096 "asc ''prog''"] demo_fs_ok(1) demo_strings(1)
      by (simp add: fs_wf_def)
  qed
  have c: "take 4 (file_contents (inode_index demo_dentry) demo_fs) = [127, 69, 76, 70]"
    "inode_wf (inode_index demo_dentry) demo_fs"
    using demo_fs_ok(2) by (simp_all add: demo_dentry_def demo_contents demo_file_def)
  have "[69, 76, 70] = asc ''ELF''" by (simp add: asc_def of_char_def)
  then show ?thesis
    using is_executable_spec[OF demo_fs_ok(1) _ _ fr] demo_strings rd c by fastforce
qed

end
