(* ===== verification/Terminal.thy ===== *)
theory Terminal
  imports Filesys
begin

text \<open>
  The terminal driver of \<^verbatim>\<open>student-distrib/terminal.c\<close> without its interrupt handler: the three
  terminals share one screen, and each has a page of memory that keeps its screen while another
  one is displayed. \<open>terminal_init\<close>, \<open>clear_buffer\<close>, \<open>terminal_open\<close>, \<open>terminal_close\<close>,
  \<open>terminal_write\<close> and \<open>switch_display_terminal\<close>; reading and the keyboard handler need the
  processes and are in a later theory. The local array of \<open>terminal_write\<close> is at the address
  \<open>buffer\<close>, that of \<open>printf\<close> at \<open>conv\<close>.

  The theorems: a terminal that is switched away from and back to shows the screen and cursor it
  had; \<open>terminal_write\<close> prints the bytes of its buffer and counts the ones that are not NUL.
\<close>

section \<open>Operations\<close>

abbreviation (input) MAX_TERMINAL_NUM :: nat where "MAX_TERMINAL_NUM \<equiv> 3"
abbreviation (input) SHELL_OFFSET :: int where "SHELL_OFFSET \<equiv> 7"
abbreviation (input) TERM_MEM :: ptr where "TERM_MEM \<equiv> 0xD0000"
abbreviation (input) PAGE_SIZE_KB :: u32 where "PAGE_SIZE_KB \<equiv> 4096"

definition get_screen_x :: "'a console_scheme \<Rightarrow> int" where
  "get_screen_x s = screen_x s"

definition get_screen_y :: "'a console_scheme \<Rightarrow> int" where
  "get_screen_y s = screen_y s"

definition set_screen_x :: "int \<Rightarrow> 'a console_scheme \<Rightarrow> 'a console_scheme" where
  "set_screen_x x s = s\<lparr>screen_x := x\<rparr>"

definition set_screen_y :: "int \<Rightarrow> 'a console_scheme \<Rightarrow> 'a console_scheme" where
  "set_screen_y y s = s\<lparr>screen_y := y\<rparr>"

definition get_display_terminal :: "'a sched_vars_scheme \<Rightarrow> u32" where
  "get_display_terminal s = display_terminal s"

text \<open>The row of a terminal in the flat key buffer, filled with NUL byte by byte.\<close>

definition clear_row :: "nat \<Rightarrow> 'a term_vars_scheme \<Rightarrow> 'a term_vars_scheme" where
  "clear_row y s =
    fold (\<lambda>x s. s\<lparr>key_buffer := (key_buffer s)[MAX_BUFF_LENGTH * y + x := 0]\<rparr>) [0..<MAX_BUFF_LENGTH] s"

definition clear_buffer :: "'a term_vars_scheme \<Rightarrow> fault + int \<times> 'a term_vars_scheme" where
  "clear_buffer s =
    (let d = unat (display_terminal s)
     in if d \<ge> MAX_TERMINAL_NUM then Inl Out_Of_Bounds
        else let s = clear_row d s;
                 s = s\<lparr>key_index := (key_index s)[d := 0]\<rparr>
             in Inr (0, s))"

definition terminal_init :: "'a console_scheme \<Rightarrow> fault + 'a console_scheme" where
  "terminal_init s =
    (let s = clear s
     in case clear_buffer s of
          Inl f \<Rightarrow> Inl f
        | Inr (_, s) \<Rightarrow>
           (let s = enable_irq 1 s;
                s = s\<lparr>R_shift_check := 0, L_shift_check := 0, ctrl_check := 0, capslock_check := 0,
                      alt_check := 0, enter_down := 0, table_index := 0, current_line := 0,
                      wrapped := 0, clear_offset := (clear_offset s)[0 := 0, 1 := 0, 2 := 0],
                      shell_check := 0\<rparr>;
                s = fold clear_row [0..<MAX_TERMINAL_NUM] s;
                s = fold (\<lambda>x s. s\<lparr>last_screen_x := (last_screen_x s)[x := 0],
                      last_screen_y := (last_screen_y s)[x := 0]\<rparr>) [0..<MAX_TERMINAL_NUM] s
            in Inr (update_cursor SHELL_OFFSET 0 s)))"

definition set_term_process :: "int \<Rightarrow> 'a sched_vars_scheme \<Rightarrow> fault + 'a sched_vars_scheme" where
  "set_term_process pid s =
    (if pid < 0 \<or> pid \<ge> 6 then Inl Out_Of_Bounds
     else Inr (s\<lparr>term_procs := (term_procs s)[nat pid := sint (display_terminal s)]\<rparr>))"

definition remove_term_process :: "int \<Rightarrow> 'a sched_vars_scheme \<Rightarrow> fault + 'a sched_vars_scheme" where
  "remove_term_process pid s =
    (if pid < 0 \<or> pid \<ge> 6 then Inl Out_Of_Bounds
     else Inr (s\<lparr>term_procs := (term_procs s)[nat pid := - 1]\<rparr>))"

definition get_term_vid_addr ::
  "ptr \<Rightarrow> u32 \<Rightarrow> 'a console_scheme \<Rightarrow> (fault + u32 \<times> 'a console_scheme) option" where
  "get_term_vid_addr conv term s =
    (if term > 2 then fbind (printf conv (asc ''Failure!'') [] s) (\<lambda>(_, s). Some (Inr (- 1, s)))
     else Some (Inr (TERM_MEM + PAGE_SIZE_KB * term, s)))"

definition terminal_open :: "ptr \<Rightarrow> 'a machine_scheme \<Rightarrow> int \<times> 'a machine_scheme" where
  "terminal_open filename s = (0, s)"

definition terminal_close :: "int \<Rightarrow> 'a machine_scheme \<Rightarrow> int \<times> 'a machine_scheme" where
  "terminal_close fd s = (if fd = 0 \<or> fd = 1 then (- 1, s) else (0, disable_irq 1 s))"

text \<open>One turn of the loop of \<open>terminal_write\<close> on the byte at index \<open>x\<close>.\<close>

definition write_char :: "nat \<Rightarrow> u8 \<Rightarrow> int \<times> 'a console_scheme \<Rightarrow> int \<times> 'a console_scheme" where
  "write_char x c = (\<lambda>(count, s).
    let s = (if x mod 80 = 0 \<and> x \<noteq> 0 \<and> get_screen_y s + 1 = NUM_ROWS
             then scroll_handle (set_screen_y (get_screen_y s + 1) s)
             else if x mod 80 = 0 \<and> x \<noteq> 0 then wrap_around s
             else s)
    in if c \<noteq> 0 then (count + 1, putc c s) else (count, s))"

definition terminal_write ::
  "ptr \<Rightarrow> int \<Rightarrow> ptr \<Rightarrow> int \<Rightarrow> 'a console_scheme \<Rightarrow> int \<times> 'a console_scheme" where
  "terminal_write buffer fd buf nbytes s =
    (let s = fold (\<lambda>x s. poke (buffer + of_nat x) 0 s) [0..<nat nbytes] s
     in if buf = NULL \<or> nbytes \<le> 0 then (- 1, s)
        else let s = s\<lparr>mem := snd (copy_buf (mem s) buf buffer (word_of_int nbytes))\<rparr>
             in fold (\<lambda>x (count, s). write_char x (mem s (buffer + of_nat x)) (count, s))
                  [0..<nat nbytes] (0, s))"

definition switch_display_terminal ::
  "ptr \<Rightarrow> u32 \<Rightarrow> 'a console_scheme \<Rightarrow> (fault + u32 \<times> 'a console_scheme) option" where
  "switch_display_terminal conv term s =
    (let cur_term = display_terminal s
     in if unat cur_term \<ge> MAX_TERMINAL_NUM then Some (Inl Out_Of_Bounds)
        else
        let s = s\<lparr>last_screen_x := (last_screen_x s)[unat cur_term := get_screen_x s]\<rparr>;
            s = s\<lparr>last_screen_y := (last_screen_y s)[unat cur_term := get_screen_y s]\<rparr>
        in fbind (get_term_vid_addr conv cur_term s) (\<lambda>(cold, s).
           let s = s\<lparr>mem := memcpy (mem s) cold VIDEO PAGE_SIZE_KB\<rparr>
           in fbind (get_term_vid_addr conv term s) (\<lambda>(cold, s).
              let s = s\<lparr>mem := memcpy (mem s) VIDEO cold PAGE_SIZE_KB\<rparr>
              in if unat term \<ge> MAX_TERMINAL_NUM then Some (Inl Out_Of_Bounds)
                 else let s = s\<lparr>display_terminal := term\<rparr>;
                          s = set_screen_x (last_screen_x s ! unat term) s;
                          s = set_screen_y (last_screen_y s ! unat term) s;
                          s = update_cursor (last_screen_x s ! unat term) (last_screen_y s ! unat term) s
                      in Some (Inr (0, s)))))"

section \<open>The pages of the terminals\<close>

definition term_page :: "nat \<Rightarrow> ptr" where
  "term_page t = TERM_MEM + of_nat (4096 * t)"

lemma get_term_vid_addr_eq:
  "term \<le> 2 \<Longrightarrow> get_term_vid_addr conv term s = Some (Inr (term_page (unat term), s))"
  by (auto simp: get_term_vid_addr_def term_page_def)

lemma unat_term_page: "t < 3 \<Longrightarrow> unat (term_page t) = 0xD0000 + 4096 * t"
proof -
  assume "t < 3"
  then have "0xD0000 + 4096 * t < 4294967296" by simp
  then have "unat (of_nat (0xD0000 + 4096 * t) :: u32) = 0xD0000 + 4096 * t" by (rule unat_of_nat32)
  then show ?thesis by (simp add: term_page_def)
qed

lemma term_page_disjnt:
  "t < 3 \<Longrightarrow> disjnt_rng (term_page t) 4096 VIDEO 4096"
  "t < 3 \<Longrightarrow> disjnt_rng VIDEO 4096 (term_page t) 4096"
  "t < 3 \<Longrightarrow> r < 3 \<Longrightarrow> t \<noteq> r \<Longrightarrow> disjnt_rng (term_page t) 4096 (term_page r) 4096"
proof -
  show v: "disjnt_rng VIDEO 4096 (term_page t) 4096" if "t < 3" for t
    by (rule disjnt_rng_below) (use that in \<open>simp_all add: unat_term_page\<close>)
  show "disjnt_rng (term_page t) 4096 VIDEO 4096" if "t < 3" for t
    using v[OF that] by (rule disjnt_rng_sym)
  have lt: "disjnt_rng (term_page t) 4096 (term_page r) 4096" if "r < 3" "t < r" for t r
    by (rule disjnt_rng_below) (use that in \<open>simp_all add: unat_term_page\<close>)
  show "disjnt_rng (term_page t) 4096 (term_page r) 4096" if "t < 3" "r < 3" "t \<noteq> r"
    using that lt[of r t] lt[of t r] disjnt_rng_sym by (cases "t < r") auto
qed

text \<open>The screen that is kept for terminal \<open>t\<close>, and the one on display.\<close>

abbreviation (input) kept :: "nat \<Rightarrow> 'a machine_scheme \<Rightarrow> bytes" where
  "kept t s \<equiv> rd_bytes (mem s) (term_page t) 4096"

abbreviation (input) shown :: "'a machine_scheme \<Rightarrow> bytes" where
  "shown s \<equiv> rd_bytes (mem s) VIDEO 4096"

definition term_wf :: "'a term_vars_scheme \<Rightarrow> bool" where
  "term_wf s \<longleftrightarrow> unat (display_terminal s) < 3 \<and> length (key_buffer s) = 384 \<and>
    length (key_index s) = 3 \<and> length (clear_offset s) = 3 \<and>
    length (last_screen_x s) = 3 \<and> length (last_screen_y s) = 3"

lemma page_copy:
  assumes "disjnt_rng d 4096 p 4096"
  shows "rd_bytes (memcpy m d p 4096) d 4096 = rd_bytes m p 4096"
    and "disjnt_rng d 4096 q 4096 \<Longrightarrow> rd_bytes (memcpy m d p 4096) q 4096 = rd_bytes m q 4096"
    and "\<not> in_rng d 4096 a \<Longrightarrow> memcpy m d p 4096 a = m a"
  using mc.copy_delivers[OF assms, of m] mc.copy_keeps_other[OF assms, of q 4096 m]
    mc.copy_frame[OF assms, of a m]
  by simp_all

lemma switch_display_eq:
  assumes "term_wf s" "unat term < 3"
  shows "\<exists>t. switch_display_terminal conv term s = Some (Inr (0, t)) \<and>
    t = s\<lparr>mem := mem t, io_trace := io_trace t, display_terminal := term,
         last_screen_x := (last_screen_x s)[unat (display_terminal s) := screen_x s],
         last_screen_y := (last_screen_y s)[unat (display_terminal s) := screen_y s],
         screen_x := (last_screen_x s)[unat (display_terminal s) := screen_x s] ! unat term,
         screen_y := (last_screen_y s)[unat (display_terminal s) := screen_y s] ! unat term\<rparr> \<and>
    io_trace t = cursor_writes (screen_x t) (screen_y t) @ io_trace s \<and>
    mem t = memcpy (memcpy (mem s) (term_page (unat (display_terminal s))) VIDEO 4096) VIDEO
      (term_page (unat term)) 4096"
proof -
  have b: "display_terminal s \<le> 2" "term \<le> 2"
    using assms by (simp_all add: term_wf_def word_le_nat_alt)
  then show ?thesis
    using assms by (simp add: switch_display_terminal_def get_term_vid_addr_eq fbind_def
        get_screen_x_def get_screen_y_def set_screen_x_def set_screen_y_def update_cursor_eq
        term_wf_def not_le Let_def)
qed

lemma switch_display_mem:
  assumes "term_wf s" "unat b < 3" "b \<noteq> display_terminal s"
  shows "\<exists>t. switch_display_terminal conv b s = Some (Inr (0, t)) \<and> term_wf t \<and>
    display_terminal t = b \<and> shown t = kept (unat b) s \<and>
    kept (unat (display_terminal s)) t = shown s \<and>
    (\<forall>r < 3. r \<noteq> unat (display_terminal s) \<longrightarrow> kept r t = kept r s) \<and>
    last_screen_x t = (last_screen_x s)[unat (display_terminal s) := screen_x s] \<and>
    last_screen_y t = (last_screen_y s)[unat (display_terminal s) := screen_y s] \<and>
    screen_x t = last_screen_x s ! unat b \<and> screen_y t = last_screen_y s ! unat b \<and>
    io_trace t = cursor_writes (screen_x t) (screen_y t) @ io_trace s \<and>
    video_mem t = video_mem s"
proof -
  let ?a = "unat (display_terminal s)"
  have a: "?a < 3" and ne: "?a \<noteq> unat b"
    using assms by (simp_all add: term_wf_def word_unat_eq_iff)
  obtain t where sw: "switch_display_terminal conv b s = Some (Inr (0, t))"
    and t: "t = s\<lparr>mem := mem t, io_trace := io_trace t, display_terminal := b,
         last_screen_x := (last_screen_x s)[?a := screen_x s],
         last_screen_y := (last_screen_y s)[?a := screen_y s],
         screen_x := (last_screen_x s)[?a := screen_x s] ! unat b,
         screen_y := (last_screen_y s)[?a := screen_y s] ! unat b\<rparr>"
    and io: "io_trace t = cursor_writes (screen_x t) (screen_y t) @ io_trace s"
    and m: "mem t = memcpy (memcpy (mem s) (term_page ?a) VIDEO 4096) VIDEO (term_page (unat b)) 4096"
    using switch_display_eq[OF assms(1,2)] by blast
  note d = term_page_disjnt
  note c1 = page_copy[OF d(1)[OF a], where m = "mem s"]
  note c2 = page_copy[OF d(2)[OF assms(2)], where m = "memcpy (mem s) (term_page ?a) VIDEO 4096"]
  have "shown t = kept (unat b) s"
    unfolding m c2(1) by (rule c1(2)) (rule d(3)[OF a assms(2) ne])
  moreover have "kept ?a t = shown s"
    unfolding m by (subst c2(2)[OF d(2)[OF a]]) (rule c1(1))
  moreover have "kept r t = kept r s" if "r < 3" "r \<noteq> ?a" for r
    unfolding m using that by (subst c2(2)[OF d(2)]) (auto intro!: c1(2) d(3)[OF a])
  moreover have f: "display_terminal t = b" "term_wf t" "video_mem t = video_mem s"
    "last_screen_x t = (last_screen_x s)[?a := screen_x s]" "screen_x t = last_screen_x s ! unat b"
    "last_screen_y t = (last_screen_y s)[?a := screen_y s]" "screen_y t = last_screen_y s ! unat b"
    using assms(1,2) ne by (subst t, simp add: term_wf_def)+
  ultimately show ?thesis using sw io by blast
qed

text \<open>
  C28: switching terminals. A switch from the displayed terminal to another one completes without
  a fault, shows the screen kept for the other with its cursor, and keeps the screen and the
  cursor of the one left, without touching the third. Whatever happens to the screen, the cursor
  and all other memory while the other terminal is displayed, switching back shows exactly the
  screen that was left, with both cursors where they were, as long as nothing writes the page
  that keeps it.
\<close>

theorem switch_display_roundtrip:
  fixes s :: "'a console_scheme"
  assumes "term_wf s" "unat b < 3" "b \<noteq> display_terminal s"
  shows "\<exists>t. switch_display_terminal conv b s = Some (Inr (0, t)) \<and> display_terminal t = b \<and>
    shown t = kept (unat b) s \<and> screen_x t = last_screen_x s ! unat b \<and>
    screen_y t = last_screen_y s ! unat b \<and>
    (\<forall>r < 3. r \<noteq> unat (display_terminal s) \<longrightarrow> kept r t = kept r s) \<and>
    (\<forall>u :: 'a console_scheme. term_wf u \<and> display_terminal u = b \<and> last_screen_x u = last_screen_x t \<and>
        last_screen_y u = last_screen_y t \<and>
        kept (unat (display_terminal s)) u = kept (unat (display_terminal s)) t \<longrightarrow>
      (\<exists>v. switch_display_terminal conv (display_terminal s) u = Some (Inr (0, v)) \<and>
        display_terminal v = display_terminal s \<and> shown v = shown s \<and>
        screen_x v = screen_x s \<and> screen_y v = screen_y s \<and>
        kept (unat b) v = shown u \<and>
        (on_screen s \<longrightarrow> hw_cursor v = nat (screen_y s * 80 + screen_x s))))"
proof -
  let ?a = "display_terminal s"
  have a: "unat ?a < 3" "?a \<noteq> b" and len: "length (last_screen_x s) = 3" "length (last_screen_y s) = 3"
    using assms by (auto simp: term_wf_def)
  obtain t where t: "switch_display_terminal conv b s = Some (Inr (0, t))" "display_terminal t = b"
    "shown t = kept (unat b) s" "kept (unat ?a) t = shown s"
    "\<forall>r < 3. r \<noteq> unat ?a \<longrightarrow> kept r t = kept r s"
    "last_screen_x t = (last_screen_x s)[unat ?a := screen_x s]"
    "last_screen_y t = (last_screen_y s)[unat ?a := screen_y s]"
    "screen_x t = last_screen_x s ! unat b" "screen_y t = last_screen_y s ! unat b"
    using switch_display_mem[OF assms, of conv] by blast
  have "\<exists>v. switch_display_terminal conv ?a u = Some (Inr (0, v)) \<and> display_terminal v = ?a \<and>
      shown v = shown s \<and> screen_x v = screen_x s \<and> screen_y v = screen_y s \<and> kept (unat b) v = shown u \<and>
      (on_screen s \<longrightarrow> hw_cursor v = nat (screen_y s * 80 + screen_x s))"
    if u: "term_wf u" "display_terminal u = b" "last_screen_x u = last_screen_x t"
      "last_screen_y u = last_screen_y t" "kept (unat ?a) u = kept (unat ?a) t" for u :: "'a console_scheme"
  proof -
    obtain v where v: "switch_display_terminal conv ?a u = Some (Inr (0, v))" "display_terminal v = ?a"
      "shown v = kept (unat ?a) u" "kept (unat b) v = shown u"
      "screen_x v = last_screen_x u ! unat ?a" "screen_y v = last_screen_y u ! unat ?a"
      "io_trace v = cursor_writes (screen_x v) (screen_y v) @ io_trace u"
      using switch_display_mem[OF u(1) a(1), of conv] a(2) u(2) by auto
    have xy: "screen_x v = screen_x s" "screen_y v = screen_y s"
      using v(5,6) u(3,4) t(6,7) a(1) len by simp_all
    have "hw_cursor v = hw_cursor (update_cursor (screen_x s) (screen_y s) u)"
      by (simp add: hw_cursor_def v(7) xy update_cursor_eq)
    then have "on_screen s \<longrightarrow> hw_cursor v = nat (screen_y s * 80 + screen_x s)"
      by (simp add: on_screen_def hw_cursor_update)
    with v xy u(5) t(4) show ?thesis by auto
  qed
  with t show ?thesis by blast
qed

section \<open>Writing to the screen\<close>

text \<open>
  The specification of one byte: a line break before every 80th byte of the request, whatever the
  column, then the character, and NUL is skipped.
\<close>

definition grid_write :: "nat \<Rightarrow> u8 \<Rightarrow> display \<Rightarrow> display" where
  "grid_write x c d =
    (let d = (if x mod 80 = 0 \<and> x \<noteq> 0 then grid_putc 10 d else d)
     in if c \<noteq> 0 then grid_putc c d else d)"

lemma line_break_putc:
  assumes "on_screen s"
  shows "(if get_screen_y s + 1 = NUM_ROWS
      then scroll_handle (set_screen_y (get_screen_y s + 1) s) else wrap_around s) = putc 10 s"
  using assms by (auto simp: putc_def get_screen_y_def set_screen_y_def wrap_around_def on_screen_def Let_def
      scroll_handle_eq)

lemma write_char_eq:
  assumes "on_screen s"
  shows "write_char x c (n, s) =
    (let t = (if x mod 80 = 0 \<and> x \<noteq> 0 then putc 10 s else s)
     in if c \<noteq> 0 then (n + 1, putc c t) else (n, t))"
  using line_break_putc[OF assms] by (auto simp: write_char_def Let_def split: if_splits)

lemma write_char_step:
  assumes "on_screen s" "get_key_index s < 128"
  shows "\<exists>t. write_char x c (n, s) = (n + (if c \<noteq> 0 then 1 else 0), t) \<and> on_screen t \<and>
    screen_step 4000 s t \<and> display t = grid_write x c (display s)"
proof -
  define t where "t = (if x mod 80 = 0 \<and> x \<noteq> 0 then putc 10 s else s)"
  have t: "on_screen t" "screen_step 4000 s t"
    "display t = (if x mod 80 = 0 \<and> x \<noteq> 0 then grid_putc 10 (display s) else display s)"
    using putc_step(3,4)[OF on_near] display_putc assms by (auto simp: t_def)
  then have "get_key_index t < 128" using assms(2) screen_stepD(4) by metis
  with t have "on_screen (putc c t)" "screen_step 4000 s (putc c t)" "display (putc c t) = grid_putc c (display t)"
    using putc_step(3,4)[OF on_near] display_putc screen_step_trans by blast+
  with t show ?thesis
    unfolding write_char_eq[OF assms(1)] t_def[symmetric] by (auto simp: grid_write_def Let_def)
qed

lemma write_loop_eq:
  assumes "on_screen s" "get_key_index s < 128" "disjnt_rng (video_mem s) 4000 buffer n" "n < 4294967296"
    and "\<And>i. i < n \<Longrightarrow> mem s (buffer + of_nat i) = bs ! i" "k \<le> n"
  shows "\<exists>t. fold (\<lambda>x (count, s). write_char x (mem s (buffer + of_nat x)) (count, s)) [0..<k] (0, s) =
      (int (length (filter (\<lambda>c. c \<noteq> 0) (map ((!) bs) [0..<k]))), t) \<and> on_screen t \<and>
    screen_step 4000 s t \<and> display t = fold (\<lambda>x. grid_write x (bs ! x)) [0..<k] (display s)"
  using assms(6)
proof (induction k)
  case (Suc k)
  then obtain t where t: "fold (\<lambda>x (count, s). write_char x (mem s (buffer + of_nat x)) (count, s)) [0..<k] (0, s) =
      (int (length (filter (\<lambda>c. c \<noteq> 0) (map ((!) bs) [0..<k]))), t)" "on_screen t" "screen_step 4000 s t"
    "display t = fold (\<lambda>x. grid_write x (bs ! x)) [0..<k] (display s)"
    by auto
  have "in_rng buffer n (buffer + of_nat k)" using Suc.prems assms(4) by (intro in_rngI) auto
  then have m: "mem t (buffer + of_nat k) = bs ! k"
    using screen_stepD(5)[OF t(3)] disjnt_rngD2[OF assms(3)] assms(5)[of k] Suc.prems by simp
  have "get_key_index t < 128" using assms(2) screen_stepD(4)[OF t(3)] by simp
  then obtain u where u: "write_char k (bs ! k) (int (length (filter (\<lambda>c. c \<noteq> 0) (map ((!) bs) [0..<k]))), t) =
      (int (length (filter (\<lambda>c. c \<noteq> 0) (map ((!) bs) [0..<k]))) + (if bs ! k \<noteq> 0 then 1 else 0), u)"
    "on_screen u" "screen_step 4000 t u" "display u = grid_write k (bs ! k) (display t)"
    using write_char_step[OF t(2)] by blast
  with t m screen_step_trans[OF t(3) u(3)] show ?case by simp
qed (use assms(1) in simp)

lemma fold_poke_zero:
  "fold (\<lambda>x s. poke (buffer + of_nat x) 0 s) [0..<n] s =
    s\<lparr>mem := fold (\<lambda>x m. m(buffer + of_nat x := 0)) [0..<n] (mem s)\<rparr>"
  by (induction n) (simp_all add: poke_def del: fun_upd_apply)

lemma fold_zero_out:
  "\<not> in_rng buffer n a \<Longrightarrow> n \<le> 4294967296 \<Longrightarrow>
    fold (\<lambda>x m. m(buffer + of_nat x := 0)) [0..<n] m a = (m :: mem) a"
proof (induction n)
  case (Suc n)
  then have "a \<noteq> buffer + of_nat n" "\<not> in_rng buffer n a"
    using in_rngI[of n "Suc n" buffer] by (auto dest: in_rng_mono[of _ n _ "Suc n"])
  with Suc show ?case by simp
qed simp

lemma display_cong:
  assumes "video_mem t = video_mem s" "screen_x t = screen_x s" "screen_y t = screen_y s"
    and "\<And>a. in_rng (video_mem s) 4000 a \<Longrightarrow> mem t a = mem s a"
  shows "display t = display s"
proof -
  have "in_rng (video_mem s) 4000 (at (video_mem s) r c)" if "r < 25" "c < 80" for r c
    using at_off[OF that] that by (simp add: in_rng_def)
  with assms show ?thesis by (simp add: display_def glyphs_def)
qed

lemma terminal_write_eq:
  assumes "on_screen s" "get_key_index s < 128" "0 < n" "n < 2147483648" "buf \<noteq> NULL" "buffer \<noteq> NULL"
    and "disjnt_rng (video_mem s) 4000 buffer n" "disjnt_rng buffer n buf n"
  shows "\<exists>t. terminal_write buffer fd buf (int n) s =
      (int (length (filter (\<lambda>c. c \<noteq> 0) (rd_bytes (mem s) buf n))), t) \<and> on_screen t \<and>
    display t = fold (\<lambda>x. grid_write x (rd_bytes (mem s) buf n ! x)) [0..<n] (display s) \<and>
    (\<forall>a. \<not> in_rng (video_mem s) 4000 a \<and> \<not> in_rng buffer n a \<longrightarrow> mem t a = mem s a) \<and>
    t = s\<lparr>mem := mem t, io_trace := io_trace t, screen_x := screen_x t, screen_y := screen_y t\<rparr>"
proof -
  define m0 where "m0 = fold (\<lambda>x m. m(buffer + of_nat x := 0)) [0..<n] (mem s)"
  have out: "m0 a = mem s a" if "\<not> in_rng buffer n a" for a
    unfolding m0_def using that assms(4) by (intro fold_zero_out) auto
  have bs: "rd_bytes m0 buf n = rd_bytes (mem s) buf n"
    using assms(4) disjnt_rngD2[OF assms(8)] by (intro rd_bytes_cong out) auto
  let ?bs = "rd_bytes (mem s) buf n"
  have "copy_buf m0 buf buffer (word_of_int (int n)) = (0, copy_buf_mem m0 buffer buf (unat (of_nat n :: u32)))"
    using copy_buf_eq[OF assms(5,6), of m0 "of_nat n"] by simp
  also have "\<dots> = (0, wr_bytes m0 buffer ?bs)"
    using cb.copy_spec[OF assms(8)] assms(4) by (simp add: bs)
  finally have cp: "snd (copy_buf m0 buf buffer (of_nat n)) = wr_bytes m0 buffer ?bs" by simp
  let ?s1 = "s\<lparr>mem := wr_bytes m0 buffer ?bs\<rparr>"
  have s1: "on_screen ?s1" "get_key_index ?s1 < 128" "disjnt_rng (video_mem ?s1) 4000 buffer n"
    using assms by (simp_all add: on_screen_def get_key_index_def)
  have rd: "mem ?s1 (buffer + of_nat i) = ?bs ! i" if "i < n" for i
    using that assms(4) wr_bytes_in[of i ?bs m0 buffer] by simp
  have "n < 4294967296" using assms(4) by simp
  from write_loop_eq[OF s1 this rd order_refl] obtain t where
    t: "fold (\<lambda>x (count, s). write_char x (mem s (buffer + of_nat x)) (count, s)) [0..<n] (0, ?s1) =
      (int (length (filter (\<lambda>c. c \<noteq> 0) (map ((!) ?bs) [0..<n]))), t)" "on_screen t" "screen_step 4000 ?s1 t"
      "display t = fold (\<lambda>x. grid_write x (?bs ! x)) [0..<n] (display ?s1)"
    by blast
  have w: "terminal_write buffer fd buf (int n) s = (int (length (filter (\<lambda>c. c \<noteq> 0) ?bs)), t)"
    using assms(3,5) t(1)[unfolded map_nth[of ?bs, unfolded length_rd_bytes]]
    by (simp add: terminal_write_def fold_poke_zero cp flip: m0_def)
  have m1: "wr_bytes m0 buffer ?bs a = mem s a" if "\<not> in_rng buffer n a" for a
    using out[OF that] that wr_bytes_out[of buffer ?bs a m0] by simp
  have "display ?s1 = display s"
    using m1 disjnt_rngD1[OF assms(7)] by (intro display_cong) auto
  moreover have "mem t a = mem s a" if "\<not> in_rng (video_mem s) 4000 a" "\<not> in_rng buffer n a" for a
    using screen_stepD(5)[OF t(3)] m1 that by simp
  moreover have "t = s\<lparr>mem := mem t, io_trace := io_trace t, screen_x := screen_x t, screen_y := screen_y t\<rparr>"
    using t(3) by (simp add: screen_step_def)
  ultimately show ?thesis using w t by auto
qed


section \<open>Initialisation\<close>

lemma clear_row_eq:
  "length (key_buffer s) = 384 \<Longrightarrow> y < 3 \<Longrightarrow>
    clear_row y s = s\<lparr>key_buffer := take (128 * y) (key_buffer s) @ replicate 128 0 @ drop (128 * y + 128) (key_buffer s)\<rparr>"
proof -
  assume len: "length (key_buffer s) = 384" and y: "y < 3"
  have "fold (\<lambda>x s. s\<lparr>key_buffer := (key_buffer s)[128 * y + x := 0]\<rparr>) [0..<n] s =
      s\<lparr>key_buffer := take (128 * y) (key_buffer s) @ replicate n 0 @ drop (128 * y + n) (key_buffer s)\<rparr>"
    if "n \<le> 128" for n
    using that
  proof (induction n)
    case (Suc n)
    have "drop (128 * y + n) (key_buffer s) = key_buffer s ! (128 * y + n) # drop (128 * y + Suc n) (key_buffer s)"
      using len y Suc.prems by (simp add: Cons_nth_drop_Suc)
    with Suc len y show ?case
      by (simp add: list_update_append replicate_append_same[symmetric])
  qed simp
  then show ?thesis by (simp add: clear_row_def)
qed

lemma clear_rows_eq:
  "length (key_buffer s) = 384 \<Longrightarrow> fold clear_row [0..<3] s = s\<lparr>key_buffer := replicate 384 0\<rparr>"
proof -
  assume len: "length (key_buffer s) = 384"
  have r: "replicate 128 0 @ replicate 128 0 @ replicate 128 0 = replicate 384 (0 :: u8)"
    by (simp flip: replicate_add)
  have "[0..<3] = [0, 1, 2 :: nat]" by (simp add: upt_rec)
  with len r show ?thesis by (simp add: clear_row_eq)
qed

lemma enable_irq_trace: "\<exists>tr. enable_irq n s = s\<lparr>io_trace := tr\<rparr>"
  by (auto simp: enable_irq_def clear_port_bit_def inb_def outb_def Let_def)

text \<open>
  After \<open>terminal_init\<close> the screen and all key buffers are empty, no modifier is held, and the
  hardware cursor stands behind the shell's prompt.
\<close>

lemma terminal_init_state:
  assumes "term_wf s"
  shows "\<exists>t. terminal_init s = Inr t \<and> term_wf t \<and> key_buffer t = replicate 384 0 \<and>
    key_index t = (key_index s)[unat (display_terminal s) := 0] \<and>
    display t = (replicate 25 (replicate 80 0x20), 0, 0) \<and> hw_cursor t = 7 \<and>
    L_shift_check t = 0 \<and> R_shift_check t = 0 \<and> ctrl_check t = 0 \<and> alt_check t = 0 \<and>
    capslock_check t = 0 \<and> enter_down t = 0 \<and> clear_offset t = [0, 0, 0] \<and>
    last_screen_x t = [0, 0, 0] \<and> last_screen_y t = [0, 0, 0] \<and>
    (\<forall>a. \<not> in_rng (video_mem s) 4000 a \<longrightarrow> mem t a = mem s a) \<and>
    console.more t = console.more s \<and> video_mem t = video_mem s \<and> running_procs t = running_procs s \<and>
    term_procs t = term_procs s \<and> display_terminal t = display_terminal s \<and> if_flag t = if_flag s"
proof -
  have wf: "unat (display_terminal s) < 3" "length (key_buffer s) = 384" "length (key_index s) = 3"
    "length (clear_offset s) = 3" "length (last_screen_x s) = 3" "length (last_screen_y s) = 3"
    using assms by (simp_all add: term_wf_def)
  have l3: "xs[0 := 0, Suc 0 := 0, 2 := 0] = [0, 0, 0]" if "length xs = 3" for xs :: "'b :: zero list"
    using that by (auto simp: length_Suc_conv numeral_3_eq_3 numeral_2_eq_2)
  let ?c = "clear s"
  have ct: "?c = s\<lparr>mem := mem ?c, io_trace := io_trace ?c, screen_x := 0, screen_y := 0\<rparr>"
    by (simp add: clear_eq update_cursor_eq)
  have cd: "glyphs (video_mem s) (mem ?c) = replicate 25 (replicate 80 0x20)"
    "\<And>a. \<not> in_rng (video_mem s) 4000 a \<Longrightarrow> mem ?c a = mem s a"
    by (simp add: clear_eq update_cursor_eq glyphs_fill) (simp add: clear_eq update_cursor_eq cell_fill_def in_rng_def)
  obtain tr where tr: "enable_irq 1 (snd (projr (clear_buffer ?c))) = (snd (projr (clear_buffer ?c)))\<lparr>io_trace := tr\<rparr>"
    using enable_irq_trace by blast
  have up: "[0..<3] = [0, 1, 2 :: nat]" by (simp add: upt_rec)
  have cb: "clear_buffer ?c = Inr (0, s\<lparr>mem := mem ?c, io_trace := io_trace ?c, screen_x := 0, screen_y := 0,
      key_buffer := key_buffer (clear_row (unat (display_terminal s)) s),
      key_index := (key_index s)[unat (display_terminal s) := 0]\<rparr>)"
    using wf(1,2) by (subst ct) (simp add: clear_buffer_def clear_row_eq Let_def)
  let ?t = "update_cursor 7 0 (s\<lparr>mem := mem ?c, screen_x := 0, screen_y := 0,
      key_index := (key_index s)[unat (display_terminal s) := 0], io_trace := tr,
      R_shift_check := 0, L_shift_check := 0, ctrl_check := 0, capslock_check := 0,
      alt_check := 0, enter_down := 0, table_index := 0, current_line := 0, wrapped := 0,
      clear_offset := [0, 0, 0], shell_check := 0, key_buffer := replicate 384 0,
      last_screen_x := [0, 0, 0], last_screen_y := [0, 0, 0]\<rparr>)"
  have "terminal_init s = Inr ?t"
    using wf l3 tr by (simp add: terminal_init_def cb clear_rows_eq clear_row_eq) (simp add: up l3)
  moreover have "term_wf ?t" using wf by (simp add: term_wf_def update_cursor_eq)
  moreover have "hw_cursor ?t = 7" by (subst hw_cursor_update) simp_all
  ultimately show ?thesis using cd by (simp add: update_cursor_eq display_def)
qed

section \<open>Witnesses\<close>

lemma demo_console_wf: "term_wf demo_console"
  by (simp add: term_wf_def demo_console_def)

theorem switch_display_roundtrip_witness:
  "\<exists>t v. switch_display_terminal 8192 2 demo_console = Some (Inr (0, t)) \<and>
    switch_display_terminal 8192 0 (t\<lparr>mem := (mem t)(VIDEO := 65), screen_x := 17, screen_y := 2\<rparr>) = Some (Inr (0, v)) \<and>
    screen_x v = 5 \<and> screen_y v = 3 \<and> hw_cursor v = 245 \<and> shown v = shown demo_console"
proof -
  let ?u = "\<lambda>t. t\<lparr>mem := (mem t)(VIDEO := 65), screen_x := 17, screen_y := 2\<rparr> :: console"
  have d: "display_terminal demo_console = 0" by (simp add: demo_console_def)
  have rt: "\<exists>t. switch_display_terminal 8192 2 demo_console = Some (Inr (0, t)) \<and> term_wf t \<and> display_terminal t = 2"
    using switch_display_mem[OF demo_console_wf, of 2 8192] d by auto
  obtain t where t: "switch_display_terminal 8192 2 demo_console = Some (Inr (0, t))" "display_terminal t = 2"
    and rest: "\<forall>u :: console. term_wf u \<and> display_terminal u = 2 \<and> last_screen_x u = last_screen_x t \<and>
        last_screen_y u = last_screen_y t \<and> kept 0 u = kept 0 t \<longrightarrow>
      (\<exists>v. switch_display_terminal 8192 0 u = Some (Inr (0, v)) \<and> display_terminal v = 0 \<and>
        shown v = shown demo_console \<and> screen_x v = 5 \<and> screen_y v = 3 \<and> kept 2 v = shown u \<and> hw_cursor v = 245)"
    using switch_display_roundtrip[OF demo_console_wf, of 2 8192] d demo_console_ok by auto
  have "term_wf t" using rt t(1) by simp
  then have "term_wf (?u t)" by (simp add: term_wf_def)
  moreover have "kept 0 (?u t) = kept 0 t"
    by (rule rd_bytes_cong) (use disjnt_rngD1[OF term_page_disjnt(1), of 0 VIDEO] in auto)
  ultimately obtain v where "switch_display_terminal 8192 0 (?u t) = Some (Inr (0, v))"
      "shown v = shown demo_console" "screen_x v = 5" "screen_y v = 3" "hw_cursor v = 245"
    using rest[rule_format, of "?u t"] t by auto
  with t show ?thesis by blast
qed


end
