(* ===== verification/Process.thy ===== *)
theory Process
  imports Terminal
begin

text \<open>
  Processes: the process table and the process control blocks of \<^verbatim>\<open>student-distrib/syscalls.c\<close>
  and \<^verbatim>\<open>syscalls.h\<close>, the file descriptor table with \<open>open\<close>, \<open>close\<close> and the two operations of
  \<^verbatim>\<open>filesys.c\<close> that go through it, and the scheduler \<^verbatim>\<open>sched.c\<close>.

  A process control block lies in memory at a fixed address for each process id, and its fields are
  read and written there, at the offsets of \<^verbatim>\<open>pcb_t\<close>. A file descriptor refers to its operations by
  the address of one of four tables of function pointers; these addresses are fields of the state.
  Pointers are dereferenced through \<open>deref\<close>, which asks the page tables: an unmapped address is
  \<open>Page_Fault\<close>. Memory is physical, and the range a pointer is used for is taken to lie in the page
  of its first byte. The stack registers are fields too, since the code saves and loads them.
\<close>

section \<open>State\<close>

record kernel = filesys +
  procs :: "int list"
  process_count :: u32
  vidmap_called :: u8
  tss_esp0 :: u32
  tss_ss0 :: u16
  terminal_funcs :: ptr
  rtc_funcs :: ptr
  fsys_funcs :: ptr
  dir_funcs :: ptr
  elf_str :: ptr
  shell_str :: ptr
  reg_esp :: u32
  reg_ebp :: u32

abbreviation (input) MAX_DEVICES :: nat where "MAX_DEVICES \<equiv> 6"
abbreviation (input) FILE_ARRAY_LEN :: nat where "FILE_ARRAY_LEN \<equiv> 8"
abbreviation (input) MIN_FD :: int where "MIN_FD \<equiv> 2"
abbreviation (input) MAX_FD :: int where "MAX_FD \<equiv> 7"
abbreviation (input) USER_PROCESS_START_VIRTUAL :: u32 where "USER_PROCESS_START_VIRTUAL \<equiv> 0x8000000"
abbreviation (input) USER_PROCESS_START_PHYSICAL :: u32 where "USER_PROCESS_START_PHYSICAL \<equiv> 0x800000"
abbreviation (input) USER_PROCESS_SIZE :: u32 where "USER_PROCESS_SIZE \<equiv> 0x400000"

text \<open>The offsets in \<^verbatim>\<open>fd_t\<close> (48 bytes) and \<^verbatim>\<open>pcb_t\<close>.\<close>

abbreviation (input) FOPS :: nat where "FOPS \<equiv> 0"
abbreviation (input) INODE :: nat where "INODE \<equiv> 4"
abbreviation (input) POS :: nat where "POS \<equiv> 8"
abbreviation (input) FLAGS :: nat where "FLAGS \<equiv> 12"
abbreviation (input) FILE_NAME :: nat where "FILE_NAME \<equiv> 16"
abbreviation (input) ARG_BUFFER :: nat where "ARG_BUFFER \<equiv> 384"
abbreviation (input) P_ID :: nat where "P_ID \<equiv> 512"
abbreviation (input) PAR_P_ID :: nat where "PAR_P_ID \<equiv> 516"
abbreviation (input) ESP :: nat where "ESP \<equiv> 520"
abbreviation (input) EBP :: nat where "EBP \<equiv> 524"

definition fd_off :: "nat \<Rightarrow> nat \<Rightarrow> nat" where
  "fd_off fd off = 48 * fd + off"

definition ld_field :: "ptr \<Rightarrow> nat \<Rightarrow> 'a machine_scheme \<Rightarrow> u32" where
  "ld_field pcb off s = ld32 (mem s) (pcb + of_nat off)"

definition st_field :: "ptr \<Rightarrow> nat \<Rightarrow> u32 \<Rightarrow> 'a machine_scheme \<Rightarrow> 'a machine_scheme" where
  "st_field pcb off v s = s\<lparr>mem := st32 (mem s) (pcb + of_nat off) v\<rparr>"

section \<open>Pointers and results\<close>

definition deref :: "ptr \<Rightarrow> 'a paging_scheme \<Rightarrow> fault + ptr" where
  "deref a s = (case walk s a of None \<Rightarrow> Inl Page_Fault | Some (p, _, _) \<Rightarrow> Inr p)"

text \<open>A pointer that is handed to a function that tests it for null.\<close>

definition lin :: "ptr \<Rightarrow> 'a paging_scheme \<Rightarrow> fault + ptr" where
  "lin a s = (if a = NULL then Inr NULL else deref a s)"

definition sbind :: "fault + 'a \<Rightarrow> ('a \<Rightarrow> fault + 'b) \<Rightarrow> fault + 'b" where
  "sbind r f = (case r of Inl e \<Rightarrow> Inl e | Inr x \<Rightarrow> f x)"

definition find_PCB :: "int \<Rightarrow> ptr" where
  "find_PCB pid = word_of_int (0x800000 - 0x2000 * (pid + 1))"

definition get_current_PCB :: "'a sched_vars_scheme \<Rightarrow> fault + ptr" where
  "get_current_PCB s =
    (if unat (running_terminal s) \<ge> MAX_TERMINAL_NUM then Inl Out_Of_Bounds
     else Inr (find_PCB (running_procs s ! unat (running_terminal s))))"

text \<open>The control block of the running process, as its user dereferences it.\<close>

definition current_pcb :: "'a paging_scheme \<Rightarrow> fault + ptr" where
  "current_pcb s = sbind (get_current_PCB s) (\<lambda>pcb. deref pcb s)"

section \<open>The process table\<close>

text \<open>The number of processes of each terminal, and with at least one counted for each.\<close>

fun count_procs :: "int list \<Rightarrow> u32 list \<Rightarrow> fault + u32 list" where
  "count_procs [] ns = Inr ns"
| "count_procs (t # ts) ns =
    (if t \<ge> 0
     then if nat t \<ge> MAX_TERMINAL_NUM then Inl Out_Of_Bounds
          else count_procs ts (ns[nat t := ns ! nat t + 1])
     else count_procs ts ns)"

definition num_virt :: "u32 list \<Rightarrow> u32" where
  "num_virt ns = fold (\<lambda>n v. if n = 0 then v + 1 else v + n) ns 0"

definition free_proc :: "'a kernel_scheme \<Rightarrow> nat option" where
  "free_proc s = find (\<lambda>i. procs s ! i = 0) [0..<MAX_DEVICES]"

definition add_process :: "'a kernel_scheme \<Rightarrow> fault + int \<times> 'a kernel_scheme" where
  "add_process s =
    sbind (count_procs (term_procs s) [0, 0, 0]) (\<lambda>num_procs_per_term.
      if unat (running_terminal s) \<ge> MAX_TERMINAL_NUM then Inl Out_Of_Bounds
      else if num_procs_per_term ! unat (running_terminal s) \<noteq> 0 \<and>
              num_virt num_procs_per_term \<ge> of_nat MAX_DEVICES
      then Inr (- 1, s)
      else (case free_proc s of
          None \<Rightarrow> Inr (- 1, s)
        | Some i \<Rightarrow> Inr (int i, s\<lparr>procs := (procs s)[i := 1],
            process_count := process_count s + 1,
            running_procs := (running_procs s)[unat (running_terminal s) := int i],
            term_procs := (term_procs s)[i := sint (running_terminal s)]\<rparr>)))"

definition delete_process :: "int \<Rightarrow> 'a kernel_scheme \<Rightarrow> fault + int \<times> 'a kernel_scheme" where
  "delete_process pid s =
    (if pid < 0 \<or> pid \<ge> int MAX_DEVICES then Inr (- 1, s)
     else
       let s = s\<lparr>procs := (procs s)[nat pid := 0]\<rparr>
       in sbind (remove_term_process pid s) (\<lambda>s.
          let s = s\<lparr>process_count := process_count s - 1\<rparr>
          in if unat (display_terminal s) \<ge> MAX_TERMINAL_NUM then Inl Out_Of_Bounds
             else sbind (deref (find_PCB pid) s) (\<lambda>pcb.
               Inr (0, s\<lparr>running_procs := (running_procs s)
                          [unat (display_terminal s) := sint (ld_field pcb PAR_P_ID s)],
                        term_procs := (term_procs s)[nat pid := - 1]\<rparr>))))"

section \<open>File descriptors\<close>

datatype driver = Terminal_Driver | Rtc_Driver | File_Driver | Dir_Driver

text \<open>Which table a pointer refers to; a call through any other pointer leaves the kernel.\<close>

definition driver_of :: "ptr \<Rightarrow> 'a kernel_scheme \<Rightarrow> fault + driver" where
  "driver_of p s =
    (if p = terminal_funcs s then Inr Terminal_Driver
     else if p = rtc_funcs s then Inr Rtc_Driver
     else if p = fsys_funcs s then Inr File_Driver
     else if p = dir_funcs s then Inr Dir_Driver
     else Inl Page_Fault)"

definition call_close :: "driver \<Rightarrow> int \<Rightarrow> 'a kernel_scheme \<Rightarrow> int \<times> 'a kernel_scheme" where
  "call_close d fd s =
    (case d of Terminal_Driver \<Rightarrow> terminal_close fd s
     | Rtc_Driver \<Rightarrow> rtc_close fd s
     | File_Driver \<Rightarrow> file_close fd s
     | Dir_Driver \<Rightarrow> dir_close fd s)"

text \<open>The four assignments to \<^verbatim>\<open>*fd_ptr\<close>.\<close>

definition fill_fd ::
  "ptr \<Rightarrow> nat \<Rightarrow> u32 \<Rightarrow> ptr \<Rightarrow> 'a machine_scheme \<Rightarrow> 'a machine_scheme" where
  "fill_fd pcb fd inode fops s =
    (let s = st_field pcb (fd_off fd INODE) inode s;
         s = st_field pcb (fd_off fd POS) 0 s;
         s = st_field pcb (fd_off fd FLAGS) 1 s
     in st_field pcb (fd_off fd FOPS) fops s)"

definition zero_name :: "ptr \<Rightarrow> nat \<Rightarrow> 'a machine_scheme \<Rightarrow> 'a machine_scheme" where
  "zero_name pcb fd s =
    fold (\<lambda>i s. s\<lparr>mem := (mem s)(pcb + of_nat (fd_off fd FILE_NAME + i) := 0)\<rparr>) [0..<FNAME_MAX_LEN] s"

definition open_file :: "ptr \<Rightarrow> ptr \<Rightarrow> nat \<Rightarrow> 'a kernel_scheme \<Rightarrow> fault + int \<times> 'a kernel_scheme" where
  "open_file pcb filename fd s =
    (case read_dentry_by_name filename s of
       Inl f \<Rightarrow> Inl f
     | Inr None \<Rightarrow> Inr (- 1, s)
     | Inr (Some d) \<Rightarrow>
         if file_type d = 0 then Inr (int fd, fill_fd pcb fd 0 (rtc_funcs s) s)
         else if file_type d = 1 then Inr (int fd, fill_fd pcb fd 0 (dir_funcs s) s)
         else if file_type d = 2
         then let s = fill_fd pcb fd (inode_index d) (fsys_funcs s) s;
                  (r, m) = copy_string (mem s) filename (pcb + of_nat (fd_off fd FILE_NAME));
                  s = s\<lparr>mem := m\<rparr>
              in Inr (int fd, if r = - 1 then zero_name pcb fd s else s)
         else Inr (- 1, s))"

text \<open>The loop that looks for an unused descriptor.\<close>

definition free_fd :: "ptr \<Rightarrow> 'a machine_scheme \<Rightarrow> nat option" where
  "free_fd pcb s = find (\<lambda>index. ld_field pcb (fd_off index FLAGS) s = 0) [2..<FILE_ARRAY_LEN]"

definition open_fd :: "ptr \<Rightarrow> 'a kernel_scheme \<Rightarrow> fault + int \<times> 'a kernel_scheme" where
  "open_fd filename s =
    sbind (get_current_PCB s) (\<lambda>pcb.
    sbind (lin filename s) (\<lambda>filename.
      if string_length (mem s) filename > 32 then Inr (- 1, s)
      else sbind (deref pcb s) (\<lambda>pcb.
        case free_fd pcb s of
          None \<Rightarrow> Inr (- 1, s)
        | Some fd \<Rightarrow> open_file pcb filename fd s)))"

text \<open>The assignments that make a descriptor free again.\<close>

definition reset_fd :: "ptr \<Rightarrow> nat \<Rightarrow> 'a machine_scheme \<Rightarrow> 'a machine_scheme" where
  "reset_fd pcb fd s =
    (let s = st_field pcb (fd_off fd FOPS) NULL s;
         s = st_field pcb (fd_off fd POS) 0 s;
         s = st_field pcb (fd_off fd FLAGS) 0 s
     in zero_name pcb fd s)"

definition close_fd :: "int \<Rightarrow> 'a kernel_scheme \<Rightarrow> fault + int \<times> 'a kernel_scheme" where
  "close_fd fd s =
    sbind (get_current_PCB s) (\<lambda>curr.
      if fd < MIN_FD \<or> fd > MAX_FD then Inr (- 1, s)
      else sbind (deref curr s) (\<lambda>curr.
        if ld_field curr (fd_off (nat fd) FLAGS) s = 0 then Inr (- 1, s)
        else sbind (driver_of (ld_field curr (fd_off (nat fd) FOPS) s) s) (\<lambda>d.
          let (r, s) = call_close d fd s
          in if r \<noteq> 0 then Inr (- 1, s)
             else Inr (0, reset_fd curr (nat fd) s))))"

definition file_read ::
  "int \<Rightarrow> ptr \<Rightarrow> int \<Rightarrow> 'a kernel_scheme \<Rightarrow> fault + int \<times> 'a kernel_scheme" where
  "file_read fd buf nbytes s =
    sbind (current_pcb s) (\<lambda>process.
      let inode = ld_field process (fd_off (nat fd) INODE) s;
          pos = ld_field process (fd_off (nat fd) POS) s
      in sbind (lin buf s) (\<lambda>buf.
         sbind (read_data inode pos buf (word_of_int nbytes) s) (\<lambda>(data, s).
           Inr (data, st_field process (fd_off (nat fd) POS)
             (ld_field process (fd_off (nat fd) POS) s + word_of_int data) s))))"

text \<open>The inode number is used as the address of the inode.\<close>

definition file_size_by_fd :: "int \<Rightarrow> 'a kernel_scheme \<Rightarrow> fault + u32" where
  "file_size_by_fd fd s =
    sbind (current_pcb s) (\<lambda>process.
    sbind (deref (ld_field process (fd_off (nat fd) INODE) s) s) (\<lambda>i.
      Inr (length_of (load_inode (mem s) i))))"

section \<open>The scheduler\<close>

definition proc_disp :: "u32 \<Rightarrow> 'a sched_vars_scheme \<Rightarrow> fault + int" where
  "proc_disp proc s =
    (if unat proc \<ge> MAX_DEVICES then Inl Out_Of_Bounds
     else Inr (if word_of_int (term_procs s ! unat proc) = display_terminal s then 1 else 0))"

fun sched_pages :: "ptr \<Rightarrow> nat list \<Rightarrow> 'a paging_scheme \<Rightarrow> (fault + 'a paging_scheme) option" where
  "sched_pages conv [] s = Some (Inr s)"
| "sched_pages conv (x # xs) s =
    (let s = s\<lparr>running_procs := (running_procs s)[x := - 1]\<rparr>
     in fbind (get_term_vid_addr conv (of_nat x) s) (\<lambda>(a, s).
        let s = snd (map_v_p a a 0 1 1 s);
            s = s\<lparr>mem := memcpy (mem s) a VIDEO PAGE_SIZE_KB\<rparr>
        in sched_pages conv xs s))"

definition sched_init :: "ptr \<Rightarrow> 'a paging_scheme \<Rightarrow> (fault + 'a paging_scheme) option" where
  "sched_init conv s =
    (let s = s\<lparr>display_terminal := 0\<rparr>;
         s = s\<lparr>running_terminal := 0\<rparr>;
         s = fold (\<lambda>x s. s\<lparr>term_procs := (term_procs s)[x := - 1]\<rparr>) [0..<MAX_DEVICES] s
     in sched_pages conv [0..<MAX_TERMINAL_NUM] s)"

text \<open>
  The result 0 is delivered on the stack of the next process: the function returns to where that
  process last gave up the processor.
\<close>

definition switch_running_terminal ::
  "ptr \<Rightarrow> u32 \<Rightarrow> 'a kernel_scheme \<Rightarrow> (fault + u32 \<times> 'a kernel_scheme) option" where
  "switch_running_terminal conv next_terminal s =
    (if unat (running_terminal s) \<ge> MAX_TERMINAL_NUM \<or> unat next_terminal \<ge> MAX_TERMINAL_NUM
     then Some (Inl Out_Of_Bounds)
     else
     let cur_p_id = running_procs s ! unat (running_terminal s);
         next_p_id = running_procs s ! unat next_terminal;
         s = s\<lparr>running_terminal := next_terminal\<rparr>
     in if next_p_id < 0
        then if running_terminal s = display_terminal s then Some (Inr (1, set_video_mem VIDEO s))
             else fbind (get_term_vid_addr conv (running_terminal s) s) (\<lambda>(a, s).
               Some (Inr (1, set_video_mem a s)))
        else fbind (Some (deref (find_PCB cur_p_id) s)) (\<lambda>cur_pcb_ptr.
             let s = st_field cur_pcb_ptr ESP (reg_esp s) s;
                 s = st_field cur_pcb_ptr EBP (reg_ebp s) s;
                 s = snd (map_v_p USER_PROCESS_START_VIRTUAL
                       (USER_PROCESS_START_PHYSICAL + word_of_int next_p_id * USER_PROCESS_SIZE) 1 1 1 s)
             in if nat next_p_id \<ge> MAX_DEVICES then Some (Inl Out_Of_Bounds)
                else fbind (if word_of_int (term_procs s ! nat next_p_id) = display_terminal s
                            then Some (Inr (set_video_mem VIDEO s))
                            else fbind (get_term_vid_addr conv (word_of_int (term_procs s ! nat next_p_id)) s)
                                   (\<lambda>(a, s). Some (Inr (set_video_mem a s))))
                (\<lambda>s. let s = flush_tlb s
                     in fbind (Some (deref (find_PCB next_p_id) s)) (\<lambda>next_pcb_ptr.
                        let s = s\<lparr>tss_esp0 := ld_field next_pcb_ptr ESP s\<rparr>;
                            s = s\<lparr>reg_esp := ld_field next_pcb_ptr ESP s,
                                  reg_ebp := ld_field next_pcb_ptr EBP s\<rparr>
                        in Some (Inr (0, s))))))"

definition cycle_task :: "ptr \<Rightarrow> 'a kernel_scheme \<Rightarrow> (fault + u32 \<times> 'a kernel_scheme) option" where
  "cycle_task conv s = switch_running_terminal conv ((running_terminal s + 1) mod 3) s"

section \<open>Control blocks in memory\<close>

lemma sbind_simps [simp]: "sbind (Inr x) f = f x" "sbind (Inl e) f = Inl e"
  by (simp_all add: sbind_def)

lemma fbind_simps [simp]: "fbind (Some (Inr x)) f = f x" "fbind (Some (Inl e)) f = Some (Inl e)" "fbind None f = None"
  by (simp_all add: fbind_def)

lemma ld_st_same [simp]: "ld_field pcb off (st_field pcb off v s) = v"
  by (simp add: ld_field_def st_field_def)

lemma ld_field_cong:
  "off + 4 \<le> 8192 \<Longrightarrow> (\<And>a. in_rng (pcb + of_nat off) 4 a \<Longrightarrow> mem t a = mem s a) \<Longrightarrow>
    ld_field pcb off t = ld_field pcb off s"
  unfolding ld_field_def by (rule ld32_cong)

lemma ld_st_other:
  assumes "i + 4 \<le> j \<or> j + 4 \<le> i" "i < 8192" "j < 8192"
  shows "ld_field pcb j (st_field pcb i v s) = ld_field pcb j s"
proof -
  have "disjnt_rng (pcb + of_nat i) 4 (pcb + of_nat j) 4"
    using assms disjnt_rng_offsets[of i 4 j 4 pcb] disjnt_rng_offsets[of j 4 i 4 pcb] disjnt_rng_sym by auto
  then show ?thesis
    unfolding ld_field_def st_field_def by (intro ld32_cong) (auto simp: st32_out dest: disjnt_rngD2)
qed

lemma st_field_frame [simp]:
  "io_trace (st_field p i v s) = io_trace s" "ports (st_field p i v s) = ports s"
  "if_flag (st_field p i v s) = if_flag s" "machine.more (st_field p i v s) = machine.more s"
  by (simp_all add: st_field_def)

lemma st_field_sel [simp]:
  "display_terminal (st_field p i v a) = display_terminal a"
  "running_terminal (st_field p i v a) = running_terminal a"
  "running_procs (st_field p i v a) = running_procs a" "term_procs (st_field p i v a) = term_procs a"
  "video_mem (st_field p i v b) = video_mem b" "key_index (st_field p i v b) = key_index b"
  "walk (st_field p i v c) = walk (c\<lparr>mem := mem (st_field p i v c)\<rparr>)"
  "boot_block (st_field p i v d) = boot_block d" "filesys_addr (st_field p i v d) = filesys_addr d"
  "dr_index (st_field p i v d) = dr_index d"
  "procs (st_field p i v e) = procs e" "process_count (st_field p i v e) = process_count e"
  "terminal_funcs (st_field p i v e) = terminal_funcs e" "rtc_funcs (st_field p i v e) = rtc_funcs e"
  "fsys_funcs (st_field p i v e) = fsys_funcs e" "dir_funcs (st_field p i v e) = dir_funcs e"
  "reg_esp (st_field p i v e) = reg_esp e" "reg_ebp (st_field p i v e) = reg_ebp e"
  by (simp_all add: st_field_def)

lemma st_field_out: "off + 4 \<le> n \<Longrightarrow> n \<le> 4294967296 \<Longrightarrow> \<not> in_rng p n a \<Longrightarrow> mem (st_field p off v s) a = mem s a"
  unfolding st_field_def by (simp, rule st32_out) (blast dest: in_rng_offset)

text \<open>The address space the kernel runs in: its own 4 MB page is mapped to itself.\<close>

definition kernel_mapped :: "'a paging_scheme \<Rightarrow> bool" where
  "kernel_mapped s \<longleftrightarrow> low_mapped s \<and>
    (\<forall>q < 0x400000. walk s (0x400000 + q) = Some (0x400000 + q, True, True))"

lemma walk_mem:
  assumes "low_mapped s"
  shows "walk (s\<lparr>mem := m\<rparr>) a = walk s a"
proof -
  have "bit (page_dir s ! unat (drop_bit 22 a)) 7"
    if "unat (drop_bit 22 a) \<noteq> 0" "bit (page_dir s ! unat (drop_bit 22 a)) 0"
    using assms that dir_index[of a] by (simp add: low_mapped_def paging_ok_def)
  then show ?thesis
    using assms by (cases "unat (drop_bit 22 a) = 0") (auto simp: walk_def low_mapped_def Let_def)
qed

lemma low_mapped_mem [simp]: "low_mapped (s\<lparr>mem := m\<rparr>) = low_mapped s"
  by (simp add: low_mapped_def paging_ok_def)

lemma kernel_mapped_mem [simp]: "kernel_mapped (s\<lparr>mem := m\<rparr>) = kernel_mapped s"
  using walk_mem[of s m] by (auto simp: kernel_mapped_def)

lemma deref_mem [simp]: "kernel_mapped s \<Longrightarrow> deref a (s\<lparr>mem := m\<rparr>) = deref a s"
  by (simp add: deref_def walk_mem kernel_mapped_def)

lemma kernel_mapped_st [simp]: "kernel_mapped (st_field p i v s) = kernel_mapped s"
  by (simp add: st_field_def)

lemma deref_st [simp]: "kernel_mapped s \<Longrightarrow> deref a (st_field p i v s) = deref a s"
  by (simp add: st_field_def)

lemma unat_find_PCB:
  assumes "0 \<le> pid" "pid < 6"
  shows "unat (find_PCB pid) = 0x800000 - 0x2000 * (nat pid + 1)"
proof -
  have "unat (find_PCB pid) = nat (0x800000 - 0x2000 * (pid + 1))"
    unfolding find_PCB_def using assms by (simp only: unsigned_of_int) (simp add: take_bit_int_eq_self)
  with assms show ?thesis by (simp add: nat_diff_distrib nat_mult_distrib nat_add_distrib)
qed

lemma deref_kernel:
  assumes "kernel_mapped s" "0x400000 \<le> unat a" "unat a < 0x800000"
  shows "deref a s = Inr a"
proof -
  define q where "q = a - 0x400000"
  have "unat q = unat a - 0x400000" unfolding q_def using assms(2) by (subst unat_sub) (simp_all add: word_le_nat_alt)
  with assms(2,3) have "q < 0x400000" by (simp add: word_less_nat_alt)
  with assms(1) have "walk s (0x400000 + q) = Some (0x400000 + q, True, True)" by (simp add: kernel_mapped_def)
  then show ?thesis by (simp add: deref_def q_def)
qed

lemma deref_PCB: "kernel_mapped s \<Longrightarrow> 0 \<le> pid \<Longrightarrow> pid < 6 \<Longrightarrow> deref (find_PCB pid) s = Inr (find_PCB pid)"
  by (rule deref_kernel) (simp_all add: unat_find_PCB nat_less_iff)

lemma PCB_disjnt:
  assumes "0 \<le> p" "p < 6" "0 \<le> q" "q < 6" "p \<noteq> q"
  shows "disjnt_rng (find_PCB p) 8192 (find_PCB q) 8192"
proof -
  have lt: "disjnt_rng (find_PCB p) 8192 (find_PCB q) 8192" if "0 \<le> q" "q < p" "p < 6" for p q
    by (rule disjnt_rng_below) (use that in \<open>auto simp: unat_find_PCB nat_less_iff\<close>)
  show ?thesis using assms lt[of q p] lt[of p q] disjnt_rng_sym by (cases "q < p") auto
qed

text \<open>A running process.\<close>

definition cur_pid :: "'a sched_vars_scheme \<Rightarrow> int" where
  "cur_pid s = running_procs s ! unat (running_terminal s)"

definition proc_runs :: "'a paging_scheme \<Rightarrow> bool" where
  "proc_runs s \<longleftrightarrow> kernel_mapped s \<and> unat (running_terminal s) < 3 \<and> 0 \<le> cur_pid s \<and> cur_pid s < 6"

lemma current_pcb_eq:
  assumes "proc_runs s"
  shows "get_current_PCB s = Inr (find_PCB (cur_pid s))" "deref (find_PCB (cur_pid s)) s = Inr (find_PCB (cur_pid s))"
    "current_pcb s = Inr (find_PCB (cur_pid s))"
  using assms by (simp_all add: proc_runs_def get_current_PCB_def current_pcb_def deref_PCB cur_pid_def)

section \<open>Tables of slots\<close>

text \<open>
  The interface of a table with a fixed number of slots, which \<open>open\<close>, \<open>close\<close>, \<open>add_process\<close> and
  \<open>delete_process\<close> rely on: claiming a slot makes it used, releasing it makes it free, and no other
  slot changes.
\<close>

locale slot_table =
  fixes used :: "'s \<Rightarrow> nat \<Rightarrow> bool"
    and claim :: "nat \<Rightarrow> 's \<Rightarrow> 's"
    and release :: "nat \<Rightarrow> 's \<Rightarrow> 's"
    and ok :: "'s \<Rightarrow> bool"
    and lo hi :: nat
  assumes claim_used: "ok s \<Longrightarrow> i < hi \<Longrightarrow> j < hi \<Longrightarrow> used (claim i s) j \<longleftrightarrow> j = i \<or> used s j"
    and release_used: "ok s \<Longrightarrow> i < hi \<Longrightarrow> j < hi \<Longrightarrow> used (release i s) j \<longleftrightarrow> j \<noteq> i \<and> used s j"
    and claim_ok: "ok s \<Longrightarrow> i < hi \<Longrightarrow> ok (claim i s)"
begin

definition first_free :: "'s \<Rightarrow> nat option" where
  "first_free s = find (\<lambda>i. \<not> used s i) [lo..<hi]"

definition free_slots :: "'s \<Rightarrow> nat set" where
  "free_slots s = {i \<in> {lo..<hi}. \<not> used s i}"

lemma first_free_Some:
  "first_free s = Some i \<longleftrightarrow> i \<in> free_slots s \<and> (\<forall>j \<in> free_slots s. i \<le> j)"
proof -
  have "first_free s = Some i \<longleftrightarrow> (\<exists>k < hi - lo. i = lo + k \<and> \<not> used s (lo + k) \<and> (\<forall>j < k. used s (lo + j)))"
    by (auto simp: first_free_def find_Some_iff)
  also have "\<dots> \<longleftrightarrow> i \<in> free_slots s \<and> (\<forall>j \<in> free_slots s. i \<le> j)"
  proof (intro iffI)
    assume "\<exists>k < hi - lo. i = lo + k \<and> \<not> used s (lo + k) \<and> (\<forall>j < k. used s (lo + j))"
    then obtain k where k: "k < hi - lo" "i = lo + k" "\<not> used s (lo + k)" "\<forall>j < k. used s (lo + j)" by blast
    have "lo + k \<le> j" if j: "j \<in> free_slots s" for j
    proof (rule ccontr)
      assume "\<not> lo + k \<le> j"
      moreover have "lo \<le> j" using j by (simp add: free_slots_def)
      ultimately have "used s (lo + (j - lo))" using k(4) by (metis add_diff_inverse_nat nat_add_left_cancel_less not_le)
      with j \<open>lo \<le> j\<close> show False by (simp add: free_slots_def)
    qed
    with k show "i \<in> free_slots s \<and> (\<forall>j \<in> free_slots s. i \<le> j)" by (auto simp: free_slots_def)
  next
    assume a: "i \<in> free_slots s \<and> (\<forall>j \<in> free_slots s. i \<le> j)"
    have "used s (lo + j)" if "j < i - lo" for j
    proof (rule ccontr)
      assume "\<not> used s (lo + j)"
      with a that have "lo + j \<in> free_slots s" by (auto simp: free_slots_def)
      with a have "i \<le> lo + j" by blast
      with that show False by simp
    qed
    with a show "\<exists>k < hi - lo. i = lo + k \<and> \<not> used s (lo + k) \<and> (\<forall>j < k. used s (lo + j))"
      by (intro exI[of _ "i - lo"]) (auto simp: free_slots_def)
  qed
  finally show ?thesis .
qed

lemma first_free_None: "first_free s = None \<longleftrightarrow> free_slots s = {}"
  by (auto simp: first_free_def find_None_iff free_slots_def)

lemma free_claim: "ok s \<Longrightarrow> i < hi \<Longrightarrow> free_slots (claim i s) = free_slots s - {i}"
  by (auto simp: free_slots_def claim_used)

lemma free_release:
  "ok s \<Longrightarrow> i \<in> {lo..<hi} \<Longrightarrow> free_slots (release i s) = insert i (free_slots s)"
  by (auto simp: free_slots_def release_used)

text \<open>A slot that is claimed and released is the next one claimed.\<close>

lemma reuse:
  assumes "ok s" "first_free s = Some i"
  shows "first_free (release i (claim i s)) = Some i"
proof -
  have i: "i \<in> free_slots s" "i < hi" "i \<in> {lo..<hi}"
    using assms(2) unfolding first_free_Some by (auto simp: free_slots_def)
  have "free_slots (release i (claim i s)) = free_slots s"
    using assms(1) i by (simp add: free_release free_claim claim_ok insert_absorb)
  with assms(2) show ?thesis unfolding first_free_Some by simp
qed

lemma claim_uses_one:
  assumes "ok s" "first_free s = Some i"
  shows "card (free_slots (claim i s)) + 1 = card (free_slots s)"
proof -
  have i: "i \<in> free_slots s" "i < hi" using assms(2) unfolding first_free_Some by (auto simp: free_slots_def)
  have "finite (free_slots s)" by (simp add: free_slots_def)
  with i assms(1) show ?thesis by (simp add: free_claim card_Suc_Diff1 del: card_Diff_insert)
qed

end

section \<open>The file descriptor table\<close>

lemma ld_st_fd:
  assumes "f \<in> {0, 4, 8, 12}" "g \<in> {0, 4, 8, 12}" "i < 8" "j < 8"
  shows "ld_field pcb (fd_off j g) (st_field pcb (fd_off i f) v s) =
    (if i = j \<and> f = g then v else ld_field pcb (fd_off j g) s)"
proof (cases "i = j \<and> f = g")
  case False
  have "fd_off i f + 4 \<le> fd_off j g \<or> fd_off j g + 4 \<le> fd_off i f"
  proof (cases "i = j")
    case True
    with False assms show ?thesis by (auto simp: fd_off_def)
  next
    case ne: False
    have "f \<le> 12" "g \<le> 12" using assms by auto
    with ne show ?thesis unfolding fd_off_def by linarith
  qed
  moreover have "fd_off i f < 8192" "fd_off j g < 8192" using assms by (auto simp: fd_off_def)
  ultimately show ?thesis using False by (simp only: ld_st_other if_False)
qed auto

lemma ld_field_wr:
  assumes "off + 4 \<le> b \<or> b + length bs \<le> off" "off < 8192" "b + length bs \<le> 8192"
  shows "ld_field pcb off (s\<lparr>mem := wr_bytes m (pcb + of_nat b) bs\<rparr>) = ld_field pcb off (s\<lparr>mem := m\<rparr>)"
proof -
  have "disjnt_rng (pcb + of_nat b) (length bs) (pcb + of_nat off) 4"
    using assms disjnt_rng_offsets[of off 4 b "length bs" pcb] disjnt_rng_offsets[of b "length bs" off 4 pcb]
    by (auto intro: disjnt_rng_sym)
  then show ?thesis
    unfolding ld_field_def by (intro ld32_cong) (auto simp: wr_bytes_out dest: disjnt_rngD2)
qed

lemma zero_name_eq:
  "zero_name pcb fd s = s\<lparr>mem := wr_bytes (mem s) (pcb + of_nat (fd_off fd 16)) (replicate 32 0)\<rparr>"
proof -
  have "fold (\<lambda>i s. s\<lparr>mem := (mem s)(pcb + of_nat (b + i) := 0)\<rparr>) [0..<n] s =
      s\<lparr>mem := wr_bytes (mem s) (pcb + of_nat b) (replicate n 0)\<rparr>" if "n < 4294967296" for n b
    using that
  proof (induction n)
    case (Suc n)
    then have "replicate (Suc n) 0 = replicate n (0 :: u8) @ [0]" by (simp add: replicate_append_same)
    with Suc show ?case
      by (simp add: wr_bytes_snoc add.assoc del: replicate_Suc fun_upd_apply)
  qed simp
  then show ?thesis unfolding zero_name_def by simp
qed

lemma ld_zero_name:
  "f \<in> {0, 4, 8, 12} \<Longrightarrow> i < 8 \<Longrightarrow> j < 8 \<Longrightarrow>
    ld_field pcb (fd_off j f) (zero_name pcb i s) = ld_field pcb (fd_off j f) s"
  unfolding zero_name_eq by (subst ld_field_wr) (cases "i < j"; auto simp: fd_off_def)+

lemmas fd_simps = ld_st_fd ld_zero_name

definition fd_view :: "ptr \<Rightarrow> nat \<Rightarrow> 'a machine_scheme \<Rightarrow> (ptr \<times> u32 \<times> u32) option" where
  "fd_view pcb fd s =
    (if ld_field pcb (fd_off fd FLAGS) s = 0 then None
     else Some (ld_field pcb (fd_off fd FOPS) s, ld_field pcb (fd_off fd INODE) s, ld_field pcb (fd_off fd POS) s))"

lemma fd_view_fill:
  "i < 8 \<Longrightarrow> j < 8 \<Longrightarrow> fd_view pcb j (fill_fd pcb i inode fops s) =
    (if j = i then Some (fops, inode, 0) else fd_view pcb j s)"
  by (simp add: fd_view_def fill_fd_def fd_simps Let_def)

lemma fd_view_reset:
  "i < 8 \<Longrightarrow> j < 8 \<Longrightarrow> fd_view pcb j (reset_fd pcb i s) = (if j = i then None else fd_view pcb j s)"
  by (simp add: fd_view_def reset_fd_def fd_simps Let_def)

lemma fd_view_used: "fd_view pcb fd s = None \<longleftrightarrow> ld_field pcb (fd_off fd FLAGS) s = 0"
  by (simp add: fd_view_def)

definition fd_used :: "ptr \<Rightarrow> 'a machine_scheme \<Rightarrow> nat \<Rightarrow> bool" where
  "fd_used pcb s fd \<longleftrightarrow> fd_view pcb fd s \<noteq> None"

interpretation fdt: slot_table "fd_used pcb" "\<lambda>fd. fill_fd pcb fd inode fops" "reset_fd pcb" "\<lambda>_. True" 2 8
  for pcb inode fops
  by unfold_locales (auto simp: fd_used_def fd_view_fill fd_view_reset)

text \<open>Only the 48 bytes of a descriptor are written.\<close>

lemma fd_off_out:
  assumes "f + 4 \<le> 48" "fd < 8" "\<not> in_rng (pcb + of_nat (48 * fd)) 48 a"
  shows "mem (st_field pcb (fd_off fd f) v s) a = mem s a"
proof -
  have "\<not> in_rng (pcb + of_nat (48 * fd) + of_nat f) 4 a"
    using assms in_rng_offset[of "pcb + of_nat (48 * fd)" f 4 a 48] by auto
  then have "\<not> in_rng (pcb + of_nat (48 * fd + f)) 4 a" by (simp add: add.assoc)
  then show ?thesis by (simp add: st_field_def fd_off_def st32_out)
qed

lemma name_out:
  assumes "length bs \<le> 32" "\<not> in_rng (pcb + of_nat (48 * fd)) 48 a"
  shows "wr_bytes m (pcb + of_nat (fd_off fd 16)) bs a = m a"
proof -
  have "\<not> in_rng (pcb + of_nat (48 * fd) + of_nat 16) (length bs) a"
    using assms in_rng_offset[of "pcb + of_nat (48 * fd)" 16 "length bs" a 48] by auto
  then have "\<not> in_rng (pcb + of_nat (fd_off fd 16)) (length bs) a" by (simp add: fd_off_def add.assoc)
  then show ?thesis by (rule wr_bytes_out)
qed

lemma fill_reset_out:
  assumes "fd < 8" "\<not> in_rng (pcb + of_nat (48 * fd)) 48 a"
  shows "mem (fill_fd pcb fd inode fops s) a = mem s a" "mem (reset_fd pcb fd s) a = mem s a"
  using assms by (simp_all add: fill_fd_def reset_fd_def zero_name_eq name_out fd_off_out Let_def)

lemma fill_reset_frame:
  "\<exists>m. fill_fd pcb fd inode fops s = s\<lparr>mem := m\<rparr>" "\<exists>m. reset_fd pcb fd s = s\<lparr>mem := m\<rparr>"
  by (simp_all add: fill_fd_def reset_fd_def zero_name_eq st_field_def Let_def) blast+

text \<open>What the descriptor of an entry refers to.\<close>

definition fops_of :: "dentry \<Rightarrow> 'a kernel_scheme \<Rightarrow> ptr" where
  "fops_of d s = (if file_type d = 0 then rtc_funcs s else if file_type d = 1 then dir_funcs s else fsys_funcs s)"

definition inode_of :: "dentry \<Rightarrow> u32" where
  "inode_of d = (if file_type d = 2 then inode_index d else 0)"

text \<open>A file name as a program passes it: a short string outside the control block.\<close>

definition name_arg :: "ptr \<Rightarrow> ptr \<Rightarrow> bytes \<Rightarrow> 'a kernel_scheme \<Rightarrow> bool" where
  "name_arg filename fn str s \<longleftrightarrow> lin filename s = Inr fn \<and> fn \<noteq> NULL \<and> cstr (mem s) fn str \<and>
    length str \<le> 31 \<and> disjnt_rng (find_PCB (cur_pid s)) 8192 fn (Suc (length str))"

lemma fd_slot_in_pcb: "fd < 8 \<Longrightarrow> in_rng (pcb + of_nat (48 * fd)) 48 a \<Longrightarrow> in_rng pcb 8192 a"
  by (erule in_rng_offset) simp_all

lemma open_file_eq:
  assumes str: "cstr (mem s) fn str" "length str \<le> 31" "fn \<noteq> NULL"
    and d: "read_dentry_by_name fn s = Inr (Some d)" "unat (file_type d) \<le> 2"
    and pcb: "disjnt_rng pcb 8192 fn (Suc (length str))" "\<And>k. k < 8192 \<Longrightarrow> pcb + of_nat k \<noteq> NULL" "fd < 8"
  shows "\<exists>m. open_file pcb fn fd s = Inr (int fd, s\<lparr>mem := m\<rparr>) \<and>
    (\<forall>j < 8. fd_view pcb j (s\<lparr>mem := m\<rparr>) = (if j = fd then Some (fops_of d s, inode_of d, 0) else fd_view pcb j s)) \<and>
    (\<forall>a. \<not> in_rng (pcb + of_nat (48 * fd)) 48 a \<longrightarrow> m a = mem s a)"
proof -
  let ?f = "fill_fd pcb fd (inode_of d) (fops_of d s) s"
  obtain m where m: "?f = s\<lparr>mem := m\<rparr>" using fill_reset_frame by blast
  have out: "m a = mem s a" if "\<not> in_rng (pcb + of_nat (48 * fd)) 48 a" for a
    using fill_reset_out(1)[OF pcb(3) that, of "inode_of d" "fops_of d s" s] by (simp add: m)
  have vw: "fd_view pcb j (s\<lparr>mem := m\<rparr>) = (if j = fd then Some (fops_of d s, inode_of d, 0) else fd_view pcb j s)" if "j < 8" for j
    using fd_view_fill[OF pcb(3) that, of pcb "inode_of d" "fops_of d s" s] by (simp add: m)
  have tys: "file_type d = 0 \<or> file_type d = 1 \<or> file_type d = 2"
  proof -
    have "unat (file_type d) = 0 \<or> unat (file_type d) = 1 \<or> unat (file_type d) = 2" using d(2) by arith
    then show ?thesis by (auto simp: word_unat_eq_iff)
  qed
  show ?thesis
  proof (cases "file_type d = 2")
    case False
    with tys m d(1) have "open_file pcb fn fd s = Inr (int fd, s\<lparr>mem := m\<rparr>)"
      by (auto simp: open_file_def fops_of_def inode_of_def)
    with out vw show ?thesis by blast
  next
    case True
    let ?p = "pcb + of_nat (fd_off fd 16)" and ?bs = "str @ [0]"
    have fp: "\<not> in_rng fn (Suc (length str)) a" if "in_rng (pcb + of_nat (48 * fd)) 48 a" for a
      using disjnt_rngD1[OF pcb(1) fd_slot_in_pcb[OF pcb(3) that]] .
    have c: "cstr m fn str"
      using str(1) cstr_cong[of fn str m "mem s"] out fp str(2) by auto
    have dj: "disjnt_rng ?p (length str) fn (Suc (length str))"
    proof -
      have "in_rng pcb 8192 a" if "in_rng ?p (length str) a" for a
        using that str(2) pcb(3) by (intro in_rng_offset[of pcb "fd_off fd 16" "length str" a 8192]) (auto simp: fd_off_def)
      with pcb(1) show ?thesis by (auto simp: disjnt_rng_def)
    qed
    have ne: "?p \<noteq> NULL" using pcb(2)[of "fd_off fd 16"] pcb(3) by (simp add: fd_off_def)
    have cs: "copy_string m fn ?p = (0, wr_bytes m ?p ?bs)"
      using c dj ne str(2,3) by (intro copy_string_cstr) (auto intro: disjnt_rng_mono)
    let ?m = "wr_bytes m ?p ?bs"
    have op: "open_file pcb fn fd s = Inr (int fd, s\<lparr>mem := ?m\<rparr>)"
      using True m d(1) cs by (simp add: open_file_def fops_of_def inode_of_def Let_def)
    have "ld_field pcb (fd_off j f) (s\<lparr>mem := ?m\<rparr>) = ld_field pcb (fd_off j f) (s\<lparr>mem := m\<rparr>)"
      if "j < 8" "f \<in> {0, 4, 8, 12}" for j f
    proof (rule ld_field_wr)
      have "f + 4 \<le> 16" using that(2) by auto
      with str(2) show "fd_off j f + 4 \<le> fd_off fd 16 \<or> fd_off fd 16 + length ?bs \<le> fd_off j f"
        unfolding fd_off_def length_append by (cases "j \<le> fd") (simp, simp, linarith?)
    qed (use that str(2) pcb(3) in \<open>auto simp: fd_off_def\<close>)
    then have "fd_view pcb j (s\<lparr>mem := ?m\<rparr>) = fd_view pcb j (s\<lparr>mem := m\<rparr>)" if "j < 8" for j
      using that by (simp add: fd_view_def)
    with vw have v2: "\<forall>j < 8. fd_view pcb j (s\<lparr>mem := ?m\<rparr>) =
        (if j = fd then Some (fops_of d s, inode_of d, 0) else fd_view pcb j s)" by simp
    have o2: "\<forall>a. \<not> in_rng (pcb + of_nat (48 * fd)) 48 a \<longrightarrow> ?m a = mem s a"
      using str(2) out name_out[of ?bs pcb fd _ m] by simp
    from op v2 o2 show ?thesis by blast
  qed
qed

lemma PCB_nonnull:
  assumes "0 \<le> pid" "pid < 6" "k < 8192"
  shows "find_PCB pid + of_nat k \<noteq> NULL"
proof -
  have "unat (find_PCB pid) + k < 4294967296" "0 < unat (find_PCB pid)"
    using assms unat_find_PCB[of pid] by auto
  then have "unat (find_PCB pid + of_nat k) \<noteq> 0" using assms(3) by (simp add: unat_word_ariths)
  then show ?thesis by (metis unat_0)
qed

lemma first_fd:
  "free_fd pcb s = fdt.first_free pcb s"
  unfolding free_fd_def fdt.first_free_def fd_used_def fd_view_used by simp

lemma open_fd_eq:
  assumes run: "proc_runs s" and arg: "name_arg filename fn str s" and fs: "boot_ok (boot_block s)"
    and d: "lookup_name str s = Some d" "unat (file_type d) \<le> 2"
    and free: "fdt.first_free (find_PCB (cur_pid s)) s = Some fd"
  shows "\<exists>m. open_fd filename s = Inr (int fd, s\<lparr>mem := m\<rparr>) \<and>
    (\<forall>j < 8. fd_view (find_PCB (cur_pid s)) j (s\<lparr>mem := m\<rparr>) =
      (if j = fd then Some (fops_of d s, inode_of d, 0) else fd_view (find_PCB (cur_pid s)) j s)) \<and>
    (\<forall>a. \<not> in_rng (find_PCB (cur_pid s) + of_nat (48 * fd)) 48 a \<longrightarrow> m a = mem s a)"
proof -
  let ?pcb = "find_PCB (cur_pid s)"
  have a: "lin filename s = Inr fn" "fn \<noteq> NULL" "cstr (mem s) fn str" "length str \<le> 31"
    "disjnt_rng ?pcb 8192 fn (Suc (length str))"
    using arg by (simp_all add: name_arg_def)
  have fd: "fd < 8" using free unfolding fdt.first_free_Some by (simp add: fdt.free_slots_def)
  have "read_dentry_by_name fn s = Inr (Some d)"
    using read_dentry_by_name_eq[OF fs a(3,2)] d(1) by simp
  from open_file_eq[OF a(3,4,2) this d(2) a(5) _ fd] obtain m where
    "open_file ?pcb fn fd s = Inr (int fd, s\<lparr>mem := m\<rparr>)"
    "\<forall>j < 8. fd_view ?pcb j (s\<lparr>mem := m\<rparr>) =
      (if j = fd then Some (fops_of d s, inode_of d, 0) else fd_view ?pcb j s)"
    "\<forall>a. \<not> in_rng (?pcb + of_nat (48 * fd)) 48 a \<longrightarrow> m a = mem s a"
    using run PCB_nonnull[of "cur_pid s"] by (auto simp: proc_runs_def)
  moreover have "string_length (mem s) fn \<le> 32" using a by (simp add: string_length_cstr)
  ultimately show ?thesis
    using free by (auto simp: open_fd_def current_pcb_eq[OF run] a(1) first_fd)
qed

lemma call_close_eq:
  "2 \<le> fd \<Longrightarrow> \<exists>tr. call_close d fd s = (0, s\<lparr>io_trace := tr\<rparr>)"
proof -
  assume "2 \<le> fd"
  moreover have "\<exists>tr. disable_irq 1 s = s\<lparr>io_trace := tr\<rparr>"
    by (auto simp: disable_irq_def set_port_bit_def inb_def outb_def Let_def)
  moreover have "s = s\<lparr>io_trace := io_trace s\<rparr>" by simp
  ultimately show ?thesis
    by (cases d) (auto simp: call_close_def terminal_close_def rtc_close_def file_close_def dir_close_def intro: exI[of _ "io_trace s"])
qed

lemma ld_field_trace [simp]: "ld_field p i (s\<lparr>io_trace := tr\<rparr>) = ld_field p i s"
  by (simp add: ld_field_def)

lemma fd_view_trace [simp]: "fd_view p i (s\<lparr>io_trace := tr\<rparr>) = fd_view p i s"
  by (simp add: fd_view_def)

lemma driver_known:
  "p \<in> {terminal_funcs s, rtc_funcs s, fsys_funcs s, dir_funcs s} \<Longrightarrow> \<exists>d. driver_of p s = Inr d"
  by (auto simp: driver_of_def)

lemma close_fd_eq:
  assumes run: "proc_runs s" and fd: "2 \<le> fd" "fd < 8"
    and view: "fd_view (find_PCB (cur_pid s)) fd s = Some (p, i, pos)"
    and p: "p \<in> {terminal_funcs s, rtc_funcs s, fsys_funcs s, dir_funcs s}"
  shows "\<exists>tr. close_fd (int fd) s = Inr (0, reset_fd (find_PCB (cur_pid s)) fd (s\<lparr>io_trace := tr\<rparr>))"
proof -
  let ?pcb = "find_PCB (cur_pid s)"
  have v: "ld_field ?pcb (fd_off fd FLAGS) s \<noteq> 0" "ld_field ?pcb (fd_off fd FOPS) s = p"
    using view by (auto simp: fd_view_def split: if_splits)
  obtain d where "driver_of p s = Inr d" using driver_known[OF p] by blast
  moreover obtain tr where "call_close d (int fd) s = (0, s\<lparr>io_trace := tr\<rparr>)"
    using call_close_eq[of "int fd" d s] fd by auto
  ultimately show ?thesis
    using fd v by (intro exI[of _ tr]) (simp add: close_fd_def current_pcb_eq[OF run])
qed

lemma proc_runs_mem [simp]: "proc_runs (s\<lparr>mem := m\<rparr>) = proc_runs s" "cur_pid (s\<lparr>mem := m\<rparr>) = cur_pid s"
  by (simp_all add: proc_runs_def cur_pid_def)

lemma walk_trace [simp]: "walk (s\<lparr>io_trace := tr\<rparr>) = walk s"
  by (simp add: walk_def fun_eq_iff Let_def)

lemma proc_runs_trace [simp]: "proc_runs (s\<lparr>io_trace := tr\<rparr>) = proc_runs s" "cur_pid (s\<lparr>io_trace := tr\<rparr>) = cur_pid s"
  by (simp_all add: proc_runs_def cur_pid_def kernel_mapped_def low_mapped_def paging_ok_def)

lemma lin_mem: "kernel_mapped s \<Longrightarrow> lin a (s\<lparr>mem := m\<rparr>) = lin a s"
  by (simp add: lin_def)

lemma lin_trace [simp]: "lin a (s\<lparr>io_trace := tr\<rparr>) = lin a s"
  by (simp add: lin_def deref_def)

lemma name_arg_mem:
  assumes "name_arg filename fn str s" "kernel_mapped s"
    and "\<And>a. \<not> in_rng (find_PCB (cur_pid s)) 8192 a \<Longrightarrow> m a = mem s a"
  shows "name_arg filename fn str (s\<lparr>io_trace := tr, mem := m\<rparr>)"
proof -
  have "kernel_mapped (s\<lparr>io_trace := tr\<rparr>)"
    using assms(2) by (simp add: kernel_mapped_def low_mapped_def paging_ok_def)
  moreover have "cstr m fn str \<longleftrightarrow> cstr (mem s) fn str"
    using assms(1,3) by (intro cstr_cong) (auto simp: name_arg_def disjnt_rng_def)
  ultimately show ?thesis using assms(1) by (simp add: name_arg_def lin_mem cur_pid_def)
qed

text \<open>
  C25: opening and closing. Opening an existing file takes the lowest free descriptor from 2 to 7
  and makes it refer to the operations of the file's type, the inode and position 0; no other
  descriptor and no memory outside the 48 bytes of that descriptor changes. Closing it succeeds
  and gives back the table of before, so that opening again returns the same descriptor. This is for
  names of at most 31 characters; one of 32 characters, which \<open>open\<close> admits too, is the subject of the
  next theorem.
\<close>

theorem open_close_roundtrip:
  assumes run: "proc_runs s" and arg: "name_arg filename fn str s" and fs: "boot_ok (boot_block s)"
    and d: "lookup_name str s = Some d" "unat (file_type d) \<le> 2"
    and free: "free_fd (find_PCB (cur_pid s)) s = Some fd"
  shows "\<exists>t u. open_fd filename s = Inr (int fd, t) \<and> close_fd (int fd) t = Inr (0, u) \<and>
    2 \<le> fd \<and> fd < 8 \<and> fd_view (find_PCB (cur_pid s)) fd s = None \<and>
    (\<forall>j. 2 \<le> j \<and> j < fd \<longrightarrow> fd_view (find_PCB (cur_pid s)) j s \<noteq> None) \<and>
    (\<forall>j < 8. fd_view (find_PCB (cur_pid s)) j t =
      (if j = fd then Some (fops_of d s, inode_of d, 0) else fd_view (find_PCB (cur_pid s)) j s)) \<and>
    (\<forall>a. \<not> in_rng (find_PCB (cur_pid s) + of_nat (48 * fd)) 48 a \<longrightarrow> mem t a = mem s a \<and> mem u a = mem s a) \<and>
    (\<forall>j < 8. fd_view (find_PCB (cur_pid s)) j u = fd_view (find_PCB (cur_pid s)) j s) \<and>
    (\<exists>v. open_fd filename u = Inr (int fd, v))"
proof -
  let ?pcb = "find_PCB (cur_pid s)"
  have ff: "fdt.first_free ?pcb s = Some fd" using free by (simp add: first_fd)
  have slot: "2 \<le> fd" "fd < 8" "fd_view ?pcb fd s = None"
    and low: "\<And>j. 2 \<le> j \<Longrightarrow> j < fd \<Longrightarrow> fd_view ?pcb j s \<noteq> None"
    using ff[unfolded fdt.first_free_Some] by (auto simp: fdt.free_slots_def fd_used_def) force
  obtain m where o: "open_fd filename s = Inr (int fd, s\<lparr>mem := m\<rparr>)"
    and v: "\<And>j. j < 8 \<Longrightarrow> fd_view ?pcb j (s\<lparr>mem := m\<rparr>) =
      (if j = fd then Some (fops_of d s, inode_of d, 0) else fd_view ?pcb j s)"
    and out: "\<And>a. \<not> in_rng (?pcb + of_nat (48 * fd)) 48 a \<Longrightarrow> m a = mem s a"
    using open_fd_eq[OF run arg fs d ff] by blast
  let ?t = "s\<lparr>mem := m\<rparr>"
  have "fops_of d s \<in> {terminal_funcs ?t, rtc_funcs ?t, fsys_funcs ?t, dir_funcs ?t}"
    by (simp add: fops_of_def)
  moreover have "fd_view (find_PCB (cur_pid ?t)) fd ?t = Some (fops_of d s, inode_of d, 0)"
    using v[OF slot(2)] by simp
  moreover have "proc_runs ?t" using run by simp
  ultimately obtain tr where c: "close_fd (int fd) ?t = Inr (0, reset_fd ?pcb fd (?t\<lparr>io_trace := tr\<rparr>))"
    using close_fd_eq[OF _ slot(1,2)] by (metis proc_runs_mem(2))
  obtain m' where m': "reset_fd ?pcb fd (?t\<lparr>io_trace := tr\<rparr>) = s\<lparr>io_trace := tr, mem := m'\<rparr>"
    using fill_reset_frame(2)[of ?pcb fd "?t\<lparr>io_trace := tr\<rparr>"] by auto
  let ?u = "s\<lparr>io_trace := tr, mem := m'\<rparr>"
  have vu: "fd_view ?pcb j ?u = fd_view ?pcb j s" if "j < 8" for j
    using fd_view_reset[OF slot(2) that, of ?pcb "?t\<lparr>io_trace := tr\<rparr>"] v[OF that] slot(3) by (simp add: m')
  have ou: "m' a = mem s a" if "\<not> in_rng (?pcb + of_nat (48 * fd)) 48 a" for a
    using fill_reset_out(2)[OF slot(2) that, of "?t\<lparr>io_trace := tr\<rparr>"] out[OF that] by (simp add: m')
  have "name_arg filename fn str ?u"
    using run ou fd_slot_in_pcb[OF slot(2)] by (intro name_arg_mem[OF arg]) (auto simp: proc_runs_def)
  moreover have "fdt.first_free ?pcb ?u = Some fd"
  proof -
    have "fdt.free_slots ?pcb ?u = fdt.free_slots ?pcb s"
      using vu by (auto simp: fdt.free_slots_def fd_used_def)
    with ff show ?thesis unfolding fdt.first_free_Some by simp
  qed
  moreover have "lookup_name str ?u = Some d" using d(1) by (simp add: lookup_name_def split: if_splits)
  ultimately have "\<exists>w. open_fd filename ?u = Inr (int fd, w)"
    using open_fd_eq[of ?u filename fn str d fd] run fs d(2) by auto
  with o c slot low v out ou vu show ?thesis unfolding m' by auto
qed

text \<open>
  The name of a regular file is copied into 32 bytes at the end of its descriptor. With a name of 32
  characters the terminator lands in the byte after them, the lowest byte of the operations of
  the next descriptor (after the last descriptor, the first byte of the arguments).
\<close>

theorem open_long_name_overruns:
  assumes run: "proc_runs s" and fs: "boot_ok (boot_block s)"
    and arg: "lin filename s = Inr fn" "fn \<noteq> NULL" "cstr (mem s) fn str" "length str = 32"
      "disjnt_rng (find_PCB (cur_pid s)) 8192 fn 33"
    and d: "lookup_name str s = Some d" "file_type d = 2"
    and free: "free_fd (find_PCB (cur_pid s)) s = Some fd"
  shows "\<exists>t. open_fd filename s = Inr (int fd, t) \<and> mem t (find_PCB (cur_pid s) + of_nat (48 * (fd + 1))) = 0"
proof -
  let ?pcb = "find_PCB (cur_pid s)"
  let ?p = "?pcb + of_nat (fd_off fd 16)"
  have fd: "fd < 8" using free unfolding first_fd fdt.first_free_Some by (simp add: fdt.free_slots_def)
  obtain m where m: "fill_fd ?pcb fd (inode_index d) (fsys_funcs s) s = s\<lparr>mem := m\<rparr>" using fill_reset_frame by blast
  have out: "m a = mem s a" if "\<not> in_rng (?pcb + of_nat (48 * fd)) 48 a" for a
    using fill_reset_out(1)[OF fd that, of "inode_index d" "fsys_funcs s" s] by (simp add: m)
  have "m a = mem s a" if "in_rng fn (Suc (length str)) a" for a
    using out[of a] disjnt_rngD1[OF arg(5) fd_slot_in_pcb[OF fd], of a] that arg(4) by auto
  then have c: "cstr m fn str" using arg(3,4) cstr_cong[of fn str m "mem s"] by auto
  have dj: "disjnt_rng ?p (length str) fn (length str)"
  proof -
    have "in_rng ?pcb 8192 a" if "in_rng ?p 32 a" for a
      using that fd by (intro in_rng_offset[of ?pcb "fd_off fd 16" 32 a 8192]) (auto simp: fd_off_def)
    then show ?thesis using arg(4,5) in_rng_mono[of fn 32 _ 33] by (fastforce simp: disjnt_rng_def)
  qed
  have ne: "?p \<noteq> NULL" using PCB_nonnull[of "cur_pid s" "fd_off fd 16"] run fd by (simp add: proc_runs_def fd_off_def)
  have cs: "copy_string m fn ?p = (0, wr_bytes m ?p (str @ [0]))"
    using c dj ne arg(2,4) by (intro copy_string_cstr) auto
  have "read_dentry_by_name fn s = Inr (Some d)" using read_dentry_by_name_eq[OF fs arg(3,2)] d(1) by simp
  then have "open_file ?pcb fn fd s = Inr (int fd, s\<lparr>mem := wr_bytes m ?p (str @ [0])\<rparr>)"
    using d(2) m cs by (simp add: open_file_def Let_def)
  moreover have "string_length (mem s) fn \<le> 32" using arg by (simp add: string_length_cstr)
  ultimately have "open_fd filename s = Inr (int fd, s\<lparr>mem := wr_bytes m ?p (str @ [0])\<rparr>)"
    using free by (simp add: open_fd_def current_pcb_eq[OF run] arg(1))
  moreover have "?pcb + of_nat (48 * (fd + 1)) = ?p + of_nat 32" by (simp add: fd_off_def algebra_simps)
  then have "wr_bytes m ?p (str @ [0]) (?pcb + of_nat (48 * (fd + 1))) = 0"
    using arg(4) by (simp only:) (subst wr_bytes_in, simp_all add: nth_append)
  then have "mem (s\<lparr>mem := wr_bytes m ?p (str @ [0])\<rparr>) (?pcb + of_nat (48 * (fd + 1))) = 0" by simp
  ultimately show ?thesis by blast
qed

text \<open>Names that \<open>open\<close> refuses, at an address where there is a string.\<close>

definition open_refused :: "ptr \<Rightarrow> 'a kernel_scheme \<Rightarrow> bool" where
  "open_refused filename s \<longleftrightarrow> boot_ok (boot_block s) \<and> unat (inode_count (boot_block s)) \<le> 63 \<and>
    (\<exists>fn str. lin filename s = Inr fn \<and> fn \<noteq> NULL \<and> cstr (mem s) fn str \<and> length str \<le> 1000000 \<and>
      (length str > 32 \<or> (\<forall>fd \<in> {2..<8}. fd_view (find_PCB (cur_pid s)) fd s \<noteq> None) \<or>
       lookup_name str s = None \<or> (\<exists>d. lookup_name str s = Some d \<and> unat (file_type d) > 2)))"

lemma open_refused_eq:
  assumes run: "proc_runs s" and r: "open_refused filename s"
  shows "open_fd filename s = Inr (- 1, s)"
proof -
  let ?pcb = "find_PCB (cur_pid s)"
  obtain fn str where arg: "lin filename s = Inr fn" "fn \<noteq> NULL" "cstr (mem s) fn str" "length str \<le> 1000000"
    and bad: "length str > 32 \<or> (\<forall>fd \<in> {2..<8}. fd_view ?pcb fd s \<noteq> None) \<or>
      lookup_name str s = None \<or> (\<exists>d. lookup_name str s = Some d \<and> unat (file_type d) > 2)"
    and fs: "boot_ok (boot_block s)" "unat (inode_count (boot_block s)) \<le> 63"
    using r unfolding open_refused_def by blast
  have len: "string_length (mem s) fn = int (length str)" using arg by (simp add: string_length_cstr)
  have rd: "read_dentry_by_name fn s = Inr (lookup_name str s)"
    using read_dentry_by_name_eq[OF fs(1) arg(3,2)] fs(2) by (simp split: option.splits)
  have full: "free_fd ?pcb s = None" if "\<forall>fd \<in> {2..<8}. fd_view ?pcb fd s \<noteq> None"
    unfolding first_fd fdt.first_free_None using that by (auto simp: fdt.free_slots_def fd_used_def)
  have "open_file ?pcb fn i s = Inr (- 1, s)"
    if "lookup_name str s = None \<or> (\<exists>d. lookup_name str s = Some d \<and> unat (file_type d) > 2)" for i
    using that rd by (auto simp: open_file_def)
  with bad full show ?thesis
    by (auto simp: open_fd_def current_pcb_eq[OF run] arg(1) len split: option.splits)
qed

text \<open>
  C26: refused requests. With a name of more than 32 characters, all six descriptors in use, a name
  that does not exist or one of an unknown type, \<open>open\<close> returns -1 and changes nothing; \<open>close\<close>
  returns -1 and changes nothing on a descriptor outside 2 to 7 (the terminal's two included) or
  one that is not open.
\<close>

theorem open_close_errors:
  assumes run: "proc_runs s" and fs: "boot_ok (boot_block s)" "unat (inode_count (boot_block s)) \<le> 63"
    and arg: "lin filename s = Inr fn" "fn \<noteq> NULL" "cstr (mem s) fn str" "length str \<le> 1000000"
    and bad: "length str > 32 \<or> (\<forall>fd \<in> {2..<8}. fd_view (find_PCB (cur_pid s)) fd s \<noteq> None) \<or>
      lookup_name str s = None \<or> (\<exists>d. lookup_name str s = Some d \<and> unat (file_type d) > 2)"
    and fd: "fd < 2 \<or> fd > 7 \<or> fd_view (find_PCB (cur_pid s)) (nat fd) s = None"
  shows "open_fd filename s = Inr (- 1, s) \<and> close_fd fd s = Inr (- 1, s)"
proof
  show "close_fd fd s = Inr (- 1, s)"
    using fd by (auto simp: close_fd_def current_pcb_eq[OF run] fd_view_used)
  have "open_refused filename s" unfolding open_refused_def using fs arg bad by blast
  then show "open_fd filename s = Inr (- 1, s)" by (rule open_refused_eq[OF run])
qed

section \<open>Witnesses\<close>

text \<open>Process 0 runs on terminal 0 with the file system of before; the name is at \<^verbatim>\<open>0x600000\<close>.\<close>

definition demo_kmem :: mem where
  "demo_kmem = wr_bytes demo_fs_mem 0x600000 (asc ''prog'' @ [0])"

definition demo_kernel :: kernel where
  "demo_kernel = (filesys.extend demo_fs
     (kernel.fields [1, 0, 0, 0, 0, 0] 1 0 0 0 0x410000 0x410010 0x410020 0x410030 0x410040 0x410050 0x7FFF00 0x7FFF40))
     \<lparr>mem := demo_kmem, running_procs := [0, - 1, - 1], term_procs := [0, - 1, - 1, - 1, - 1, - 1]\<rparr>"

lemma demo_kernel_fields [simp]:
  "mem demo_kernel = demo_kmem" "filesys_addr demo_kernel = 0x500000" "boot_block demo_kernel = boot_block demo_fs"
  "dr_index demo_kernel = 0" "procs demo_kernel = [1, 0, 0, 0, 0, 0]" "process_count demo_kernel = 1"
  "running_procs demo_kernel = [0, - 1, - 1]" "term_procs demo_kernel = [0, - 1, - 1, - 1, - 1, - 1]"
  "vidmap_called demo_kernel = 0" "reg_esp demo_kernel = 0x7FFF00" "reg_ebp demo_kernel = 0x7FFF40"
  "terminal_funcs demo_kernel = 0x410000" "rtc_funcs demo_kernel = 0x410010"
  "fsys_funcs demo_kernel = 0x410020" "dir_funcs demo_kernel = 0x410030"
  "elf_str demo_kernel = 0x410040" "shell_str demo_kernel = 0x410050"
  by (simp_all add: demo_kernel_def filesys.defs kernel.defs)

lemma demo_paging_sched:
  "running_terminal demo_paging = 0" "display_terminal demo_paging = 0" "video_mem demo_paging = VIDEO"
  "screen_x demo_paging = 5" "screen_y demo_paging = 3" "key_index demo_paging = [0, 0, 0]"
  by (simp_all add: demo_paging_def init_paging_def map_v_p_def enable_paging_def demo_boot_def demo_rtc_def
      rtc.defs paging.defs console.defs demo_console_def Let_def numeral_3_eq_3 rtc_init_def rtc_open_def
      rtc_set_freq_def enable_irq_def clear_port_bit_def inb_def outb_def cli_def)

lemma demo_kernel_sched [simp]:
  "running_terminal demo_kernel = 0" "display_terminal demo_kernel = 0" "video_mem demo_kernel = VIDEO"
  "screen_x demo_kernel = 5" "screen_y demo_kernel = 3" "key_index demo_kernel = [0, 0, 0]"
  using demo_paging_sched
  by (simp_all add: demo_kernel_def demo_fs_def filesys.defs kernel.defs paging.defs)

lemma demo_kernel_walk:
  "low_mapped demo_kernel"
  "walk demo_kernel a = (if drop_bit 22 a = 1 \<or> drop_bit 12 a = 0xB8 then Some (a, True, True) else None)"
proof -
  let ?s = "demo_kernel\<lparr>mem := mem demo_paging\<rparr>"
  have low: "low_mapped demo_kernel = low_mapped demo_paging"
    by (simp add: demo_kernel_def demo_fs_def filesys.defs kernel.defs paging.defs low_mapped_def paging_ok_def)
  then show "low_mapped demo_kernel" using demo_paging_low by simp
  have "walk demo_kernel a = walk ?s a"
    using low demo_paging_low by (simp add: walk_mem)
  also have "\<dots> = walk demo_paging a"
    by (simp add: demo_kernel_def demo_fs_def filesys.defs kernel.defs paging.defs walk_def Let_def)
  also have "\<dots> = walk (map_4kb VIDEO VIDEO 1 1 (map_4mb 0x400000 0x400000 1 1 (blank_tables 0 0 demo_boot))) a"
    by (simp add: demo_paging_def init_paging_eq enable_paging_def walk_def Let_def)
  also have "\<dots> = (if drop_bit 22 a = 1 \<or> drop_bit 12 a = 0xB8 then Some (a, True, True) else None)"
    using walk_video_page(1)[of demo_boot 0 0 a] by (simp add: demo_boot_addrs)
  finally show "walk demo_kernel a = (if drop_bit 22 a = 1 \<or> drop_bit 12 a = 0xB8 then Some (a, True, True) else None)" .
qed

lemma kernel_page_index: "q < 0x400000 \<Longrightarrow> drop_bit 22 (0x400000 + q) = 1" for q :: u32
proof -
  assume q: "q < 0x400000"
  have "unat (0x400000 + q) = 0x400000 + unat q"
    using q by (simp add: unat_word_ariths word_less_nat_alt)
  then have "unat (drop_bit 22 (0x400000 + q)) = 1"
    using q unfolding drop_bit_eq_div unat_div by (simp add: word_less_nat_alt div_nat_eqI)
  then show ?thesis by (simp add: word_unat_eq_iff)
qed

lemma demo_kernel_mapped: "kernel_mapped demo_kernel"
  by (simp add: kernel_mapped_def demo_kernel_walk kernel_page_index)

lemma demo_cur: "cur_pid demo_kernel = 0" "find_PCB 0 = 0x7FE000" "proc_runs demo_kernel"
  by (simp_all add: cur_pid_def find_PCB_def proc_runs_def demo_kernel_mapped)

lemma demo_name_arg: "name_arg 0x600000 0x600000 (asc ''prog'') demo_kernel"
proof -
  have "lin 0x600000 demo_kernel = Inr 0x600000"
    using deref_kernel[OF demo_kernel_mapped, of "0x600000"] by (simp add: lin_def)
  moreover have "disjnt_rng 0x7FE000 8192 0x600000 (Suc (length (asc ''prog'')))"
    by (rule disjnt_rng_sym, rule disjnt_rng_below) (simp_all add: asc_def)
  moreover have "cstr demo_kmem 0x600000 (asc ''prog'')"
    unfolding demo_kmem_def by (rule cstr_wr_bytes) (simp_all add: asc_def of_char_def)
  ultimately show ?thesis by (simp add: name_arg_def demo_cur asc_def)
qed

lemma demo_lookup: "lookup_name (asc ''prog'') demo_kernel = Some demo_dentry"
  by (simp add: lookup_name_def named_def dname_def demo_dentry_def asc_def of_char_def)

lemma demo_zero: "0x600010 \<le> unat a \<Longrightarrow> demo_kmem a = 0"
  by (simp add: demo_kmem_def demo_fs_mem_def wr_bytes_out st32_out in_rng_unat asc_def length_demo_file)

lemma demo_fds: "i + 4 \<le> 8192 \<Longrightarrow> ld_field 0x7FE000 i demo_kernel = 0"
proof -
  assume i: "i + 4 \<le> 8192"
  have "demo_kmem (0x7FE000 + of_nat k) = 0" if "k < 8192" for k
    using that by (intro demo_zero) (simp add: unat_word_ariths)
  from this[of i] this[of "i + 1"] this[of "i + 2"] this[of "i + 3"] i show ?thesis
    by (simp add: ld_field_def ld32_def add.assoc add.commute)
qed

theorem open_close_roundtrip_witness:
  "\<exists>t u. open_fd 0x600000 demo_kernel = Inr (2, t) \<and> close_fd 2 t = Inr (0, u) \<and>
    fd_view 0x7FE000 2 t = Some (0x410020, 0, 0) \<and> fd_view 0x7FE000 2 u = None"
proof -
  have "free_fd 0x7FE000 demo_kernel = Some 2"
    by (simp add: free_fd_def demo_fds fd_off_def upt_rec)
  moreover have "boot_ok (boot_block demo_kernel)" using demo_fs_ok(1) by (simp add: fs_wf_def)
  ultimately obtain t u where "open_fd 0x600000 demo_kernel = Inr (int 2, t)" "close_fd (int 2) t = Inr (0, u)"
    "\<forall>j < 8. fd_view 0x7FE000 j t = (if j = 2 then Some (fops_of demo_dentry demo_kernel, inode_of demo_dentry, 0)
      else fd_view 0x7FE000 j demo_kernel)"
    "\<forall>j < 8. fd_view 0x7FE000 j u = fd_view 0x7FE000 j demo_kernel"
    using open_close_roundtrip[OF demo_cur(3) demo_name_arg _ demo_lookup, of 2, unfolded demo_cur(1,2)]
    by (auto simp: demo_dentry_def)
  moreover have "fd_view 0x7FE000 2 demo_kernel = None" by (simp add: fd_view_used demo_fds fd_off_def)
  ultimately show ?thesis by (auto simp: fops_of_def inode_of_def demo_dentry_def)
qed

theorem open_close_errors_witness:
  "\<exists>s. open_fd 0x600000 s = Inr (- 1, s) \<and> close_fd 1 s = Inr (- 1, s) \<and> lookup_name (asc ''none'') s = None \<and> s \<noteq> demo_kernel"
proof -
  let ?s = "demo_kernel\<lparr>mem := wr_bytes demo_kmem 0x600000 (asc ''none'' @ [0])\<rparr>"
  have lk: "lookup_name (asc ''none'') ?s = None"
    by (simp add: lookup_name_def named_def dname_def demo_dentry_def asc_def of_char_def)
  have "lin 0x600000 ?s = Inr 0x600000"
    using demo_name_arg demo_kernel_mapped by (simp add: name_arg_def lin_mem)
  moreover have "cstr (mem ?s) 0x600000 (asc ''none'')"
    unfolding kernel.simps by simp (rule cstr_wr_bytes, simp_all add: asc_def of_char_def)
  moreover have "proc_runs ?s" using demo_cur(3) by simp
  moreover have "boot_ok (boot_block ?s)" using demo_fs_ok(1) by (simp add: fs_wf_def)
  ultimately have "open_fd 0x600000 ?s = Inr (- 1, ?s) \<and> close_fd 1 ?s = Inr (- 1, ?s)"
    using lk by (intro open_close_errors[where fn = "0x600000" and str = "asc ''none''"]) (simp_all add: asc_def)
  moreover have "mem ?s 0x600000 \<noteq> mem demo_kernel 0x600000"
    by (simp add: demo_kmem_def wr_bytes_def asc_def of_char_def)
  ultimately show ?thesis using lk by (metis (no_types))
qed

end
