(* ===== verification/Proc_Table.thy ===== *)
theory Proc_Table
  imports Process
begin

text \<open>
  The process table over time. Processes come and go through \<open>add_process\<close> and \<open>delete_process\<close> of
  \<^verbatim>\<open>student-distrib/syscalls.c\<close> in any order and on any terminal. The theorem is the reason for the
  odd arithmetic in \<open>add_process\<close>: a slot stays reserved for every terminal that has no process, so
  that a shell can always be started there, and there are never more than six processes.
\<close>

section \<open>Counting processes\<close>

lemma length_filter_update:
  "i < length xs \<Longrightarrow> length (filter P (xs[i := v])) + (if P (xs ! i) then 1 else 0) =
    length (filter P xs) + (if P v then 1 else 0)"
proof (induction xs arbitrary: i)
  case (Cons x xs)
  then show ?case by (cases i) auto
qed simp

lemma length_filter_map: "map P xs = map Q ys \<Longrightarrow> length (filter P xs) = length (filter Q ys)"
proof (induction xs arbitrary: ys)
  case (Cons x xs)
  then show ?case by (cases ys) auto
qed simp

definition tcount :: "nat \<Rightarrow> int list \<Rightarrow> nat" where
  "tcount t ts = length (filter (\<lambda>x. x = int t) ts)"

text \<open>The slots that are spoken for: the processes, and one for each terminal that has none.\<close>

definition reserved_slots :: "int list \<Rightarrow> nat" where
  "reserved_slots ts = max 1 (tcount 0 ts) + max 1 (tcount 1 ts) + max 1 (tcount 2 ts)"

lemma tcount_le: "tcount t ts \<le> length ts"
  by (simp add: tcount_def)

lemma tcount_update:
  "i < length ts \<Longrightarrow> ts ! i = - 1 \<Longrightarrow> tcount x (ts[i := int r]) = tcount x ts + (if x = r then 1 else 0)"
  using length_filter_update[of i ts "\<lambda>y. y = int x" "int r"] by (auto simp: tcount_def)

lemma terms_update:
  "r < 3 \<Longrightarrow> \<forall>x \<in> set ts. - 1 \<le> x \<and> x < 3 \<Longrightarrow> \<forall>x \<in> set (ts[i := int r]). - 1 \<le> x \<and> x < 3"
  using set_update_subset_insert[of ts i "int r"] by force

lemma count_procs_eq:
  "\<forall>x \<in> set ts. x < 3 \<Longrightarrow> count_procs ts [a, b, c] =
    Inr [a + of_nat (tcount 0 ts), b + of_nat (tcount 1 ts), c + of_nat (tcount 2 ts)]"
proof (induction ts arbitrary: a b c)
  case (Cons x ts)
  consider "x < 0" | "x = 0" | "x = 1" | "x = 2" using Cons.prems by force
  then show ?case using Cons by cases (auto simp: tcount_def add.assoc)
qed (simp add: tcount_def)

lemma num_virt_eq:
  assumes "a \<le> 6" "b \<le> 6" "c \<le> 6"
  shows "num_virt [of_nat a, of_nat b, of_nat c] = of_nat (max 1 a + max 1 b + max 1 c)"
proof -
  have z: "(of_nat n :: u32) = 0 \<longleftrightarrow> n = 0" if "n \<le> 6" for n
    using that unat_of_nat32[of n] by (auto simp flip: unat_eq_0)
  have s: "(if (of_nat n :: u32) = 0 then v + 1 else v + of_nat n) = v + of_nat (max 1 n)" if "n \<le> 6" for n v
    using z[OF that] by (cases n) auto
  show ?thesis unfolding num_virt_def fold_simps using assms by (simp add: s add.assoc)
qed

lemma tcount_total:
  "\<forall>x \<in> set ts. - 1 \<le> x \<and> x < 3 \<Longrightarrow>
    tcount 0 ts + tcount 1 ts + tcount 2 ts = length (filter (\<lambda>x. x \<noteq> - 1) ts)"
proof (induction ts)
  case (Cons x ts)
  consider "x = - 1" | "x = 0" | "x = 1" | "x = 2" using Cons.prems by force
  then show ?case using Cons by cases (auto simp: tcount_def)
qed (simp add: tcount_def)

section \<open>The invariant\<close>

definition num_used :: "'a kernel_scheme \<Rightarrow> nat" where
  "num_used s = length (filter (\<lambda>x. x \<noteq> 0) (procs s))"

definition table_ok :: "'a kernel_scheme \<Rightarrow> bool" where
  "table_ok s \<longleftrightarrow> length (procs s) = 6 \<and> length (term_procs s) = 6 \<and>
    unat (running_terminal s) < 3 \<and> unat (display_terminal s) < 3 \<and>
    map (\<lambda>x. x \<noteq> 0) (procs s) = map (\<lambda>x. x \<noteq> - 1) (term_procs s) \<and>
    (\<forall>x \<in> set (term_procs s). - 1 \<le> x \<and> x < 3) \<and>
    process_count s = of_nat (num_used s) \<and> reserved_slots (term_procs s) \<le> 6"

lemma table_okD:
  assumes "table_ok s"
  shows "length (procs s) = 6" "length (term_procs s) = 6" "unat (running_terminal s) < 3"
    "\<forall>x \<in> set (term_procs s). - 1 \<le> x \<and> x < 3"
    "num_used s = tcount 0 (term_procs s) + tcount 1 (term_procs s) + tcount 2 (term_procs s)"
    "i < 6 \<Longrightarrow> procs s ! i = 0 \<longleftrightarrow> term_procs s ! i = - 1"
    "reserved_slots (term_procs s) \<le> 6"
proof -
  note d = assms[unfolded table_ok_def]
  show "length (procs s) = 6" "length (term_procs s) = 6" "unat (running_terminal s) < 3"
    "\<forall>x \<in> set (term_procs s). - 1 \<le> x \<and> x < 3" "reserved_slots (term_procs s) \<le> 6"
    using d by blast+
  show "num_used s = tcount 0 (term_procs s) + tcount 1 (term_procs s) + tcount 2 (term_procs s)"
    using d by (subst tcount_total) (auto simp: num_used_def intro: length_filter_map)
  show "procs s ! i = 0 \<longleftrightarrow> term_procs s ! i = - 1" if "i < 6"
  proof -
    have m: "map (\<lambda>x. x \<noteq> 0) (procs s) = map (\<lambda>x. x \<noteq> - 1) (term_procs s)"
      and l: "length (procs s) = 6" "length (term_procs s) = 6" using d by blast+
    from arg_cong[OF m, of "\<lambda>l. l ! i"] l that show ?thesis by simp
  qed
qed

interpretation ptab: slot_table "\<lambda>s i. procs s ! i \<noteq> 0" "\<lambda>i s. s\<lparr>procs := (procs s)[i := 1]\<rparr>"
    "\<lambda>i s. s\<lparr>procs := (procs s)[i := 0]\<rparr>" "\<lambda>s. length (procs s) = 6" 0 6
  by unfold_locales (auto simp: nth_list_update)

lemma free_proc_first: "free_proc s = ptab.first_free s"
  unfolding free_proc_def ptab.first_free_def by simp

lemma free_proc_None:
  assumes "length (procs s) = 6"
  shows "free_proc s = None \<longleftrightarrow> num_used s = 6"
proof -
  have "free_proc s = None \<longleftrightarrow> (\<forall>i < 6. procs s ! i \<noteq> 0)"
    unfolding free_proc_first ptab.first_free_None by (auto simp: ptab.free_slots_def)
  also have "\<dots> \<longleftrightarrow> filter (\<lambda>x. x \<noteq> 0) (procs s) = procs s"
    using assms by (auto simp: filter_id_conv all_set_conv_all_nth)
  also have "\<dots> \<longleftrightarrow> num_used s = 6"
    using assms by (metis num_used_def filter_id_conv length_filter_less less_irrefl)
  finally show ?thesis .
qed

lemma sint_small: "unat (t :: u32) < 3 \<Longrightarrow> sint t = int (unat t)"
  using sint_of_nat32[of "unat t"] by simp

lemma tcount_nth:
  fixes t :: u32
  assumes "unat t < 3"
  shows "[of_nat (tcount 0 ts), of_nat (tcount 1 ts), of_nat (tcount 2 ts)] ! unat t = (of_nat (tcount (unat t) ts) :: u32)"
proof -
  have "unat t = 0 \<or> unat t = 1 \<or> unat t = 2" using assms by arith
  then show ?thesis by (elim disjE) simp_all
qed

text \<open>What \<open>add_process\<close> does in a well-formed table, without its word arithmetic.\<close>

lemma add_process_eq:
  assumes "table_ok s"
  shows "add_process s =
    (if tcount (unat (running_terminal s)) (term_procs s) \<noteq> 0 \<and> reserved_slots (term_procs s) = 6
     then Inr (- 1, s)
     else case free_proc s of None \<Rightarrow> Inr (- 1, s)
       | Some i \<Rightarrow> Inr (int i, s\<lparr>procs := (procs s)[i := 1], process_count := process_count s + 1,
            running_procs := (running_procs s)[unat (running_terminal s) := int i],
            term_procs := (term_procs s)[i := int (unat (running_terminal s))]\<rparr>))"
proof -
  let ?ts = "term_procs s"
  note d = table_okD[OF assms]
  have c: "count_procs ?ts [0, 0, 0] = Inr [of_nat (tcount 0 ?ts), of_nat (tcount 1 ?ts), of_nat (tcount 2 ?ts)]"
    using count_procs_eq[of ?ts 0 0 0] d(4) by simp
  have le: "tcount t ?ts \<le> 6" for t using tcount_le[of t ?ts] d(2) by simp
  have v: "num_virt [of_nat (tcount 0 ?ts), of_nat (tcount 1 ?ts), of_nat (tcount 2 ?ts)] = of_nat (reserved_slots ?ts)"
    using num_virt_eq[OF le le le] by (simp add: reserved_slots_def)
  have "(of_nat (tcount t ?ts) :: u32) = 0 \<longleftrightarrow> tcount t ?ts = 0" for t
    using le[of t] unat_of_nat32[of "tcount t ?ts"] by (auto simp flip: unat_eq_0)
  moreover have "(of_nat (reserved_slots ?ts) :: u32) \<ge> 6 \<longleftrightarrow> reserved_slots ?ts = 6"
    using d(7) by (auto simp: word_le_nat_alt)
  ultimately show ?thesis
    unfolding add_process_def c sbind_simps tcount_nth[OF d(3)] v sint_small[OF d(3)]
    using d(3) by (simp del: One_nat_def split: option.split)
qed

lemma add_process_ok:
  assumes "table_ok s" "add_process s = Inr (r, t)"
  shows "table_ok t"
proof (cases "\<exists>i. r = int i \<and> free_proc s = Some i \<and> t = s\<lparr>procs := (procs s)[i := 1],
      process_count := process_count s + 1,
      running_procs := (running_procs s)[unat (running_terminal s) := int i],
      term_procs := (term_procs s)[i := int (unat (running_terminal s))]\<rparr> \<and>
      \<not> (tcount (unat (running_terminal s)) (term_procs s) \<noteq> 0 \<and> reserved_slots (term_procs s) = 6)")
  case False
  then have "t = s" using assms(2) unfolding add_process_eq[OF assms(1)] by (auto split: if_splits option.splits)
  with assms(1) show ?thesis by simp
next
  case True
  let ?r = "unat (running_terminal s)" and ?ts = "term_procs s"
  note d = table_okD[OF assms(1)]
  from True obtain i where i: "free_proc s = Some i"
    and t: "t = s\<lparr>procs := (procs s)[i := 1], process_count := process_count s + 1,
      running_procs := (running_procs s)[?r := int i], term_procs := ?ts[i := int ?r]\<rparr>"
    and room: "\<not> (tcount ?r ?ts \<noteq> 0 \<and> reserved_slots ?ts = 6)" by blast
  have i6: "i < 6" "procs s ! i = 0"
    using i unfolding free_proc_first ptab.first_free_Some by (auto simp: ptab.free_slots_def)
  then have ti: "?ts ! i = - 1" using d(6) by blast
  have cnt: "tcount x (?ts[i := int ?r]) = tcount x ?ts + (if x = ?r then 1 else 0)" for x
    using i6(1) d(2) ti by (intro tcount_update) simp_all
  have "?r = 0 \<or> ?r = 1 \<or> ?r = 2" using d(3) by arith
  then have "reserved_slots (?ts[i := int ?r]) \<le> 6"
    using room d(7) unfolding reserved_slots_def cnt by (elim disjE) (auto simp: max_def split: if_splits)
  moreover have "num_used t = num_used s + 1"
    using length_filter_update[of i "procs s" "\<lambda>x. x \<noteq> 0" 1] i6 d(1) by (simp add: num_used_def t)
  moreover have "map (\<lambda>x. x \<noteq> 0) ((procs s)[i := 1]) = map (\<lambda>x. x \<noteq> - 1) (?ts[i := int ?r])"
  proof -
    have e: "map (\<lambda>x. x \<noteq> - 1) (?ts[i := int n]) = (map (\<lambda>x. x \<noteq> - 1) ?ts)[i := True]" for n
      by (simp add: map_update)
    show ?thesis unfolding e using assms(1) by (simp add: map_update table_ok_def)
  qed
  moreover have "\<forall>x \<in> set (?ts[i := int ?r]). - 1 \<le> x \<and> x < 3"
    using d(3,4) by (rule terms_update)
  ultimately show ?thesis using assms(1) by (simp add: table_ok_def t)
qed

lemma delete_process_ok:
  assumes "table_ok s" "delete_process pid s = Inr (r, t)" "0 \<le> pid" "pid < 6" "procs s ! nat pid \<noteq> 0"
  shows "table_ok t \<and> procs t = (procs s)[nat pid := 0] \<and> term_procs t = (term_procs s)[nat pid := - 1] \<and>
    process_count t = process_count s - 1"
proof -
  let ?i = "nat pid" and ?ts = "term_procs s"
  note d = table_okD[OF assms(1)]
  have i: "?i < 6" using assms(3,4) by simp
  have t: "procs t = (procs s)[?i := 0]" "term_procs t = ?ts[?i := - 1]" "process_count t = process_count s - 1"
    "running_terminal t = running_terminal s" "display_terminal t = display_terminal s"
    using assms(2-4)
    by (auto simp: delete_process_def remove_term_process_def sbind_def Let_def split: sum.splits if_splits)
  have ti: "?ts ! ?i \<noteq> - 1" using d(6)[OF i] assms(5) by blast
  have le: "tcount x (?ts[?i := - 1]) \<le> tcount x ?ts" for x
    using length_filter_update[of ?i ?ts "\<lambda>y. y = int x" "- 1"] i d(2) by (auto simp: tcount_def split: if_splits)
  have "reserved_slots (?ts[?i := - 1]) \<le> reserved_slots ?ts"
    using le[of 0] le[of 1] le[of 2] unfolding reserved_slots_def by linarith
  then have "reserved_slots (?ts[?i := - 1]) \<le> 6" using d(7) by simp
  moreover have "num_used s = num_used t + 1"
    using length_filter_update[of ?i "procs s" "\<lambda>x. x \<noteq> 0" 0] i d(1) assms(5) by (simp add: num_used_def t)
  moreover have "map (\<lambda>x. x \<noteq> 0) ((procs s)[?i := 0]) = map (\<lambda>x. x \<noteq> - 1) (?ts[?i := - 1])"
    using assms(1) by (simp add: map_update table_ok_def)
  moreover have "\<forall>x \<in> set (?ts[?i := - 1]). - 1 \<le> x \<and> x < 3"
    using d(4) set_update_subset_insert[of ?ts ?i "- 1"] by force
  ultimately show ?thesis using assms(1) by (auto simp: table_ok_def t)
qed

section \<open>Every history of the table\<close>

text \<open>
  The table as the kernel starts it, and the ways it changes: a process is added on the running
  terminal, a live process is deleted, another terminal runs or is displayed, and anything that
  leaves the table alone.
\<close>

definition table_init :: "'a kernel_scheme \<Rightarrow> bool" where
  "table_init s \<longleftrightarrow> procs s = replicate 6 0 \<and> term_procs s = replicate 6 (- 1) \<and> process_count s = 0 \<and>
    unat (running_terminal s) < 3 \<and> unat (display_terminal s) < 3"

inductive table_step :: "'a kernel_scheme \<Rightarrow> 'a kernel_scheme \<Rightarrow> bool" where
  Add: "add_process s = Inr (r, t) \<Longrightarrow> table_step s t"
| Delete: "0 \<le> pid \<Longrightarrow> pid < 6 \<Longrightarrow> procs s ! nat pid \<noteq> 0 \<Longrightarrow> delete_process pid s = Inr (r, t) \<Longrightarrow> table_step s t"
| Other: "procs t = procs s \<Longrightarrow> term_procs t = term_procs s \<Longrightarrow> process_count t = process_count s \<Longrightarrow>
    unat (running_terminal t) < 3 \<Longrightarrow> unat (display_terminal t) < 3 \<Longrightarrow> table_step s t"

inductive_cases table_stepE: "table_step s t"

lemma table_step_ok: "table_ok s \<Longrightarrow> table_step s t \<Longrightarrow> table_ok t"
  by (erule table_stepE)
     (use add_process_ok delete_process_ok in \<open>blast, blast, auto simp: table_ok_def num_used_def\<close>)

lemma table_init_ok: "table_init s \<Longrightarrow> table_ok s"
  by (simp add: table_init_def table_ok_def num_used_def reserved_slots_def tcount_def)

interpretation table: step_invariant table_init table_step table_ok
  by unfold_locales (fact table_init_ok, fact table_step_ok)

text \<open>
  C27: the process table. In every history of additions and deletions the table is consistent: the
  count is the number of live processes, at most six, each assigned to one of the three terminals,
  and with the one slot that every empty terminal is entitled to they fit into the six. Hence
  \<open>add_process\<close> is refused only on a terminal that already has a process, and only when every other
  slot is taken or reserved; a terminal without a process can always start one.
\<close>

theorem process_table_invariant:
  assumes "reachable table_init table_step s"
  shows "table_ok s \<and> process_count s = of_nat (num_used s) \<and> num_used s \<le> 6 \<and>
    (add_process s = Inr (- 1, s) \<longleftrightarrow>
      tcount (unat (running_terminal s)) (term_procs s) \<noteq> 0 \<and> reserved_slots (term_procs s) = 6) \<and>
    (add_process s \<noteq> Inr (- 1, s) \<longrightarrow>
      (\<exists>i t. add_process s = Inr (int i, t) \<and> i < 6 \<and> procs s ! i = 0 \<and> table_ok t \<and>
        term_procs t = (term_procs s)[i := int (unat (running_terminal s))] \<and> num_used t = num_used s + 1))"
proof -
  have ok: "table_ok s" using assms by (rule table.reachable_inv)
  note d = table_okD[OF ok]
  let ?ts = "term_procs s" and ?r = "unat (running_terminal s)"
  have u6: "num_used s \<le> 6" using d(5,7) unfolding reserved_slots_def by linarith
  have "?r = 0 \<or> ?r = 1 \<or> ?r = 2" using d(3) by arith
  then have "num_used s < 6" if "\<not> (tcount ?r ?ts \<noteq> 0 \<and> reserved_slots ?ts = 6)"
    using that d(5,7) unfolding reserved_slots_def by (elim disjE) (auto simp: max_def split: if_splits)
  then have free: "free_proc s \<noteq> None" if "\<not> (tcount ?r ?ts \<noteq> 0 \<and> reserved_slots ?ts = 6)"
    using that free_proc_None[OF d(1)] by auto
  have add: "\<exists>i t. add_process s = Inr (int i, t) \<and> i < 6 \<and> procs s ! i = 0 \<and> table_ok t \<and>
        term_procs t = ?ts[i := int ?r] \<and> num_used t = num_used s + 1"
    if room: "\<not> (tcount ?r ?ts \<noteq> 0 \<and> reserved_slots ?ts = 6)"
  proof -
    obtain i where i: "free_proc s = Some i" using free[OF room] by blast
    have i6: "i < 6" "procs s ! i = 0"
      using i unfolding free_proc_first ptab.first_free_Some by (auto simp: ptab.free_slots_def)
    obtain t where t: "add_process s = Inr (int i, t)" "procs t = (procs s)[i := 1]"
        "term_procs t = ?ts[i := int ?r]"
      using room i by (auto simp: add_process_eq[OF ok])
    have "num_used t = num_used s + 1"
      using length_filter_update[of i "procs s" "\<lambda>x. x \<noteq> 0" 1] i6 d(1) by (simp add: num_used_def t)
    with t i6 add_process_ok[OF ok t(1)] show ?thesis by blast
  qed
  have "add_process s = Inr (- 1, s)" if "tcount ?r ?ts \<noteq> 0 \<and> reserved_slots ?ts = 6"
    using that by (simp add: add_process_eq[OF ok])
  moreover have "add_process s \<noteq> Inr (- 1, s)" if "\<not> (tcount ?r ?ts \<noteq> 0 \<and> reserved_slots ?ts = 6)"
    using add[OF that] by auto
  ultimately show ?thesis using ok u6 add unfolding table_ok_def by blast
qed

section \<open>Witness\<close>

definition demo_empty :: kernel where
  "demo_empty = demo_kernel\<lparr>procs := replicate 6 0, term_procs := replicate 6 (- 1), process_count := 0\<rparr>"

theorem process_table_invariant_witness:
  "\<exists>i t. add_process demo_empty = Inr (int i, t) \<and> i < 6 \<and> table_ok t \<and> num_used t = 1"
proof -
  have r: "reachable table_init table_step demo_empty"
    by (rule reachable.start) (simp add: table_init_def demo_empty_def)
  have "tcount (unat (running_terminal demo_empty)) (term_procs demo_empty) = 0" "num_used demo_empty = 0"
    by (simp_all add: tcount_def num_used_def demo_empty_def)
  with process_table_invariant[OF r] show ?thesis by auto
qed

end
