(* ===== verification/File_Io.thy ===== *)
theory File_Io
  imports Process
begin

text \<open>
  Reading a file through its descriptor: \<open>file_read\<close> of \<^verbatim>\<open>student-distrib/filesys.c\<close> keeps the
  position in the descriptor, so that consecutive reads deliver the file piece by piece. The
  interface of such a reader is the locale \<open>byte_stream\<close>; it is interpreted on \<open>file_read\<close>.
\<close>

section \<open>Streams of bytes\<close>

fun reads :: "(nat \<Rightarrow> 's \<Rightarrow> fault + bytes \<times> 's) \<Rightarrow> nat list \<Rightarrow> 's \<Rightarrow> fault + bytes list \<times> 's" where
  "reads rd [] s = Inr ([], s)"
| "reads rd (n # ns) s = sbind (rd n s) (\<lambda>(bs, s). sbind (reads rd ns s) (\<lambda>(bss, s). Inr (bs # bss, s)))"

fun slices :: "nat list \<Rightarrow> bytes \<Rightarrow> bytes list" where
  "slices [] bs = []"
| "slices (n # ns) bs = take n bs # slices ns (drop n bs)"

lemma concat_slices: "concat (slices ns bs) = take (sum_list ns) bs"
  by (induction ns bs rule: slices.induct) (simp_all add: take_add)

locale byte_stream =
  fixes rd :: "nat \<Rightarrow> 's \<Rightarrow> fault + bytes \<times> 's"
    and rest :: "'s \<Rightarrow> bytes"
    and ok :: "'s \<Rightarrow> bool"
    and limit :: nat
  assumes rd_step: "ok s \<Longrightarrow> n \<le> limit \<Longrightarrow> \<exists>t. rd n s = Inr (take n (rest s), t) \<and> rest t = drop n (rest s) \<and> ok t"
begin

lemma reads_slices:
  "ok s \<Longrightarrow> \<forall>n \<in> set ns. n \<le> limit \<Longrightarrow>
    \<exists>t. reads rd ns s = Inr (slices ns (rest s), t) \<and> rest t = drop (sum_list ns) (rest s) \<and> ok t"
proof (induction ns arbitrary: s)
  case (Cons n ns)
  then obtain t where t: "rd n s = Inr (take n (rest s), t)" "rest t = drop n (rest s)" "ok t"
    using rd_step[of s n] by auto
  with Cons obtain u where "reads rd ns t = Inr (slices ns (rest t), u)" "rest u = drop (sum_list ns) (rest t)" "ok u"
    by force
  with t show ?case by (auto simp: add.commute)
qed simp

text \<open>Enough requests deliver everything, and then nothing more.\<close>

lemma reads_all:
  assumes "ok s" "\<forall>n \<in> set ns. n \<le> limit" "length (rest s) \<le> sum_list ns"
  shows "\<exists>bss t. reads rd ns s = Inr (bss, t) \<and> concat bss = rest s \<and> ok t \<and> rest t = []"
proof -
  obtain t where t: "reads rd ns s = Inr (slices ns (rest s), t)" "rest t = drop (sum_list ns) (rest s)" "ok t"
    using reads_slices[OF assms(1,2)] by blast
  then show ?thesis using assms(3) by (auto simp: concat_slices)
qed

end

section \<open>Reading through a descriptor\<close>

text \<open>One call, with the bytes it left in the caller's buffer at \<open>p\<close>.\<close>

definition fd_read :: "nat \<Rightarrow> ptr \<Rightarrow> ptr \<Rightarrow> nat \<Rightarrow> 'a kernel_scheme \<Rightarrow> fault + bytes \<times> 'a kernel_scheme" where
  "fd_read fd buf p n s = sbind (file_read (int fd) buf (int n) s) (\<lambda>(r, t). Inr (rd_bytes (mem t) p (nat r), t))"

text \<open>
  A descriptor that is open on inode \<open>i\<close> of a well-formed file system, and a buffer of \<open>limit\<close> bytes:
  the buffer, the control block and the image do not overlap.
\<close>

definition fd_on :: "nat \<Rightarrow> u32 \<Rightarrow> ptr \<Rightarrow> ptr \<Rightarrow> nat \<Rightarrow> 'a kernel_scheme \<Rightarrow> bool" where
  "fd_on fd i buf p limit s \<longleftrightarrow> proc_runs s \<and> fd < 8 \<and> limit < 2147483648 \<and>
    (\<exists>fops pos. fd_view (find_PCB (cur_pid s)) fd s = Some (fops, i, pos) \<and>
       unat pos \<le> length (file_contents i s)) \<and>
    fs_wf s \<and> inode_wf i s \<and> lin buf s = Inr p \<and> p \<noteq> NULL \<and>
    disjnt_rng p limit (find_PCB (cur_pid s)) 8192 \<and>
    (\<forall>a. in_rng p limit a \<or> in_rng (find_PCB (cur_pid s)) 8192 a \<longrightarrow> \<not> in_image s a)"

definition fd_pos :: "nat \<Rightarrow> 'a kernel_scheme \<Rightarrow> u32" where
  "fd_pos fd s = ld_field (find_PCB (cur_pid s)) (fd_off fd POS) s"

definition fd_rest :: "nat \<Rightarrow> u32 \<Rightarrow> 'a kernel_scheme \<Rightarrow> bytes" where
  "fd_rest fd i s = drop (unat (fd_pos fd s)) (file_contents i s)"

lemma file_read_eq:
  assumes run: "proc_runs s" and fd: "fd < 8" "fd_view (find_PCB (cur_pid s)) fd s = Some (fops, i, pos)"
    and fs: "fs_wf s" "inode_wf i s" and buf: "lin buf s = Inr p" "p \<noteq> NULL" "n < 2147483648"
    and apart: "disjnt_rng p n (find_PCB (cur_pid s)) 8192" "\<And>a. in_rng p n a \<Longrightarrow> \<not> in_image s a"
  defines "bs \<equiv> take n (drop (unat pos) (file_contents i s))"
  shows "file_read (int fd) buf (int n) s = Inr (int (length bs),
    st_field (find_PCB (cur_pid s)) (fd_off fd POS) (pos + of_nat (length bs)) (s\<lparr>mem := wr_bytes (mem s) p bs\<rparr>))"
proof -
  let ?pcb = "find_PCB (cur_pid s)" and ?s1 = "s\<lparr>mem := wr_bytes (mem s) p bs\<rparr>"
  have ld: "ld_field ?pcb (fd_off fd 4) s = i" "ld_field ?pcb (fd_off fd 8) s = pos"
    using fd(2) by (auto simp: fd_view_def split: if_splits)
  have un: "unat (of_nat n :: u32) = n" using buf(3) by simp
  have "buffer_apart i p n s" using apart(2) by (rule image_buffer_apart[OF fs])
  then have rd: "read_data i pos p (of_nat n) s = Inr (int (length bs), ?s1)"
    using read_data_eq[of i s p "of_nat n" pos] fs(2) buf(2) by (simp add: un inode_wf_def Let_def bs_def)
  have "ld_field ?pcb (fd_off fd 8) ?s1 = ld_field ?pcb (fd_off fd 8) s"
  proof (rule ld_field_cong)
    fix a assume "in_rng (?pcb + of_nat (fd_off fd 8)) 4 a"
    then have "in_rng ?pcb 8192 a" using fd(1) by (intro in_rng_offset[of ?pcb "fd_off fd 8" 4]) (simp_all add: fd_off_def)
    then have "\<not> in_rng p n a" by (rule disjnt_rngD2[OF apart(1)])
    then have "\<not> in_rng p (length bs) a" by (auto simp: in_rng_def bs_def)
    then show "mem ?s1 a = mem s a" by (simp add: wr_bytes_out)
  qed (use fd(1) in \<open>simp add: fd_off_def\<close>)
  with rd ld show ?thesis by (simp add: file_read_def current_pcb_eq[OF run] buf(1))
qed

lemma fd_read_step:
  assumes on: "fd_on fd i buf p limit s" and n: "n \<le> limit"
  shows "\<exists>t. file_read (int fd) buf (int n) s = Inr (int (length (take n (fd_rest fd i s))), t) \<and>
    fd_read fd buf p n s = Inr (take n (fd_rest fd i s), t) \<and>
    fd_rest fd i t = drop n (fd_rest fd i s) \<and> fd_on fd i buf p limit t"
proof -
  let ?pcb = "find_PCB (cur_pid s)" and ?c = "file_contents i s"
  obtain fops pos where v: "fd_view ?pcb fd s = Some (fops, i, pos)" and pos: "unat pos \<le> length ?c"
    using on by (auto simp: fd_on_def)
  have o: "proc_runs s" "fd < 8" "limit < 2147483648" "fs_wf s" "inode_wf i s" "lin buf s = Inr p" "p \<noteq> NULL"
    "disjnt_rng p limit ?pcb 8192" "\<And>a. in_rng p limit a \<or> in_rng ?pcb 8192 a \<Longrightarrow> \<not> in_image s a"
    using on unfolding fd_on_def by blast+
  have ld: "ld_field ?pcb (fd_off fd 4) s = i" "ld_field ?pcb (fd_off fd 8) s = pos"
    "ld_field ?pcb (fd_off fd 12) s \<noteq> 0" "ld_field ?pcb (fd_off fd 0) s = fops"
    using v by (auto simp: fd_view_def split: if_splits)
  let ?bs = "take n (drop (unat pos) ?c)"
  have len: "length ?c \<le> 1023 * 4096" using o(5) by (intro length_file_contents) (simp add: inode_wf_def)
  have bl: "length ?bs \<le> n" by simp
  let ?s1 = "s\<lparr>mem := wr_bytes (mem s) p ?bs\<rparr>"
  have out: "wr_bytes (mem s) p ?bs a = mem s a" if "\<not> in_rng p limit a" for a
  proof (rule wr_bytes_out)
    have "length ?bs \<le> limit" using bl n by linarith
    with that show "\<not> in_rng p (length ?bs) a" using in_rng_mono by blast
  qed
  have ldc: "ld_field ?pcb k ?s1 = ld_field ?pcb k s" if "k + 4 \<le> 8192" for k
  proof (rule ld_field_cong[OF that])
    fix a assume "in_rng (?pcb + of_nat k) 4 a"
    then have "in_rng ?pcb 8192 a" using that by (rule in_rng_offset) simp
    then show "mem ?s1 a = mem s a" using out disjnt_rngD2[OF o(8)] by simp
  qed
  have off: "fd_off fd f + 4 \<le> 8192" if "f \<le> 12" for f using o(2) that by (simp add: fd_off_def)
  let ?np = "pos + of_nat (length ?bs)"
  let ?t = "st_field ?pcb (fd_off fd 8) ?np ?s1"
  have "disjnt_rng p n ?pcb 8192" using o(8) n by (auto simp: disjnt_rng_def dest: in_rng_mono)
  then have fr: "file_read (int fd) buf (int n) s = Inr (int (length ?bs), ?t)"
    using n o(3,9) by (intro file_read_eq[OF o(1,2) v o(4,5,6,7)]) (auto dest: in_rng_mono)
  have tout: "mem ?t a = mem ?s1 a" if "\<not> in_rng ?pcb 8192 a" for a
    using that off[of 8] by (intro st_field_out[of _ 8192]) simp_all
  have "rd_bytes (mem ?t) p (length ?bs) = ?bs"
  proof -
    have "rd_bytes (mem ?t) p (length ?bs) = rd_bytes (mem ?s1) p (length ?bs)"
    proof (rule rd_bytes_cong)
      fix a assume "in_rng p (length ?bs) a"
      then have "in_rng p limit a" by (rule in_rng_mono) (use bl n in linarith)
      then show "mem ?t a = mem ?s1 a" using disjnt_rngD1[OF o(8)] tout by blast
    qed (use bl n o(3) in linarith)
    also have "\<dots> = ?bs"
      using rd_wr_bytes[of ?bs "mem s" p] bl n o(3) by simp
    finally show ?thesis .
  qed
  then have r: "fd_read fd buf p n s = Inr (?bs, ?t)" by (simp add: fd_read_def fr)
  have same: "same_fs s ?t"
  proof -
    have "mem ?t a = mem s a" if "in_image s a" for a
    proof -
      have "\<not> in_rng p limit a" "\<not> in_rng ?pcb 8192 a" using that o(9) by blast+
      then show ?thesis using out tout by simp
    qed
    then show ?thesis by (simp add: same_fs_def)
  qed
  note fs = same_fs_contents[OF same o(4,5)]
  have np: "unat ?np = unat pos + length ?bs"
  proof -
    have "unat pos + length ?bs \<le> 1023 * 4096" using pos len by auto
    then have "unat pos + length ?bs < 4294967296" by simp
    then show ?thesis using unat_of_nat32[of "unat pos + length ?bs"] by simp
  qed
  have cp: "cur_pid ?t = cur_pid s" by (simp add: cur_pid_def st_field_def)
  have vt: "fd_view ?pcb fd ?t = Some (fops, i, ?np)"
    using ld o(2) ldc[OF off] by (simp add: fd_view_def fd_simps)
  have rest: "fd_rest fd i ?t = drop (unat ?np) ?c"
    unfolding fd_rest_def fd_pos_def cp fs(1) ld_st_same ..
  have "fd_rest fd i ?t = drop n (fd_rest fd i s)"
    unfolding rest np by (simp add: fd_rest_def fd_pos_def ld min_def add.commute)
  moreover have "fd_on fd i buf p limit ?t"
  proof -
    have "in_image ?t a = in_image s a" for a
      using same by (simp add: in_image_def same_fs_def image_size_def)
    moreover have "lin buf ?t = Inr p" using o(1,6) by (simp add: st_field_def lin_mem proc_runs_def)
    moreover have "proc_runs ?t" using o(1) by (simp add: st_field_def)
    moreover have "unat ?np \<le> length (file_contents i ?t)" unfolding fs(1) np using pos by auto
    ultimately show ?thesis using o fs vt unfolding fd_on_def cp by blast
  qed
  moreover have "take n (fd_rest fd i s) = ?bs" by (simp add: fd_rest_def fd_pos_def ld)
  ultimately show ?thesis using r fr by metis
qed

interpretation fdio: byte_stream "fd_read fd buf p" "fd_rest fd i" "fd_on fd i buf p limit" limit
  for fd buf p i limit
  by unfold_locales (use fd_read_step in blast)

text \<open>
  C24: reading a file from beginning to end. Through a descriptor that is open on a file, at
  position 0, any sequence of reads whose sizes add up to the length of the file or more completes
  without a fault; the pieces delivered, one after the other, are exactly the contents of the
  file, and from then on every read returns 0 bytes. The result of a read is the number of bytes, as
  the programs expect; the comment of \<open>file_read\<close> says 0 for success.
\<close>

theorem file_read_stream:
  assumes "fd_on fd i buf p limit s" "fd_pos fd s = 0"
    and "\<forall>n \<in> set ns. n \<le> limit" "length (file_contents i s) \<le> sum_list ns"
  shows "\<exists>bss t. reads (fd_read fd buf p) ns s = Inr (bss, t) \<and> concat bss = file_contents i s \<and>
    (\<forall>n \<le> limit. \<exists>u. file_read (int fd) buf (int n) t = Inr (0, u))"
proof -
  have rest: "fd_rest fd i s = file_contents i s" using assms(2) by (simp add: fd_rest_def)
  then obtain bss t where t: "reads (fd_read fd buf p) ns s = Inr (bss, t)" "concat bss = file_contents i s"
    "fd_on fd i buf p limit t" "fd_rest fd i t = []"
    using fdio.reads_all[OF assms(1,3)] assms(4) by auto
  have "\<exists>u. file_read (int fd) buf (int n) t = Inr (0, u)" if n: "n \<le> limit" for n
    using fd_read_step[OF t(3) n] t(4) by auto
  with t show ?thesis by blast
qed

section \<open>Witness\<close>

text \<open>Descriptor 2 of process 0 opened on the file of the example image.\<close>

definition demo_open :: kernel where
  "demo_open = fill_fd 0x7FE000 2 0 0x410020 demo_kernel"

lemma demo_open_on: "fd_on 2 0 0x600100 0x600100 16 demo_open" "fd_pos 2 demo_open = 0"
  "file_contents 0 demo_open = demo_file"
proof -
  obtain m where m: "demo_open = demo_kernel\<lparr>mem := m\<rparr>"
    unfolding demo_open_def using fill_reset_frame(1)[of "0x7FE000" 2 0 "0x410020" demo_kernel] by blast
  have out: "m a = demo_kmem a" if "\<not> in_rng 0x7FE000 8192 a" for a
    using fill_reset_out(1)[of 2 "0x7FE000" a 0 "0x410020" demo_kernel] fd_slot_in_pcb[of 2 "0x7FE000" a] that m
    by (simp add: demo_open_def) blast
  have dj: "disjnt_rng 0x500000 12288 0x7FE000 8192" "disjnt_rng 0x500000 12288 0x600100 16"
    "disjnt_rng 0x500000 12288 0x600000 5" "disjnt_rng 0x600100 16 0x7FE000 8192"
    by (rule disjnt_rng_below; simp)+
  have img: "in_image s a \<longleftrightarrow> in_rng 0x500000 12288 a" if "filesys_addr s = 0x500000" "boot_block s = boot_block demo_fs"
    for a and s :: "'b filesys_scheme"
    using that demo_fs_ok(3) by (simp add: in_image_def image_size_def)
  have "same_fs demo_fs demo_open"
  proof -
    have "m a = demo_fs_mem a" if "in_rng 0x500000 12288 a" for a
    proof -
      have "\<not> in_rng 0x7FE000 8192 a" "\<not> in_rng 0x600000 5 a" using that dj disjnt_rngD1 by blast+
      moreover have "length (asc ''prog'' @ [0]) = 5" by (simp add: asc_def)
      ultimately show ?thesis using out wr_bytes_out[of "0x600000" "asc ''prog'' @ [0]" a demo_fs_mem]
        unfolding demo_kmem_def by metis
    qed
    then show ?thesis using img[of demo_fs] by (simp add: same_fs_def m)
  qed
  note fs = same_fs_contents[OF this demo_fs_ok(1,2)]
  show fc: "file_contents 0 demo_open = demo_file" using fs(1) demo_contents by simp
  have cp: "cur_pid demo_open = 0" using demo_cur(1) by (simp add: m)
  have v: "fd_view 0x7FE000 2 demo_open = Some (0x410020, 0, 0)" by (simp add: demo_open_def fd_view_fill)
  then show "fd_pos 2 demo_open = 0" by (simp add: fd_pos_def cp demo_cur(2) fd_view_def split: if_splits)
  have "lin 0x600100 demo_open = Inr 0x600100"
    using deref_kernel[OF demo_kernel_mapped, of "0x600100"] demo_kernel_mapped by (simp add: m lin_def)
  moreover have "proc_runs demo_open" using demo_cur(3) by (simp add: m)
  moreover have "\<not> in_image demo_open a" if "in_rng 0x600100 16 a \<or> in_rng 0x7FE000 8192 a" for a
    using that dj disjnt_rngD2 img[of demo_open] by (auto simp: m)
  ultimately show "fd_on 2 0 0x600100 0x600100 16 demo_open"
    using fs(2,3) v dj(4) unfolding fd_on_def cp demo_cur(2) by auto
qed

theorem file_read_stream_witness:
  "\<exists>bss t. reads (fd_read 2 0x600100 0x600100) [3, 5, 16, 9] demo_open = Inr (bss, t) \<and> concat bss = demo_file"
  using file_read_stream[OF demo_open_on(1,2), of "[3, 5, 16, 9]"] demo_open_on(3) by (auto simp: length_demo_file)

end
