(* ===== verification/Exec.thy ===== *)
theory Exec
  imports Proc_Table
begin

text \<open>
  Starting and ending programs: \<open>execute\<close> and \<open>halt\<close> of \<^verbatim>\<open>student-distrib/syscalls.c\<close>, with \<open>getargs\<close>
  and \<open>vidmap\<close>. The code leaves these functions in other ways than returning, so their result is a
  \<open>flow\<close>: a return to the caller, the jump into user code with an instruction and a stack pointer, or
  the jump from \<open>halt\<close> to the label \<^verbatim>\<open>exec_ret\<close> inside \<open>execute\<close> with the status in a register. What
  follows that label is the function \<open>exec_ret\<close>. It stores the byte of the status in a variable of
  four bytes, whose other bytes are whatever the stack held: the parameter \<open>junk\<close>.

  The local variables of a call of \<open>execute\<close> that other functions get a pointer to are at the
  addresses in an \<open>exec_locals\<close>; it also holds the uninitialised names of the two descriptors that
  \<open>execute\<close> copies from its stack. \<^verbatim>\<open>eip_buf\<close> and \<^verbatim>\<open>dentry\<close> are filled and never used.
\<close>

section \<open>Operations\<close>

datatype flow = Ret int | To_User ptr ptr | Exec_Ret u8

record exec_locals =
  all_arguments_copy :: ptr
  executable :: ptr
  exe_data :: ptr
  exe_buf :: ptr
  conv_buf :: ptr
  stdin_name :: bytes
  stdout_name :: bytes

abbreviation (input) USER_IMAGE :: u32 where "USER_IMAGE \<equiv> 0x8048000"
abbreviation (input) USER_PROCESS_STACK :: u32 where "USER_PROCESS_STACK \<equiv> 0x83FFFFC"
abbreviation (input) USER_VIDMAP :: u32 where "USER_VIDMAP \<equiv> 0xF8000"
abbreviation (input) KERNEL_DS :: u16 where "KERNEL_DS \<equiv> 0x18"

definition lift :: "fault + 'b \<Rightarrow> (fault + 'b) option" where
  "lift r = Some r"

text \<open>Loading the file \<open>exe\<close> into the page of the new process.\<close>

definition load_program :: "ptr \<Rightarrow> 'a kernel_scheme \<Rightarrow> fault + 'a kernel_scheme" where
  "load_program exe s =
    sbind (read_dentry_by_name exe s) (\<lambda>_.
    sbind (deref USER_IMAGE s) (\<lambda>image.
    sbind (file_size exe s) (\<lambda>size.
    sbind (read_file_bytes_by_name exe image size s) (\<lambda>(_, s). Inr s))))"

text \<open>The assignment of a whole descriptor, the 32 bytes of its name included.\<close>

definition std_fd :: "ptr \<Rightarrow> nat \<Rightarrow> bytes \<Rightarrow> 'a kernel_scheme \<Rightarrow> 'a kernel_scheme" where
  "std_fd pcb fd nm s =
    (let s = st_field pcb (fd_off fd FOPS) (terminal_funcs s) s;
         s = st_field pcb (fd_off fd INODE) 0 s;
         s = st_field pcb (fd_off fd POS) 0 s;
         s = st_field pcb (fd_off fd FLAGS) 1 s
     in s\<lparr>mem := wr_bytes (mem s) (pcb + of_nat (fd_off fd FILE_NAME)) (take FNAME_MAX_LEN nm)\<rparr>)"

definition empty_fd :: "ptr \<Rightarrow> nat \<Rightarrow> 'a machine_scheme \<Rightarrow> 'a machine_scheme" where
  "empty_fd pcb i s =
    (let s = st_field pcb (fd_off i FOPS) NULL s;
         s = st_field pcb (fd_off i INODE) 0 s;
         s = st_field pcb (fd_off i POS) 0 s
     in st_field pcb (fd_off i FLAGS) 0 s)"

definition init_pcb ::
  "exec_locals \<Rightarrow> ptr \<Rightarrow> int \<Rightarrow> int \<Rightarrow> 'a kernel_scheme \<Rightarrow> 'a kernel_scheme" where
  "init_pcb loc pcb process_id parent_process_id s =
    (let s = std_fd pcb 0 (stdin_name loc) s;
         s = std_fd pcb 1 (stdout_name loc) s;
         s = fold (empty_fd pcb) [2..<FILE_ARRAY_LEN] s;
         s = st_field pcb P_ID (word_of_int process_id) s
     in st_field pcb PAR_P_ID (word_of_int parent_process_id) s)"

text \<open>From the new process id to the jump into the program.\<close>

definition enter_program ::
  "exec_locals \<Rightarrow> int \<Rightarrow> int \<Rightarrow> 'a kernel_scheme \<Rightarrow> (fault + flow \<times> 'a kernel_scheme) option" where
  "enter_program loc process_id parent_process_id s =
    fbind (lift (deref (find_PCB process_id) s)) (\<lambda>pcb.
    Option.bind (get_next_arguments (mem s) (all_arguments_copy loc) (pcb + of_nat ARG_BUFFER)) (\<lambda>(_, m).
    let s = s\<lparr>mem := m\<rparr>;
        s = snd (map_v_p USER_PROCESS_START_VIRTUAL
              (USER_PROCESS_START_PHYSICAL + word_of_int process_id * USER_PROCESS_SIZE) 1 1 1 s)
    in fbind (lift (load_program (executable loc) s)) (\<lambda>s.
       let s = init_pcb loc pcb process_id parent_process_id s;
           s = s\<lparr>tss_esp0 := 0x800000 - word_of_int process_id * 0x2000 - 4, tss_ss0 := KERNEL_DS\<rparr>
       in fbind (lift (if parent_process_id \<ge> 0
                       then sbind (deref (find_PCB parent_process_id) s) (\<lambda>p.
                         Inr (st_field p EBP (reg_ebp s) (st_field p ESP (reg_esp s) s)))
                       else Inr s)) (\<lambda>s.
          fbind (lift (deref (USER_IMAGE + 24) s)) (\<lambda>eip.
          Some (Inr (To_User (ld32 (mem s) eip) USER_PROCESS_STACK, s)))))))"

definition start_process ::
  "exec_locals \<Rightarrow> 'a kernel_scheme \<Rightarrow> (fault + flow \<times> 'a kernel_scheme) option" where
  "start_process loc s =
    (if unat (running_terminal s) \<ge> MAX_TERMINAL_NUM then Some (Inl Out_Of_Bounds)
     else let parent_process_id = running_procs s ! unat (running_terminal s)
          in fbind (lift (add_process s)) (\<lambda>(process_id, s).
             if process_id < 0
             then fbind (printf (conv_buf loc) (asc ''You can'' @ [39] @ asc ''t do that!'' @ [10]) [] s) (\<lambda>(_, s).
               Some (Inr (Ret 0, s)))
             else enter_program loc process_id parent_process_id s))"

definition execute ::
  "exec_locals \<Rightarrow> ptr \<Rightarrow> 'a kernel_scheme \<Rightarrow> (fault + flow \<times> 'a kernel_scheme) option" where
  "execute loc all_arguments s =
    fbind (lift (lin all_arguments s)) (\<lambda>all_arguments.
      if string_length (mem s) all_arguments \<ge> int MAX_BUFF_LENGTH then Some (Inl Out_Of_Bounds)
      else
      let s = s\<lparr>mem := snd (copy_string (mem s) all_arguments (all_arguments_copy loc))\<rparr>;
          command_length = get_argument_length (mem s) (all_arguments_copy loc) 0
      in if command_length < 0 then Some (Inr (Ret 0, s))
         else
         let s = poke (executable loc + word_of_int command_length) 0 s;
             (n, m) = get_argument (mem s) (all_arguments_copy loc) 0 (executable loc);
             s = s\<lparr>mem := m\<rparr>
         in if n < 0 then Some (Inr (Ret 0, s))
            else fbind (is_executable (exe_data loc) (exe_buf loc) (elf_str s) (executable loc) s) (\<lambda>(e, s).
              if e = 0 then Some (Inr (Ret (- 1), s)) else start_process loc s))"

definition exec_ret ::
  "exec_locals \<Rightarrow> u32 \<Rightarrow> u8 \<Rightarrow> 'a kernel_scheme \<Rightarrow> (fault + flow \<times> 'a kernel_scheme) option" where
  "exec_ret loc junk status s =
    (let output = sint ((junk AND 0xFFFFFF00) OR ucast status)
     in if unat (display_terminal s) \<ge> MAX_TERMINAL_NUM then Some (Inl Out_Of_Bounds)
        else if running_procs s ! unat (display_terminal s) < 0
        then fbind (printf (conv_buf loc) (asc ''Haha! Nice try. Restarting shell...'' @ [10]) [] s) (\<lambda>(_, s).
             fbind (execute loc (dechar (shell_str s)) s) (\<lambda>(fl, s).
               Some (Inr (case fl of Ret _ \<Rightarrow> Ret output | _ \<Rightarrow> fl, s))))
        else Some (Inr (Ret output, s)))"

section \<open>Address spaces\<close>

text \<open>The translation depends on the two tables only.\<close>

lemma walk_cong:
  assumes "low_mapped s" "page_dir t = page_dir s" "page_table t = page_table s"
    "page_table_addr t = page_table_addr s"
  shows "walk t = walk s" "low_mapped t" "kernel_mapped t = kernel_mapped s"
proof -
  have e: "walk t a = walk (s\<lparr>mem := mem t\<rparr>) a" for a using assms(2-4) by (simp add: walk_def Let_def)
  then show "walk t = walk s" using walk_mem[OF assms(1)] by auto
  show "low_mapped t" using assms by (simp add: low_mapped_def paging_ok_def)
  then show "kernel_mapped t = kernel_mapped s" using \<open>walk t = walk s\<close> assms(1) by (simp add: kernel_mapped_def)
qed

definition user_frame :: "int \<Rightarrow> u32" where
  "user_frame pid = 0x800000 + word_of_int pid * 0x400000"

lemma pid_cases: "0 \<le> pid \<Longrightarrow> pid < 6 \<Longrightarrow> pid \<in> {0, 1, 2, 3, 4, 5}" for pid :: int
  by auto

lemma user_frame_facts:
  assumes "0 \<le> pid" "pid < 6"
  shows "big_page (user_frame pid)" "user_frame pid \<noteq> 0" "unat (user_frame pid) = 0x800000 + 0x400000 * nat pid"
  using pid_cases[OF assms] by (auto simp: user_frame_def big_page_def mask_eq_exp_minus_1)

lemma map_user_page:
  assumes "kernel_mapped s" "0 \<le> pid" "pid < 6"
  shows "\<exists>pd. snd (map_v_p 0x8000000 (user_frame pid) 1 1 1 s) = s\<lparr>page_dir := pd\<rparr> \<and>
    kernel_mapped (s\<lparr>page_dir := pd\<rparr>) \<and>
    (\<forall>q < 0x400000. walk (s\<lparr>page_dir := pd\<rparr>) (0x8000000 + q) = Some (user_frame pid + q, True, True)) \<and>
    (\<forall>a. drop_bit 22 a \<noteq> 32 \<longrightarrow> walk (s\<lparr>page_dir := pd\<rparr>) a = walk s a)"
proof -
  note f = user_frame_facts[OF assms(2,3)]
  have v: "big_page 0x8000000" "(0x8000000 :: u32) \<noteq> 0" "drop_bit 22 (0x8000000 :: u32) = 32"
    by (simp_all add: big_page_def mask_eq_exp_minus_1 drop_bit_eq_div)
  have low: "low_mapped s" using assms(1) by (simp add: kernel_mapped_def)
  then have ok: "paging_ok s" by (simp add: low_mapped_def)
  let ?t = "map_4mb 0x8000000 (user_frame pid) 1 1 s"
  note w = walk_map_4mb[OF ok v(1) f(1) v(2), where rw = 1 and us = 1]
  have e: "\<exists>pd. ?t = s\<lparr>page_dir := pd\<rparr>" using map_4mb_eq[OF v(1) f(1) v(2), of 1 1 s] by (auto simp: map_4mb_def)
  have other: "walk ?t a = walk s a" if "drop_bit 22 a \<noteq> 32" for a using w(2) that v(3) by simp
  have km: "kernel_mapped ?t"
    using assms(1) w(4)[OF low] other kernel_page_index by (simp add: kernel_mapped_def)
  have "walk ?t (0x8000000 + q) = Some (user_frame pid + q, True, True)" if "q < 0x400000" for q
    using w(1)[OF that] f(2) by simp
  with e km other show ?thesis unfolding map_4mb_def by metis
qed

section \<open>The new control block\<close>

lemma ld_name:
  assumes "f \<in> {0, 4, 8, 12}" "i < 8" "j < 8" "length nm \<le> 32"
  shows "ld_field pcb (fd_off j f) (u\<lparr>mem := wr_bytes (mem u) (pcb + of_nat (fd_off i 16)) nm\<rparr>) =
    ld_field pcb (fd_off j f) u"
proof -
  have f: "f + 4 \<le> 16" using assms(1) by auto
  have "fd_off j f + 4 \<le> fd_off i 16 \<or> fd_off i 16 + length nm \<le> fd_off j f"
  proof (cases "j \<le> i")
    case False
    then have "48 * i + 48 \<le> 48 * j" by simp
    with assms(4) show ?thesis unfolding fd_off_def by linarith
  qed (use f in \<open>simp add: fd_off_def\<close>)
  moreover have "fd_off j f < 8192" "fd_off i 16 + length nm \<le> 8192"
    using assms f by (auto simp: fd_off_def)
  ultimately show ?thesis by (subst ld_field_wr) simp_all
qed

lemma fd_view_std:
  "i < 8 \<Longrightarrow> j < 8 \<Longrightarrow> fd_view pcb j (std_fd pcb i nm s) =
    (if j = i then Some (terminal_funcs s, 0, 0) else fd_view pcb j s)"
  by (simp add: fd_view_def std_fd_def fd_simps ld_name Let_def)

lemma fd_view_empty:
  "i < 8 \<Longrightarrow> j < 8 \<Longrightarrow> fd_view pcb j (empty_fd pcb i s) = (if j = i then None else fd_view pcb j s)"
  by (simp add: fd_view_def empty_fd_def fd_simps Let_def)

lemma fd_view_high: "384 \<le> i \<Longrightarrow> i < 8192 \<Longrightarrow> j < 8 \<Longrightarrow> fd_view pcb j (st_field pcb i v s) = fd_view pcb j s"
  by (simp add: fd_view_def ld_st_other fd_off_def)

lemma fd_view_cong:
  "j < 8 \<Longrightarrow> (\<And>k. k + 4 \<le> 384 \<Longrightarrow> ld_field pcb k t = ld_field pcb k s) \<Longrightarrow> fd_view pcb j t = fd_view pcb j s"
  by (simp add: fd_view_def fd_off_def)

definition same_but_mem :: "'a machine_scheme \<Rightarrow> 'a machine_scheme \<Rightarrow> bool" where
  "same_but_mem s t \<longleftrightarrow> (\<exists>m. t = s\<lparr>mem := m\<rparr>)"

lemma same_but_mem_intros:
  "same_but_mem s s" "same_but_mem s t \<Longrightarrow> same_but_mem s (st_field p i v t)"
  "same_but_mem s' t' \<Longrightarrow> same_but_mem s' (std_fd pcb k nm t')"
  "same_but_mem s t \<Longrightarrow> same_but_mem s (empty_fd pcb k t)"
  by (auto simp: same_but_mem_def std_fd_def empty_fd_def st_field_def Let_def intro: exI[of _ "mem s"])

lemma fd_table_out:
  assumes "i < 8" "\<not> in_rng pcb 384 a"
  shows "mem (std_fd pcb i nm s) a = mem s a" "mem (empty_fd pcb i s) a = mem s a"
proof -
  have o: "\<not> in_rng (pcb + of_nat (48 * i)) 48 a"
    using assms in_rng_offset[of pcb "48 * i" 48 a 384] by auto
  show "mem (std_fd pcb i nm s) a = mem s a" "mem (empty_fd pcb i s) a = mem s a"
    using assms(1) o by (simp_all add: std_fd_def empty_fd_def fd_off_out name_out Let_def)
qed

lemma init_pcb_eq:
  "\<exists>m. init_pcb loc pcb pid par s = s\<lparr>mem := m\<rparr> \<and>
    (\<forall>j < 8. fd_view pcb j (s\<lparr>mem := m\<rparr>) = (if j < 2 then Some (terminal_funcs s, 0, 0) else None)) \<and>
    ld_field pcb P_ID (s\<lparr>mem := m\<rparr>) = word_of_int pid \<and> ld_field pcb PAR_P_ID (s\<lparr>mem := m\<rparr>) = word_of_int par \<and>
    (\<forall>a. \<not> in_rng pcb 384 a \<and> \<not> in_rng (pcb + of_nat 512) 8 a \<longrightarrow> m a = mem s a)"
proof -
  define s2 where "s2 = std_fd pcb 1 (stdout_name loc) (std_fd pcb 0 (stdin_name loc) s)"
  define s3 where "s3 = fold (empty_fd pcb) [2..<8] s2"
  define t where "t = st_field pcb 516 (word_of_int par) (st_field pcb 512 (word_of_int pid) s3)"
  have it: "init_pcb loc pcb pid par s = t" by (simp add: init_pcb_def t_def s3_def s2_def Let_def)
  have up: "[2..<8] = [2, 3, 4, 5, 6, 7 :: nat]" by (simp add: upt_rec)
  have "same_but_mem s t"
    unfolding t_def s3_def s2_def up fold_simps id_apply comp_apply by (intro same_but_mem_intros)
  then have tm: "t = s\<lparr>mem := mem t\<rparr>" by (auto simp: same_but_mem_def)
  have tf: "terminal_funcs (std_fd pcb 0 nm s) = terminal_funcs s" for nm
    by (simp add: std_fd_def Let_def)
  have v: "fd_view pcb j t = (if j < 2 then Some (terminal_funcs s, 0, 0) else None)" if "j < 8" for j
  proof -
    have "fd_view pcb j t = fd_view pcb j s3" unfolding t_def using that by (simp add: fd_view_high)
    also have "\<dots> = (if j < 2 then Some (terminal_funcs s, 0, 0) else None)"
      unfolding s3_def up fold_simps s2_def using that by (auto simp: fd_view_empty fd_view_std tf)
    finally show ?thesis .
  qed
  have o: "mem t a = mem s a" if "\<not> in_rng pcb 384 a" "\<not> in_rng (pcb + of_nat 512) 8 a" for a
  proof -
    have "\<not> in_rng (pcb + of_nat 512) 4 a" "\<not> in_rng (pcb + of_nat 516) 4 a"
      using that(2) in_rng_mono[of "pcb + of_nat 512" 4 a 8] in_rng_offset[of "pcb + of_nat 512" 4 4 a 8] by (auto simp: add.commute)
    then have "mem t a = mem s3 a" by (simp add: t_def st_field_def st32_out)
    also have "\<dots> = mem s a" unfolding s3_def up fold_simps s2_def using that(1) by (simp add: fd_table_out)
    finally show ?thesis .
  qed
  have "ld_field pcb 512 t = word_of_int pid" "ld_field pcb 516 t = word_of_int par"
    by (simp_all add: t_def ld_st_other)
  with v o it tm show ?thesis by metis
qed

section \<open>Running a command\<close>

text \<open>
  Where things are: the local arrays of \<open>execute\<close>, the file system image and the control blocks are
  in the kernel's page, below 8 MB, and do not overlap.
\<close>

definition in_locals :: "exec_locals \<Rightarrow> ptr \<Rightarrow> bool" where
  "in_locals loc a \<longleftrightarrow> in_rng (all_arguments_copy loc) 128 a \<or> in_rng (executable loc) 128 a \<or>
    in_rng (exe_data loc) 5 a \<or> in_rng (exe_buf loc) 4 a"

definition in_pcbs :: "ptr \<Rightarrow> bool" where
  "in_pcbs a \<longleftrightarrow> (\<exists>pid. 0 \<le> pid \<and> pid < 6 \<and> in_rng (find_PCB pid) 528 a)"

definition exec_layout :: "exec_locals \<Rightarrow> 'a kernel_scheme \<Rightarrow> bool" where
  "exec_layout loc s \<longleftrightarrow>
    all_arguments_copy loc \<noteq> NULL \<and> executable loc \<noteq> NULL \<and> exe_data loc \<noteq> NULL \<and> exe_buf loc \<noteq> NULL \<and>
    elf_str s \<noteq> NULL \<and>
    disjnt_rng (all_arguments_copy loc) 128 (executable loc) 128 \<and>
    disjnt_rng (exe_data loc) 5 (exe_buf loc) 4 \<and>
    (\<forall>a. in_rng (exe_data loc) 5 a \<or> in_rng (exe_buf loc) 4 a \<longrightarrow>
      \<not> in_rng (all_arguments_copy loc) 128 a \<and> \<not> in_rng (executable loc) 128 a) \<and>
    (\<forall>a. in_locals loc a \<longrightarrow> unat a < 0x800000 \<and> \<not> in_image s a \<and> \<not> in_rng (elf_str s) 4 a \<and> \<not> in_pcbs a) \<and>
    (\<forall>a. in_image s a \<longrightarrow> unat a < 0x800000 \<and> \<not> in_pcbs a)"

text \<open>A command line at \<open>p\<close>, as the program that calls \<open>execute\<close> passes it.\<close>

definition command_arg :: "exec_locals \<Rightarrow> ptr \<Rightarrow> ptr \<Rightarrow> bytes \<Rightarrow> 'a kernel_scheme \<Rightarrow> bool" where
  "command_arg loc cmd p line s \<longleftrightarrow> lin cmd s = Inr p \<and> p \<noteq> NULL \<and> cstr (mem s) p line \<and>
    length line < 128 \<and> disjnt_rng (all_arguments_copy loc) 128 p 128"

lemma hd_word_length: "arg_words line = w # ws \<Longrightarrow> length w \<le> length line"
proof (induction line rule: arg_words.induct)
  case (2 c cs)
  then show ?case using length_takeWhile_le[of "\<lambda>x. x \<noteq> SPC" cs] by (auto split: if_splits)
qed simp

lemma hd_word_nonzero: "arg_words line = w # ws \<Longrightarrow> 0 \<notin> set line \<Longrightarrow> 0 \<notin> set w"
proof (induction line rule: arg_words.induct)
  case (2 c cs)
  then show ?case by (auto split: if_splits dest: set_takeWhileD)
qed simp

text \<open>The first part of \<open>execute\<close>: the copy of the line and its first word.\<close>

lemma execute_parse:
  assumes lay: "exec_layout loc s" and cmd: "command_arg loc cmd p line s" and words: "arg_words line = w # ws"
  shows "\<exists>m. execute loc cmd s =
      fbind (is_executable (exe_data loc) (exe_buf loc) (elf_str s) (executable loc) (s\<lparr>mem := m\<rparr>))
        (\<lambda>(e, s). if e = 0 then Some (Inr (Ret (- 1), s)) else start_process loc s) \<and>
    cstr m (all_arguments_copy loc) line \<and> cstr m (executable loc) w \<and>
    (\<forall>a. \<not> in_locals loc a \<longrightarrow> m a = mem s a)"
proof -
  let ?c = "all_arguments_copy loc" and ?e = "executable loc"
  have c: "lin cmd s = Inr p" "p \<noteq> NULL" "cstr (mem s) p line" "length line < 128" "disjnt_rng ?c 128 p 128"
    using cmd by (simp_all add: command_arg_def)
  have l: "?c \<noteq> NULL" "?e \<noteq> NULL" "disjnt_rng ?c 128 ?e 128" using lay by (simp_all add: exec_layout_def)
  have w: "length w < 128" "0 \<notin> set w" "0 \<notin> set line"
    using hd_word_length[OF words] hd_word_nonzero[OF words] c(3,4) cstr_nonzero by fastforce+
  let ?m1 = "wr_bytes (mem s) ?c (line @ [0])"
  have cs: "copy_string (mem s) p ?c = (0, ?m1)"
    using c l by (intro copy_string_cstr disjnt_rng_mono[OF c(5)]) auto
  have c1: "cstr ?m1 ?c line" using c(4) w(3) by (intro cstr_wr_bytes) auto
  have len: "get_argument_length ?m1 ?c 0 = int (length w)"
    using get_argument_length_eq[OF c1 l(1), of 0] c(4) words by simp
  let ?m2 = "?m1(?e + of_nat (length w) := 0)"
  have "in_rng ?e 128 (?e + of_nat (length w))" using w(1) by (intro in_rngI) auto
  then have out: "\<not> in_rng ?c 128 (?e + of_nat (length w))" by (rule disjnt_rngD2[OF l(3)])
  have c2: "cstr ?m2 ?c line"
  proof (rule iffD2[OF cstr_cong c1])
    fix a assume "in_rng ?c (Suc (length line)) a"
    then have "in_rng ?c 128 a" by (rule in_rng_mono) (use c(4) in simp)
    with out show "?m2 a = ?m1 a" by auto
  qed (use c(4) in simp)
  have "disjnt_rng ?e (length w) ?c (Suc (length line))"
    by (rule disjnt_rng_mono[OF disjnt_rng_sym[OF l(3)]]) (use w c in auto)
  then have ga: "get_argument ?m2 ?c 0 ?e = (int (length w), wr_bytes ?m2 ?e w)"
    using get_argument_eq[OF c2 l(1), of 0 ?e] c(4) words by simp
  let ?m = "wr_bytes ?m2 ?e w"
  have sl: "string_length (mem s) p = int (length line)" using c by (simp add: string_length_cstr)
  have ex: "execute loc cmd s =
      fbind (is_executable (exe_data loc) (exe_buf loc) (elf_str s) ?e (s\<lparr>mem := ?m\<rparr>))
        (\<lambda>(e, s). if e = 0 then Some (Inr (Ret (- 1), s)) else start_process loc s)"
    using c(1,4) sl cs len ga by (simp add: execute_def lift_def poke_def Let_def)
  have me: "?m a = ?m1 a" if "\<not> in_rng ?e 128 a" for a
  proof -
    have "\<not> in_rng ?e (length w) a" using that w(1) in_rng_mono[of ?e "length w" a 128] by auto
    moreover have "a \<noteq> ?e + of_nat (length w)" using that in_rngI[of "length w" 128 ?e] w(1) by auto
    ultimately show ?thesis by (simp add: wr_bytes_out)
  qed
  have cc: "cstr ?m ?c line"
  proof (rule iffD2[OF cstr_cong c1])
    fix a assume "in_rng ?c (Suc (length line)) a"
    then have "in_rng ?c 128 a" by (rule in_rng_mono) (use c(4) in simp)
    then show "?m a = ?m1 a" using disjnt_rngD1[OF l(3)] me by blast
  qed (use c(4) in simp)
  have "rd_bytes ?m ?e (length w) = w" using w(1) by (intro rd_wr_bytes) simp
  moreover have "?m (?e + of_nat (length w)) = 0"
    using w(1) by (subst wr_bytes_out) (auto simp: in_rng_def)
  ultimately have ce: "cstr ?m ?e w" using w(2) by (simp add: cstr_iff)
  have "?m a = mem s a" if "\<not> in_locals loc a" for a
  proof -
    have "\<not> in_rng ?e 128 a" "\<not> in_rng ?c 128 a" using that by (simp_all add: in_locals_def)
    moreover then have "\<not> in_rng ?c (length (line @ [0])) a" using c(4) in_rng_mono[of ?c "length (line @ [0])" a 128] by auto
    ultimately show ?thesis using me by (simp add: wr_bytes_out)
  qed
  with ex cc ce show ?thesis by blast
qed

text \<open>A program file: it begins with the ELF magic, is long enough to hold an entry point and fits.\<close>

definition elf_program :: "bytes \<Rightarrow> dentry \<Rightarrow> 'a kernel_scheme \<Rightarrow> bool" where
  "elf_program w d s \<longleftrightarrow> lookup_name w s = Some d \<and> inode_wf (inode_index d) s \<and>
    (\<exists>b. b \<noteq> 0 \<and> take 4 (file_contents (inode_index d) s) = b # asc ''ELF'') \<and>
    28 \<le> length (file_contents (inode_index d) s) \<and> length (file_contents (inode_index d) s) \<le> 0x3B8000"

lemma same_fs_program:
  assumes "same_fs s t" "fs_wf s"
  shows "elf_program w d s \<Longrightarrow> elf_program w d t"
    "elf_program w d s \<Longrightarrow> file_contents (inode_index d) t = file_contents (inode_index d) s"
  using same_fs_contents[OF assms] assms(1)
  by (auto simp: elf_program_def lookup_name_def same_fs_def split: if_splits)

lemma in_image_cong: "same_fs s t \<Longrightarrow> in_image t = in_image s"
  by (simp add: same_fs_def in_image_def image_size_def fun_eq_iff)

lemma read_name_eq:
  assumes "fs_wf s" "cstr (mem s) fn w" "fn \<noteq> NULL" "lookup_name w s = Some d"
  shows "read_dentry_by_name fn s = Inr (Some d)"
  using read_dentry_by_name_eq[of s fn w] assms by (simp add: fs_wf_def)

lemma execute_checked:
  assumes lay: "exec_layout loc s" and cmd: "command_arg loc cmd p line s" and words: "arg_words line = w # ws"
    and fs: "fs_wf s" and elf: "cstr (mem s) (elf_str s) (asc ''ELF'')" and prog: "elf_program w d s"
  shows "\<exists>m. execute loc cmd s = start_process loc (s\<lparr>mem := m\<rparr>) \<and>
    cstr m (all_arguments_copy loc) line \<and> cstr m (executable loc) w \<and>
    (\<forall>a. \<not> in_locals loc a \<longrightarrow> m a = mem s a)"
proof -
  let ?c = "all_arguments_copy loc" and ?e = "executable loc"
  obtain m where ex: "execute loc cmd s =
      fbind (is_executable (exe_data loc) (exe_buf loc) (elf_str s) ?e (s\<lparr>mem := m\<rparr>))
        (\<lambda>(e, s). if e = 0 then Some (Inr (Ret (- 1), s)) else start_process loc s)"
    and cc: "cstr m ?c line" and ce: "cstr m ?e w" and out: "\<And>a. \<not> in_locals loc a \<Longrightarrow> m a = mem s a"
    using execute_parse[OF lay cmd words] by blast
  have ll: "length line < 128" using cmd by (simp add: command_arg_def)
  then have wl: "length w < 128" using hd_word_length[OF words] by simp
  have loc: "unat a < 0x800000 \<and> \<not> in_image s a \<and> \<not> in_rng (elf_str s) 4 a \<and> \<not> in_pcbs a" if "in_locals loc a" for a
    using lay that unfolding exec_layout_def by blast
  let ?s = "s\<lparr>mem := m\<rparr>"
  have same: "same_fs s ?s" by (rule same_fs_mem) (use out loc in blast)
  note pr = same_fs_program[OF same fs]
  have fs2: "fs_wf ?s" using fs by (simp add: fs_wf_def image_size_def)
  have "cstr m (elf_str s) (asc ''ELF'')"
  proof (rule iffD2[OF cstr_cong elf])
    fix a assume "in_rng (elf_str s) (Suc (length (asc ''ELF''))) a"
    then have "in_rng (elf_str s) 4 a" by (simp add: asc_def in_rng_def)
    with loc show "m a = mem s a" using out by auto
  qed (simp add: asc_def)
  then have elf2: "cstr (mem ?s) (elf_str ?s) (asc ''ELF'')" by simp
  have ne: "?e \<noteq> NULL" "?c \<noteq> NULL" "elf_str s \<noteq> NULL" "exe_data loc \<noteq> NULL" "exe_buf loc \<noteq> NULL"
    "disjnt_rng (exe_data loc) 5 (exe_buf loc) 4"
    and ce_out: "\<And>a. in_rng (exe_data loc) 5 a \<or> in_rng (exe_buf loc) 4 a \<Longrightarrow>
      \<not> in_rng ?c 128 a \<and> \<not> in_rng ?e 128 a"
    using lay unfolding exec_layout_def by blast+
  have fr: "exec_frame (exe_data loc) (exe_buf loc) (elf_str ?s) ?e w ?s"
  proof -
    have "\<not> in_rng ?e (Suc (length w)) a" if "in_rng (exe_data loc) 5 a \<or> in_rng (exe_buf loc) 4 a" for a
      using ce_out[OF that] in_rng_mono[of ?e "Suc (length w)" a 128] wl by auto
    moreover have "in_locals loc a" if "in_rng (exe_data loc) 5 a \<or> in_rng (exe_buf loc) 4 a" for a
      using that by (auto simp: in_locals_def)
    ultimately show ?thesis
      using ne wl loc in_image_cong[OF same] unfolding exec_frame_def by simp
  qed
  obtain b where b: "b \<noteq> 0" "take 4 (file_contents (inode_index d) ?s) = b # asc ''ELF''"
    using pr(1)[OF prog] by (auto simp: elf_program_def)
  have wf: "inode_wf (inode_index d) ?s" "lookup_name w ?s = Some d" using pr(1)[OF prog] by (simp_all add: elf_program_def)
  have ce2: "cstr (mem ?s) ?e w" using ce by simp
  have a4: "asc ''ELF'' = [69, 76, 70]" by (simp add: asc_def of_char_def)
  obtain m' where isx: "is_executable (exe_data loc) (exe_buf loc) (elf_str ?s) ?e ?s = Some (Inr (1, ?s\<lparr>mem := m'\<rparr>))"
    and m': "\<And>a. \<not> in_rng (exe_data loc) 5 a \<Longrightarrow> \<not> in_rng (exe_buf loc) 4 a \<Longrightarrow> m' a = m a"
    using is_executable_data[OF fs2 ce2 elf2 fr read_name_eq[OF fs2 ce2 ne(1) wf(2)] wf(1), of b 69 76 70]
      b by (auto simp: a4)
  have keep: "m' a = m a" if "in_rng ?c 128 a \<or> in_rng ?e 128 a" for a
    using m' ce_out that by blast
  have "cstr m' ?c line"
    by (rule iffD2[OF cstr_cong cc]) (use ll keep in_rng_mono[of ?c "Suc (length line)" _ 128] in auto)
  moreover have "cstr m' ?e w"
    by (rule iffD2[OF cstr_cong ce]) (use wl keep in_rng_mono[of ?e "Suc (length w)" _ 128] in auto)
  moreover have "m' a = mem s a" if "\<not> in_locals loc a" for a
    using that m'[of a] out[OF that] by (simp add: in_locals_def)
  moreover have "execute loc cmd s = start_process loc (s\<lparr>mem := m'\<rparr>)" using ex isx by simp
  ultimately show ?thesis by blast
qed

text \<open>A command that does not exist is answered with -1, a blank line with 0.\<close>

lemma execute_unknown:
  assumes lay: "exec_layout loc s" and cmd: "command_arg loc cmd p line s" and words: "arg_words line = w # ws"
    and fs: "fs_wf s" "unat (inode_count (boot_block s)) \<le> 63" and none: "lookup_name w s = None"
  shows "\<exists>m. execute loc cmd s = Some (Inr (Ret (- 1), s\<lparr>mem := m\<rparr>)) \<and> (\<forall>a. \<not> in_locals loc a \<longrightarrow> m a = mem s a)"
proof -
  let ?e = "executable loc"
  obtain m where ex: "execute loc cmd s =
      fbind (is_executable (exe_data loc) (exe_buf loc) (elf_str s) ?e (s\<lparr>mem := m\<rparr>))
        (\<lambda>(e, s). if e = 0 then Some (Inr (Ret (- 1), s)) else start_process loc s)"
    and ce: "cstr m ?e w" and out: "\<And>a. \<not> in_locals loc a \<Longrightarrow> m a = mem s a"
    using execute_parse[OF lay cmd words] by blast
  have wl: "length w < 128" using hd_word_length[OF words] cmd by (simp add: command_arg_def)
  let ?a = "exe_data loc + 4" and ?m = "m(exe_data loc + 4 := 0)"
  have "in_rng (exe_data loc) 5 ?a" by (simp add: in_rng_def)
  then have a: "in_locals loc ?a" "\<not> in_rng ?e 128 ?a" "?e \<noteq> NULL" using lay by (auto simp: in_locals_def exec_layout_def)
  have c: "cstr ?m ?e w"
    by (rule iffD2[OF cstr_cong ce]) (use a(2) wl in_rng_mono[of ?e "Suc (length w)" _ 128] in auto)
  have "lookup_name w (s\<lparr>mem := ?m\<rparr>) = None" using none by (simp add: lookup_name_def split: if_splits)
  then have "read_dentry_by_name ?e (s\<lparr>mem := ?m\<rparr>) = Inr None"
    using read_dentry_by_name_eq[of "s\<lparr>mem := ?m\<rparr>" ?e w] c a(3) fs by (simp add: fs_wf_def del: fun_upd_apply)
  then have "is_executable (exe_data loc) (exe_buf loc) (elf_str s) ?e (s\<lparr>mem := m\<rparr>) = Some (Inr (0, s\<lparr>mem := ?m\<rparr>))"
    by (simp add: is_executable_def read_file_bytes_by_name_def Let_def)
  with ex have "execute loc cmd s = Some (Inr (Ret (- 1), s\<lparr>mem := ?m\<rparr>))" by simp
  moreover have "?m b = mem s b" if "\<not> in_locals loc b" for b using that a(1) out by auto
  ultimately show ?thesis by blast
qed

lemma execute_blank:
  assumes lay: "exec_layout loc s" and cmd: "command_arg loc cmd p line s" and words: "arg_words line = []"
  shows "\<exists>m. execute loc cmd s = Some (Inr (Ret 0, s\<lparr>mem := m\<rparr>)) \<and> (\<forall>a. \<not> in_locals loc a \<longrightarrow> m a = mem s a)"
proof -
  let ?c = "all_arguments_copy loc" and ?m = "wr_bytes (mem s) (all_arguments_copy loc) (line @ [0])"
  have c: "lin cmd s = Inr p" "p \<noteq> NULL" "cstr (mem s) p line" "length line < 128" "disjnt_rng ?c 128 p 128"
    using cmd by (simp_all add: command_arg_def)
  have l: "?c \<noteq> NULL" using lay by (simp add: exec_layout_def)
  have cs: "copy_string (mem s) p ?c = (0, ?m)"
    using c l by (intro copy_string_cstr disjnt_rng_mono[OF c(5)]) auto
  have "cstr ?m ?c line" using c(3,4) cstr_nonzero by (intro cstr_wr_bytes) fastforce+
  then have "get_argument_length ?m ?c 0 < 0" using get_argument_length_eq[of ?m ?c line 0] l c(4) words by simp
  moreover have "string_length (mem s) p = int (length line)" using c by (simp add: string_length_cstr)
  ultimately have "execute loc cmd s = Some (Inr (Ret 0, s\<lparr>mem := ?m\<rparr>))"
    using c(1,4) cs by (simp add: execute_def lift_def Let_def)
  moreover have "?m a = mem s a" if "\<not> in_locals loc a" for a
    using that c(4) in_rng_mono[of ?c "length (line @ [0])" a 128] by (intro wr_bytes_out) (auto simp: in_locals_def)
  ultimately show ?thesis by blast
qed

lemma load_program_eq:
  assumes "fs_wf s" "cstr (mem s) exe w" "exe \<noteq> NULL" "elf_program w d s" "deref USER_IMAGE s = Inr u" "u \<noteq> NULL"
    and "\<And>a. in_rng u (length (file_contents (inode_index d) s)) a \<Longrightarrow> \<not> in_image s a"
  shows "load_program exe s = Inr (s\<lparr>mem := wr_bytes (mem s) u (file_contents (inode_index d) s)\<rparr>)"
proof -
  let ?i = "inode_index d" and ?c = "file_contents (inode_index d) s"
  have d: "lookup_name w s = Some d" "inode_wf ?i s" using assms(4) by (simp_all add: elf_program_def)
  note r = read_name_eq[OF assms(1-3) d(1)]
  have len: "unat (length_of (load_inode (mem s) (inode_addr ?i s))) = length ?c"
    by (simp add: file_contents_def contents_def)
  have "read_file_bytes_by_name exe u (length_of (load_inode (mem s) (inode_addr ?i s))) s =
      Inr (0, s\<lparr>mem := wr_bytes (mem s) u ?c\<rparr>)"
    using read_file_eq[OF r, of u "length_of (load_inode (mem s) (inode_addr ?i s))"] d(2) assms(6)
      image_buffer_apart[OF assms(1) d(2) assms(7)]
    by (simp add: len inode_wf_def)
  then show ?thesis by (simp add: load_program_def r assms(5) file_size_def)
qed

lemma pcb_below:
  assumes "0 \<le> pid" "pid < 6" "in_rng (find_PCB pid) 8192 a"
  shows "unat a < 0x800000"
  using assms unat_find_PCB[OF assms(1,2)] in_rng_unat[of "find_PCB pid" 8192 a] by auto

lemma unat_user_image:
  assumes "0 \<le> pid" "pid < 6" "k < 0x400000"
  shows "unat (user_frame pid + of_nat k) = 0x800000 + 0x400000 * nat pid + k"
proof -
  have "unat (user_frame pid) + k < 4294967296" using user_frame_facts(3)[OF assms(1,2)] assms by simp
  then show ?thesis using user_frame_facts(3)[OF assms(1,2)] assms(3) by (simp add: unat_word_ariths)
qed

lemma user_above:
  assumes "0 \<le> pid" "pid < 6" "in_rng (user_frame pid + 0x48000) n a" "n \<le> 0x3B8000"
  shows "0x800000 \<le> unat a"
proof -
  have "nat pid \<le> 5" using assms(2) by simp
  then show ?thesis
    using assms unat_user_image[OF assms(1,2), of "0x48000"] in_rng_unat[of "user_frame pid + 0x48000" n a] by auto
qed

lemma le_bytes4_ld32: "le_bytes4 (ld32 m p) = rd_bytes m p 4"
  by (simp add: rd_bytes4 le_bytes4_def ld32_def) (intro conjI bit_word_eqI; auto simp: bit_simps dest: bit_imp_le_length)

lemma le_bytes4_inj: "le_bytes4 v = le_bytes4 w \<Longrightarrow> v = w"
  using ld32_st32[of "\<lambda>_. 0" 0 v] ld32_st32[of "\<lambda>_. 0" 0 w] by (simp add: st32_def)

text \<open>Saving the stack registers in a control block.\<close>

lemma save_stack:
  assumes "kernel_mapped s" "0 \<le> par" "par < 6"
  shows "\<exists>m. st_field (find_PCB par) EBP b (st_field (find_PCB par) ESP e s) = s\<lparr>mem := m\<rparr> \<and>
    ld_field (find_PCB par) ESP (s\<lparr>mem := m\<rparr>) = e \<and> ld_field (find_PCB par) EBP (s\<lparr>mem := m\<rparr>) = b \<and>
    (\<forall>a. \<not> in_rng (find_PCB par) 528 a \<longrightarrow> m a = mem s a)"
proof -
  let ?t = "st_field (find_PCB par) EBP b (st_field (find_PCB par) ESP e s)"
  have "?t = s\<lparr>mem := mem ?t\<rparr>" by (simp add: st_field_def)
  moreover have "ld_field (find_PCB par) ESP ?t = e" "ld_field (find_PCB par) EBP ?t = b"
    by (simp_all add: ld_st_other)
  moreover have "mem ?t a = mem s a" if "\<not> in_rng (find_PCB par) 528 a" for a
    using that by (simp add: st_field_out[of _ 528])
  ultimately show ?thesis by metis
qed

text \<open>The arguments behind the command word.\<close>

lemma rest_args_single: "length (arg_words line) = 1 \<Longrightarrow> rest_args line = []"
proof -
  assume "length (arg_words line) = 1"
  then have e: "arg_words (rest_args line) = []" using arg_words_rest[of line] by (cases "arg_words line") auto
  have "rest_args line = [] \<or> hd (rest_args line) \<noteq> SPC"
    unfolding rest_args_def by (rule dropWhile_hd)
  with e show ?thesis by (cases "rest_args line") auto
qed

lemma next_arguments_eq:
  assumes "cstr m a line" "a \<noteq> NULL" "length line < 128" "arg_words line = w # ws"
    and "disjnt_rng buf 128 a 128"
  shows "\<exists>r. get_next_arguments m a buf = Some (r, wr_bytes m buf (rest_args line @ [0]))"
proof -
  have "disjnt_rng buf (length line) a (Suc (length line))"
    by (rule disjnt_rng_mono[OF assms(5)]) (use assms(3) in auto)
  then show ?thesis
    using get_next_arguments_eq[OF assms(1,2), of buf] assms(3,4) rest_args_single[of line]
    by (auto simp: wr_bytes_single)
qed

lemma rest_args_nonzero: "0 \<notin> set line \<Longrightarrow> 0 \<notin> set (rest_args line)"
  unfolding rest_args_def by (meson set_dropWhileD)

text \<open>The state in which the new program starts.\<close>

definition started :: "int \<Rightarrow> int \<Rightarrow> bytes \<Rightarrow> bytes \<Rightarrow> 'a kernel_scheme \<Rightarrow> 'a kernel_scheme \<Rightarrow> bool" where
  "started pid par line prog s t \<longleftrightarrow> kernel_mapped t \<and>
    (\<forall>q < 0x400000. walk t (0x8000000 + q) = Some (user_frame pid + q, True, True)) \<and>
    rd_bytes (mem t) (user_frame pid + 0x48000) (length prog) = prog \<and>
    cstr (mem t) (find_PCB pid + of_nat ARG_BUFFER) (rest_args line) \<and>
    (\<forall>j < 8. fd_view (find_PCB pid) j t = (if j < 2 then Some (terminal_funcs s, 0, 0) else None)) \<and>
    ld_field (find_PCB pid) P_ID t = word_of_int pid \<and> ld_field (find_PCB pid) PAR_P_ID t = word_of_int par \<and>
    (par \<ge> 0 \<longrightarrow> ld_field (find_PCB par) ESP t = reg_esp s \<and> ld_field (find_PCB par) EBP t = reg_ebp s) \<and>
    tss_esp0 t = find_PCB (pid - 1) - 4"

lemma enter_program_eq:
  assumes km: "kernel_mapped s" and pid: "0 \<le> pid" "pid < 6" and par: "- 1 \<le> par" "par < 6" "par \<noteq> pid"
    and str: "cstr (mem s) (all_arguments_copy loc) line" "cstr (mem s) (executable loc) w" "length line < 128"
      "arg_words line = w # ws"
    and lay: "exec_layout loc s" and fs: "fs_wf s" and prog: "elf_program w d s"
  defines "bs \<equiv> file_contents (inode_index d) s"
  shows "\<exists>eip t m pd. enter_program loc pid par s = Some (Inr (To_User eip USER_PROCESS_STACK, t)) \<and>
    le_bytes4 eip = take 4 (drop 24 bs) \<and> started pid par line bs s t \<and>
    t = s\<lparr>page_dir := pd, tss_esp0 := tss_esp0 t, tss_ss0 := KERNEL_DS, mem := m\<rparr> \<and>
    (\<forall>a. in_image s a \<longrightarrow> m a = mem s a)"
proof -
  let ?c = "all_arguments_copy loc" and ?e = "executable loc" and ?pcb = "find_PCB pid"
  let ?u = "user_frame pid + 0x48000"
  have len: "28 \<le> length bs" "length bs \<le> 0x3B8000" using prog by (simp_all add: elf_program_def bs_def)
  have loc: "unat a < 0x800000 \<and> \<not> in_image s a \<and> \<not> in_pcbs a" if "in_locals loc a" for a
    using lay that unfolding exec_layout_def by blast
  have img: "unat a < 0x800000 \<and> \<not> in_pcbs a" if "in_image s a" for a
    using lay that unfolding exec_layout_def by blast
  have ne: "?c \<noteq> NULL" "?e \<noteq> NULL" using lay by (simp_all add: exec_layout_def)
  have pcbs: "in_pcbs a" if "in_rng ?pcb 528 a" for a using that pid by (auto simp: in_pcbs_def)
  \<comment> \<open>the arguments\<close>
  let ?ab = "?pcb + of_nat 384" and ?m1 = "wr_bytes (mem s) (?pcb + of_nat 384) (rest_args line @ [0])"
  have rl: "length (rest_args line) < 128" using length_rest_args[of line] str(3) by simp
  have ab: "in_rng ?pcb 528 a" if "in_rng ?ab 128 a" for a by (rule in_rng_offset[OF that]) simp_all
  have "disjnt_rng ?ab 128 ?c 128"
    using loc pcbs[OF ab] unfolding disjnt_rng_def in_locals_def by blast
  then obtain r where na: "get_next_arguments (mem s) ?c ?ab = Some (r, ?m1)"
    using next_arguments_eq[OF str(1) ne(1) str(3,4)] by blast
  have o1: "?m1 a = mem s a" if "\<not> in_rng ?ab 128 a" for a
    using that in_rng_mono[of ?ab "length (rest_args line @ [0])" a 128] rl by (intro wr_bytes_out) auto
  \<comment> \<open>the page\<close>
  obtain pd where pd: "snd (map_v_p 0x8000000 (user_frame pid) 1 1 1 (s\<lparr>mem := ?m1\<rparr>)) = s\<lparr>mem := ?m1, page_dir := pd\<rparr>"
    "kernel_mapped (s\<lparr>mem := ?m1, page_dir := pd\<rparr>)"
    "\<And>q. q < 0x400000 \<Longrightarrow> walk (s\<lparr>mem := ?m1, page_dir := pd\<rparr>) (0x8000000 + q) = Some (user_frame pid + q, True, True)"
    using map_user_page[of "s\<lparr>mem := ?m1\<rparr>" pid] km pid by auto
  let ?s2 = "s\<lparr>mem := ?m1, page_dir := pd\<rparr>"
  have d2: "deref USER_IMAGE ?s2 = Inr ?u" using pd(3)[of "0x48000"] by (simp add: deref_def)
  \<comment> \<open>the program\<close>
  have same: "same_fs s ?s2" using o1 img pcbs ab by (auto simp: same_fs_def)
  have fs2: "fs_wf ?s2" using fs by (simp add: fs_wf_def image_size_def)
  note pr = same_fs_program[OF same fs, of w d] 
  have e2: "cstr (mem ?s2) ?e w"
  proof -
    have "length w < 128" using hd_word_length[OF str(4)] str(3) by simp
    then have "mem ?s2 a = mem s a" if "in_rng ?e (Suc (length w)) a" for a
      using that in_rng_mono[of ?e "Suc (length w)" a 128] loc[of a] pcbs ab o1 by (auto simp: in_locals_def)
    then show ?thesis using str(2) \<open>length w < 128\<close> by (intro iffD2[OF cstr_cong str(2)]) auto
  qed
  have ua: "0x800000 \<le> unat a" if "in_rng ?u (length bs) a" for a using user_above[OF pid that len(2)] .
  have un: "?u \<noteq> NULL" using unat_user_image[OF pid, of "0x48000"] by auto
  have ld: "load_program ?e ?s2 = Inr (?s2\<lparr>mem := wr_bytes ?m1 ?u bs\<rparr>)"
    using load_program_eq[OF fs2 e2 ne(2) pr(1)[OF prog] d2 un] pr(2)[OF prog] img ua in_image_cong[OF same]
    by (fastforce simp: bs_def)
  let ?s3 = "?s2\<lparr>mem := wr_bytes ?m1 ?u bs\<rparr>"
  \<comment> \<open>the control block\<close>
  obtain m4 where ip: "init_pcb loc ?pcb pid par ?s3 = ?s3\<lparr>mem := m4\<rparr>"
    and v4: "\<And>j. j < 8 \<Longrightarrow> fd_view ?pcb j (?s3\<lparr>mem := m4\<rparr>) = (if j < 2 then Some (terminal_funcs ?s3, 0, 0) else None)"
    and id4: "ld_field ?pcb 512 (?s3\<lparr>mem := m4\<rparr>) = word_of_int pid" "ld_field ?pcb 516 (?s3\<lparr>mem := m4\<rparr>) = word_of_int par"
    and o4: "\<And>a. \<not> in_rng ?pcb 384 a \<Longrightarrow> \<not> in_rng (?pcb + of_nat 512) 8 a \<Longrightarrow> m4 a = mem ?s3 a"
    using init_pcb_eq[of loc ?pcb pid par ?s3] by blast
  let ?s5 = "?s3\<lparr>mem := m4, tss_esp0 := 0x800000 - word_of_int pid * 0x2000 - 4, tss_ss0 := KERNEL_DS\<rparr>"
  have w5: "walk ?s5 = walk ?s2" "kernel_mapped ?s5"
    using walk_cong[of ?s2 ?s5] pd(2) by (simp_all add: kernel_mapped_def)
  \<comment> \<open>the parent\<close>
  let ?save = "if par \<ge> 0 then sbind (deref (find_PCB par) ?s5) (\<lambda>p.
      Inr (st_field p EBP (reg_ebp ?s5) (st_field p ESP (reg_esp ?s5) ?s5))) else Inr ?s5"
  obtain m where sv: "?save = Inr (?s5\<lparr>mem := m\<rparr>)"
    and pv: "par \<ge> 0 \<Longrightarrow> ld_field (find_PCB par) 520 (?s5\<lparr>mem := m\<rparr>) = reg_esp s \<and>
      ld_field (find_PCB par) 524 (?s5\<lparr>mem := m\<rparr>) = reg_ebp s"
    and om: "\<And>a. \<not> (par \<ge> 0 \<and> in_rng (find_PCB par) 528 a) \<Longrightarrow> m a = m4 a"
  proof (cases "par \<ge> 0")
    case True
    obtain m where m: "st_field (find_PCB par) 524 (reg_ebp ?s5) (st_field (find_PCB par) 520 (reg_esp ?s5) ?s5) = ?s5\<lparr>mem := m\<rparr>"
      "ld_field (find_PCB par) 520 (?s5\<lparr>mem := m\<rparr>) = reg_esp ?s5" "ld_field (find_PCB par) 524 (?s5\<lparr>mem := m\<rparr>) = reg_ebp ?s5"
      "\<And>a. \<not> in_rng (find_PCB par) 528 a \<Longrightarrow> m a = mem ?s5 a"
      using save_stack[OF w5(2) True par(2)] by blast
    show ?thesis by (rule that[of m]) (use True m deref_PCB[OF w5(2) True par(2)] in simp_all)
  next
    case False
    show ?thesis by (rule that[of m4]) (use False in simp_all)
  qed
  let ?t = "?s5\<lparr>mem := m\<rparr>"
  have wt: "walk ?t = walk ?s2" "kernel_mapped ?t"
    using walk_cong[of ?s2 ?t] pd(2) by (simp_all add: kernel_mapped_def)
  have dist: "\<not> (par \<ge> 0 \<and> in_rng (find_PCB par) 528 a)" if "in_rng ?pcb 8192 a" for a
    using that PCB_disjnt[of par pid] par pid in_rng_mono[of "find_PCB par" 528 a 8192] by (auto simp: disjnt_rng_def)
  have high: "m a = wr_bytes ?m1 ?u bs a" if "0x800000 \<le> unat a" for a
  proof -
    have np: "\<not> in_rng (find_PCB q) 528 a" if "0 \<le> q" "q < 6" for q
      using pcb_below[OF that] in_rng_mono[of "find_PCB q" 528 a 8192] \<open>0x800000 \<le> unat a\<close> by force
    have "\<not> in_rng ?pcb 384 a" "\<not> in_rng (?pcb + of_nat 512) 8 a"
      using np[OF pid] in_rng_mono[of ?pcb 384 a 528] in_rng_offset[of ?pcb 512 8 a 528] by auto
    then show ?thesis using om o4 np par by simp
  qed
  have img_keep: "\<forall>a. in_image s a \<longrightarrow> m a = mem s a"
  proof (intro allI impI)
    fix a assume i: "in_image s a"
    then have np: "\<not> in_pcbs a" and lo: "unat a < 0x800000" using img by blast+
    have "\<not> in_rng ?pcb 528 a" using np pcbs by blast
    then have x: "\<not> in_rng ?pcb 384 a" "\<not> in_rng (?pcb + of_nat 512) 8 a" "\<not> in_rng ?ab 128 a"
      using in_rng_mono[of ?pcb 384 a 528] in_rng_offset[of ?pcb 512 8 a 528] ab by auto
    have "\<not> (par \<ge> 0 \<and> in_rng (find_PCB par) 528 a)" using np par by (auto simp: in_pcbs_def)
    moreover have "\<not> in_rng ?u (length bs) a" using ua lo by force
    ultimately show "m a = mem s a" using om[of a] o4[OF x(1,2)] o1[OF x(3)] by (simp add: wr_bytes_out)
  qed
  have rd: "rd_bytes m ?u (length bs) = bs"
  proof -
    have "rd_bytes m ?u (length bs) = rd_bytes (wr_bytes ?m1 ?u bs) ?u (length bs)"
      using high ua len(2) by (intro rd_bytes_cong) auto
    also have "\<dots> = bs" using len(2) by (intro rd_wr_bytes) simp
    finally show ?thesis .
  qed
  have de: "deref (USER_IMAGE + 24) ?t = Inr (?u + of_nat 24)"
    unfolding deref_def wt(1) using pd(3)[of "0x48018"] by (simp add: add.assoc)
  have eip: "le_bytes4 (ld32 m (?u + of_nat 24)) = take 4 (drop 24 bs)"
  proof -
    have "rd_bytes m (?u + of_nat 24) 4 = take 4 (drop 24 (rd_bytes m ?u (length bs)))"
      using len(1) by (intro nth_equalityI) (auto simp: add.assoc)
    then show ?thesis by (simp add: le_bytes4_ld32 rd)
  qed
  have ca: "cstr m ?ab (rest_args line)"
  proof (rule iffD2[OF cstr_cong])
    show "cstr ?m1 ?ab (rest_args line)"
      using rl rest_args_nonzero[of line] cstr_nonzero[OF str(1)] by (intro cstr_wr_bytes) auto
  next
    fix a assume "in_rng ?ab (Suc (length (rest_args line))) a"
    then have i: "in_rng ?ab 128 a" by (rule in_rng_mono) (use rl in simp)
    have "disjnt_rng (?pcb + of_nat 0) 384 ?ab 128" "disjnt_rng ?ab 128 (?pcb + of_nat 512) 8"
      by (rule disjnt_rng_offsets; simp)+
    then have x: "\<not> in_rng ?pcb 384 a" "\<not> in_rng (?pcb + of_nat 512) 8 a"
      using i by (auto simp: disjnt_rng_def)
    have "in_rng ?pcb 8192 a" using ab[OF i] by (rule in_rng_mono) simp
    moreover then have "\<not> in_rng ?u (length bs) a" using pcb_below[OF pid] ua by force
    ultimately show "m a = ?m1 a" using om[OF dist] o4[OF x] by (simp add: wr_bytes_out)
  qed (use rl in simp)
  have lf: "ld_field ?pcb k ?t = ld_field ?pcb k (?s3\<lparr>mem := m4\<rparr>)" if "k + 4 \<le> 528" for k
  proof (rule ld_field_cong)
    fix a assume "in_rng (?pcb + of_nat k) 4 a"
    then have "in_rng ?pcb 8192 a" by (rule in_rng_offset) (use that in simp_all)
    then show "mem ?t a = mem (?s3\<lparr>mem := m4\<rparr>) a" using om[OF dist] by simp
  qed (use that in simp)
  have vt: "fd_view ?pcb j ?t = (if j < 2 then Some (terminal_funcs s, 0, 0) else None)" if "j < 8" for j
  proof -
    have "fd_view ?pcb j ?t = fd_view ?pcb j (?s3\<lparr>mem := m4\<rparr>)"
      by (rule fd_view_cong[OF that]) (rule lf, simp)
    with v4[OF that] show ?thesis by simp
  qed
  have e0: "tss_esp0 ?t = find_PCB (pid - 1) - 4"
    by (simp add: find_PCB_def algebra_simps)
  have ids: "ld_field ?pcb 512 ?t = word_of_int pid" "ld_field ?pcb 516 ?t = word_of_int par"
    by (rule trans[OF lf id4(1)], simp) (rule trans[OF lf id4(2)], simp)
  have wk: "\<forall>q < 0x400000. walk ?t (0x8000000 + q) = Some (user_frame pid + q, True, True)"
    unfolding wt(1) using pd(3) by blast
  have mt: "mem ?t = m" by simp
  have "started pid par line bs s ?t"
    unfolding started_def mt using wt(2) wk rd ca vt ids pv e0 by (intro conjI allI impI) (blast | assumption)+
  moreover have "enter_program loc pid par s = Some (Inr (To_User (ld32 m (?u + of_nat 24)) USER_PROCESS_STACK, ?t))"
    using sv de ld ip na pd(1) deref_PCB[OF km pid]
    by (simp add: enter_program_def lift_def user_frame_def split: if_splits)
  ultimately show ?thesis using eip img_keep by (intro exI conjI) (assumption | simp)+
qed

text \<open>A terminal without a process, or a slot beyond the reserved ones, is enough for a new process.\<close>

lemma add_process_room:
  assumes tab: "table_ok s" and room: "tcount (unat (running_terminal s)) (term_procs s) = 0 \<or> reserved_slots (term_procs s) < 6"
  obtains i where "i < 6" "procs s ! i = 0" "\<forall>j < i. procs s ! j \<noteq> 0"
    "add_process s = Inr (int i, s\<lparr>procs := (procs s)[i := 1], process_count := process_count s + 1,
      running_procs := (running_procs s)[unat (running_terminal s) := int i],
      term_procs := (term_procs s)[i := int (unat (running_terminal s))]\<rparr>)"
proof -
  let ?r = "unat (running_terminal s)"
  have r3: "?r < 3" using tab by (simp add: table_ok_def)
  have d: "length (procs s) = 6" "num_used s = tcount 0 (term_procs s) + tcount 1 (term_procs s) + tcount 2 (term_procs s)"
    "reserved_slots (term_procs s) \<le> 6"
    using table_okD[OF tab] by simp_all
  have "?r = 0 \<or> ?r = 1 \<or> ?r = 2" using r3 by arith
  then have "num_used s < 6"
    using room d(2,3) unfolding reserved_slots_def by (elim disjE) (auto simp: max_def split: if_splits)
  then obtain i where i: "free_proc s = Some i" using free_proc_None[OF d(1)] by auto
  have "i < 6" "procs s ! i = 0" "\<forall>j < i. procs s ! j \<noteq> 0"
    using i unfolding free_proc_first ptab.first_free_Some by (auto simp: ptab.free_slots_def, meson less_trans not_le)
  then show thesis by (rule that) (use room i d(3) in \<open>auto simp: add_process_eq[OF tab]\<close>)
qed

lemma execute_eq:
  assumes lay: "exec_layout loc s" and cmd: "command_arg loc cmd p line s" and words: "arg_words line = w # ws"
    and fs: "fs_wf s" and elf: "cstr (mem s) (elf_str s) (asc ''ELF'')" and prog: "elf_program w d s"
    and km: "kernel_mapped s" and tab: "table_ok s" "length (running_procs s) = 3"
    and par: "- 1 \<le> cur_pid s" "cur_pid s < 6" "cur_pid s \<ge> 0 \<longrightarrow> procs s ! nat (cur_pid s) \<noteq> 0"
    and room: "tcount (unat (running_terminal s)) (term_procs s) = 0 \<or> reserved_slots (term_procs s) < 6"
  shows "\<exists>pid eip t. execute loc cmd s = Some (Inr (To_User eip USER_PROCESS_STACK, t)) \<and>
    0 \<le> pid \<and> pid < 6 \<and> procs s ! nat pid = 0 \<and> (\<forall>j < nat pid. procs s ! j \<noteq> 0) \<and>
    le_bytes4 eip = take 4 (drop 24 (file_contents (inode_index d) s)) \<and>
    started pid (cur_pid s) line (file_contents (inode_index d) s) s t \<and>
    procs t = (procs s)[nat pid := 1] \<and> process_count t = process_count s + 1 \<and> cur_pid t = pid \<and>
    term_procs t = (term_procs s)[nat pid := int (unat (running_terminal s))] \<and> table_ok t"
proof -
  obtain m where ex: "execute loc cmd s = start_process loc (s\<lparr>mem := m\<rparr>)"
    and c: "cstr m (all_arguments_copy loc) line" "cstr m (executable loc) w"
    and out: "\<And>a. \<not> in_locals loc a \<Longrightarrow> m a = mem s a"
    using execute_checked[OF lay cmd words fs elf prog] by blast
  let ?s1 = "s\<lparr>mem := m\<rparr>" and ?r = "unat (running_terminal s)"
  have r3: "?r < 3" using tab(1) by (simp add: table_ok_def)
  have tab1: "table_ok ?s1" using tab(1) by (simp add: table_ok_def num_used_def)
  have "tcount (unat (running_terminal ?s1)) (term_procs ?s1) = 0 \<or> reserved_slots (term_procs ?s1) < 6" using room by simp
  from add_process_room[OF tab1 this] obtain i where i6: "i < 6" "procs s ! i = 0" and low: "\<forall>j < i. procs s ! j \<noteq> 0"
    and add: "add_process ?s1 = Inr (int i, ?s1\<lparr>procs := (procs s)[i := 1], process_count := process_count s + 1,
      running_procs := (running_procs s)[?r := int i], term_procs := (term_procs s)[i := int ?r]\<rparr>)"
    by auto
  let ?s2 = "?s1\<lparr>procs := (procs s)[i := 1], process_count := process_count s + 1,
      running_procs := (running_procs s)[?r := int i], term_procs := (term_procs s)[i := int ?r]\<rparr>"
  have sp: "start_process loc ?s1 = enter_program loc (int i) (cur_pid s) ?s2"
    using r3 add by (simp add: start_process_def lift_def cur_pid_def)
  have ll: "length line < 128" using cmd by (simp add: command_arg_def)
  have loc: "\<not> in_image s a" if "in_locals loc a" for a using lay that unfolding exec_layout_def by blast
  have same: "same_fs s ?s2" using out loc by (auto simp: same_fs_def)
  note pr = same_fs_program[OF same fs]
  have lay2: "exec_layout loc ?s2" using lay in_image_cong[OF same] by (simp add: exec_layout_def)
  have fs2: "fs_wf ?s2" using fs by (simp add: fs_wf_def image_size_def)
  have km2: "kernel_mapped ?s2" using walk_cong(3)[of s ?s2] km by (simp add: kernel_mapped_def)
  have ne: "cur_pid s \<noteq> int i" using par(3) i6 by auto
  have c2: "cstr (mem ?s2) (all_arguments_copy loc) line" "cstr (mem ?s2) (executable loc) w" using c by simp_all
  have i0: "0 \<le> int i" "int i < 6" using i6(1) by simp_all
  obtain eip t m' pd where en: "enter_program loc (int i) (cur_pid s) ?s2 = Some (Inr (To_User eip USER_PROCESS_STACK, t))"
    "le_bytes4 eip = take 4 (drop 24 (file_contents (inode_index d) s))"
    "started (int i) (cur_pid s) line (file_contents (inode_index d) s) ?s2 t"
    "t = ?s2\<lparr>page_dir := pd, tss_esp0 := tss_esp0 t, tss_ss0 := KERNEL_DS, mem := m'\<rparr>"
    using enter_program_eq[OF km2 i0 par(1,2) ne c2 ll words lay2 fs2 pr(1)[OF prog]] pr(2)[OF prog] by auto
  have st: "started (int i) (cur_pid s) line (file_contents (inode_index d) s) s t"
    using en(3) by (simp add: started_def)
  have "table_ok ?s2" using add_process_ok[OF tab1 add] .
  then have "table_ok t" by (subst en(4)) (simp add: table_ok_def num_used_def)
  moreover have "procs t = (procs s)[i := 1]" "process_count t = process_count s + 1" "cur_pid t = int i"
    "term_procs t = (term_procs s)[i := int ?r]"
    using r3 tab(2) by (subst en(4), simp add: cur_pid_def)+
  ultimately show ?thesis
    using ex sp en(1,2) st i6 low i0 by (intro exI[of _ "int i"] exI[of _ eip] exI[of _ t]) simp
qed

text \<open>
  C1: running a program. With a command line whose first word names a program file, and with room
  in the process table, \<open>execute\<close> ends in the jump to user code, at the entry point stored in bytes
  24 to 27 of the file and with the stack at the top of the program's page. In that state the
  program's 4 MB page is mapped to the frame of the new process and holds the file, byte for byte,
  at its load address; the new control block has the terminal at descriptors 0 and 1, no other
  open descriptor, the rest of the command line as its arguments and the caller as its parent; the
  caller's stack registers are saved in the caller's control block; the process is entered in the
  process table, at the lowest free slot, as the foremost one of the running terminal.
\<close>

theorem execute_starts_program:
  assumes lay: "exec_layout loc s" and cmd: "command_arg loc cmd p line s" and words: "arg_words line = w # ws"
    and fs: "fs_wf s" and elf: "cstr (mem s) (elf_str s) (asc ''ELF'')" and prog: "elf_program w d s"
    and km: "kernel_mapped s" and tab: "table_ok s" "length (running_procs s) = 3"
    and par: "- 1 \<le> cur_pid s" "cur_pid s < 6" "cur_pid s \<ge> 0 \<longrightarrow> procs s ! nat (cur_pid s) \<noteq> 0"
    and room: "tcount (unat (running_terminal s)) (term_procs s) = 0 \<or> reserved_slots (term_procs s) < 6"
  shows "\<exists>pid eip t. execute loc cmd s = Some (Inr (To_User eip USER_PROCESS_STACK, t)) \<and>
    0 \<le> pid \<and> pid < 6 \<and> procs s ! nat pid = 0 \<and> (\<forall>j < nat pid. procs s ! j \<noteq> 0) \<and>
    le_bytes4 eip = take 4 (drop 24 (file_contents (inode_index d) s)) \<and>
    started pid (cur_pid s) line (file_contents (inode_index d) s) s t \<and>
    procs t = (procs s)[nat pid := 1] \<and> process_count t = process_count s + 1 \<and> cur_pid t = pid \<and>
    term_procs t = (term_procs s)[nat pid := int (unat (running_terminal s))] \<and> table_ok t"
  by (rule execute_eq[OF assms])

section \<open>Witness\<close>

text \<open>The shell of the example kernel runs the command line \<^verbatim>\<open>prog -a\<close>.\<close>

definition demo_locals :: exec_locals where
  "demo_locals = \<lparr>all_arguments_copy = 0x700000, executable = 0x700100, exe_data = 0x700200, exe_buf = 0x700208,
     conv_buf = 0x700300, stdin_name = replicate 32 0, stdout_name = replicate 32 0\<rparr>"

definition demo_xmem :: mem where
  "demo_xmem = wr_bytes (wr_bytes demo_kmem 0x410040 (asc ''ELF'' @ [0])) 0x600100 (asc ''prog -a'' @ [0])"

definition demo_exec :: kernel where
  "demo_exec = demo_kernel\<lparr>mem := demo_xmem\<rparr>"

lemma in_pcbs_range: "in_pcbs a \<Longrightarrow> 0x7F4000 \<le> unat a \<and> unat a < 0x800000"
proof -
  assume "in_pcbs a"
  then obtain pid where p: "0 \<le> pid" "pid < 6" "in_rng (find_PCB pid) 528 a" by (auto simp: in_pcbs_def)
  have "in_rng (find_PCB pid) 8192 a" using p(3) by (rule in_rng_mono) simp
  moreover have "nat pid \<le> 5" using p(2) by simp
  ultimately show ?thesis
    using p unat_find_PCB[OF p(1,2)] pcb_below[OF p(1,2)] in_rng_unat[of "find_PCB pid" 8192 a] by auto
qed

lemma demo_image: "in_image demo_exec a \<longleftrightarrow> in_rng 0x500000 12288 a"
  using demo_fs_ok(3) by (simp add: in_image_def image_size_def demo_exec_def)

lemma demo_ranges: "in_rng 0x500000 12288 a \<Longrightarrow> 0x500000 \<le> unat a \<and> unat a < 0x503000"
  "in_locals demo_locals a \<Longrightarrow> 0x700000 \<le> unat a \<and> unat a < 0x70020C"
  "in_rng 0x410040 4 a \<Longrightarrow> unat a < 0x410044"
  by (auto simp: in_rng_unat in_locals_def demo_locals_def)

lemma demo_layout: "exec_layout demo_locals demo_exec"
proof -
  have "disjnt_rng 0x700000 128 0x700100 128" "disjnt_rng 0x700200 5 0x700208 4"
    by (rule disjnt_rng_below; simp)+
  moreover have "\<not> in_rng 0x700000 128 a \<and> \<not> in_rng 0x700100 128 a" if "in_rng 0x700200 5 a \<or> in_rng 0x700208 4 a" for a
    using that by (auto simp: in_rng_unat)
  moreover have "unat a < 0x800000 \<and> \<not> in_image demo_exec a \<and> \<not> in_rng 0x410040 4 a \<and> \<not> in_pcbs a"
    if "in_locals demo_locals a" for a
    using demo_ranges[of a] in_pcbs_range[of a] that unfolding demo_image by auto
  moreover have "unat a < 0x800000 \<and> \<not> in_pcbs a" if "in_image demo_exec a" for a
    using demo_ranges(1)[of a] in_pcbs_range[of a] that unfolding demo_image by auto
  ultimately show ?thesis
    unfolding exec_layout_def by (simp add: demo_locals_def demo_exec_def)
qed

lemma demo_program: "fs_wf demo_exec" "elf_program (asc ''prog'') demo_dentry demo_exec"
  "file_contents 0 demo_exec = demo_file"
proof -
  have "demo_xmem a = demo_fs_mem a" if "in_rng 0x500000 12288 a" for a
    using demo_ranges(1)[OF that]
    by (simp add: demo_xmem_def demo_kmem_def wr_bytes_out in_rng_unat asc_def)
  then have same: "same_fs demo_fs demo_exec"
    using demo_fs_ok(3) by (simp add: same_fs_def demo_exec_def in_image_def)
  note fs = same_fs_contents[OF same demo_fs_ok(1,2)]
  show "fs_wf demo_exec" using demo_fs_ok(1) by (simp add: fs_wf_def image_size_def demo_exec_def)
  show fc: "file_contents 0 demo_exec = demo_file" using fs(1) demo_contents by simp
  have "lookup_name (asc ''prog'') demo_exec = Some demo_dentry"
    using demo_lookup by (simp add: demo_exec_def lookup_name_def split: if_splits)
  moreover have "take 4 demo_file = 127 # asc ''ELF''" by (simp add: demo_file_def asc_def of_char_def)
  ultimately show "elf_program (asc ''prog'') demo_dentry demo_exec"
    using fs(2) fc length_demo_file by (auto simp: elf_program_def demo_dentry_def)
qed

lemma demo_command: "command_arg demo_locals 0x600100 0x600100 (asc ''prog -a'') demo_exec"
proof -
  have "deref 0x600100 demo_exec = Inr 0x600100"
    using deref_kernel[OF demo_kernel_mapped, of "0x600100"] demo_kernel_mapped by (simp add: demo_exec_def)
  moreover have "cstr demo_xmem 0x600100 (asc ''prog -a'')"
    unfolding demo_xmem_def by (rule cstr_wr_bytes) (simp_all add: asc_def of_char_def)
  moreover have "disjnt_rng 0x700000 128 0x600100 128"
    by (rule disjnt_rng_sym, rule disjnt_rng_below) simp_all
  ultimately show ?thesis
    by (simp add: command_arg_def lin_def demo_locals_def demo_exec_def asc_def)
qed

lemma demo_elf: "cstr (mem demo_exec) (elf_str demo_exec) (asc ''ELF'')"
proof -
  have "cstr (wr_bytes demo_kmem 0x410040 (asc ''ELF'' @ [0])) 0x410040 (asc ''ELF'')"
    by (rule cstr_wr_bytes) (simp_all add: asc_def of_char_def)
  then have "cstr demo_xmem 0x410040 (asc ''ELF'')"
    unfolding demo_xmem_def by (subst cstr_cong) (auto simp: wr_bytes_out in_rng_unat asc_def)
  then show ?thesis by (simp add: demo_exec_def)
qed

lemma demo_table: "table_ok demo_exec" "reserved_slots (term_procs demo_exec) = 3"
  by (simp_all add: table_ok_def num_used_def reserved_slots_def tcount_def demo_exec_def)

theorem execute_starts_program_witness:
  "\<exists>t. execute demo_locals 0x600100 demo_exec = Some (Inr (To_User 0x8048074 USER_PROCESS_STACK, t)) \<and>
    walk t 0x8048000 = Some (0xC48000, True, True) \<and> rd_bytes (mem t) 0xC48000 28 = demo_file \<and>
    cstr (mem t) (0x7FC000 + 384) (asc ''-a'') \<and> procs t = [1, 1, 0, 0, 0, 0] \<and> cur_pid t = 1"
proof -
  have w: "arg_words (asc ''prog -a'') = asc ''prog'' # [asc ''-a'']"
    by (simp add: asc_def of_char_def)
  have km: "kernel_mapped demo_exec" using demo_kernel_mapped by (simp add: demo_exec_def)
  have rp: "length (running_procs demo_exec) = 3" "cur_pid demo_exec = 0"
    using demo_cur(1) by (simp_all add: demo_exec_def)
  obtain pid eip t where x: "execute demo_locals 0x600100 demo_exec = Some (Inr (To_User eip USER_PROCESS_STACK, t))"
    "0 \<le> pid" "pid < 6" "procs demo_exec ! nat pid = 0"
    "le_bytes4 eip = take 4 (drop 24 (file_contents (inode_index demo_dentry) demo_exec))"
    "started pid 0 (asc ''prog -a'') (file_contents (inode_index demo_dentry) demo_exec) demo_exec t"
    "procs t = (procs demo_exec)[nat pid := 1]" "cur_pid t = pid" "\<forall>j < nat pid. procs demo_exec ! j \<noteq> 0"
    using execute_starts_program[OF demo_layout demo_command w demo_program(1) demo_elf demo_program(2) km
      demo_table(1) rp(1), unfolded rp(2)] demo_table(2) by (auto simp: demo_exec_def)
  have pid: "pid = 1"
  proof -
    have "procs demo_exec ! 0 \<noteq> 0" "procs demo_exec ! 1 = 0" by (simp_all add: demo_exec_def)
    then have "nat pid \<noteq> 0" "\<not> 1 < nat pid" using x(4,9) by metis+
    with x(2) show ?thesis by arith
  qed
  have fc: "file_contents (inode_index demo_dentry) demo_exec = demo_file"
    using demo_program(3) by (simp add: demo_dentry_def)
  have "le_bytes4 eip = le_bytes4 0x8048074"
    using x(5) unfolding fc by (simp add: demo_file_def le_bytes4_def)
  then have eip: "eip = 0x8048074" by (rule le_bytes4_inj)
  note st = x(6)[unfolded started_def fc pid]
  have "walk t (0x8000000 + 0x48000) = Some (user_frame 1 + 0x48000, True, True)"
    using st[THEN conjunct2, THEN conjunct1, rule_format, of "0x48000"] by simp
  moreover have "rest_args (asc ''prog -a'') = asc ''-a''" "find_PCB 1 = 0x7FC000" "user_frame 1 + 0x48000 = 0xC48000"
    by (simp_all add: rest_args_def asc_def of_char_def find_PCB_def user_frame_def)
  ultimately show ?thesis using x(1,7,8) st eip by (simp add: pid length_demo_file demo_exec_def)
qed

end
