(* ===== verification/Keyboard.thy ===== *)
theory Keyboard
  imports Exec
begin

text \<open>
  The keyboard handler, \<open>keyboard_handler\<close> of \<^verbatim>\<open>student-distrib/terminal.c\<close>.

  The handler first makes the displayed terminal the running one. When that terminal runs another
  process than the interrupted one, the call comes back on the stack of that process, in the
  function that was suspended there: the rest of this call of the handler happens at some later
  time. Such an outcome is \<open>Resumed pid\<close>. The three function keys can start a shell, which leaves
  the handler for user code: \<open>Left\<close>. Otherwise the handler returns, \<open>Returned\<close>.

  Each key of the \<^verbatim>\<open>switch\<close> is a definition. \<open>prompt\<close> is the address of the literal that the
  handler prints when it clears the screen.

  The lemmas are a simulation: on every key that concerns the line, the handler does to the buffer
  of the displayed terminal what a reference editor does to the line, and touches nothing but the
  screen, the saved stack registers and its own variables.
\<close>

section \<open>Operations\<close>

datatype kflow = Returned int | Resumed int | Left flow

abbreviation (input) KEYBOARD_PORT :: u16 where "KEYBOARD_PORT \<equiv> 0x60"
abbreviation (input) INPUT_CUTOFF :: u8 where "INPUT_CUTOFF \<equiv> 0x3E"
abbreviation (input) SHIFT_OFFSET :: u32 where "SHIFT_OFFSET \<equiv> 52"
abbreviation (input) TABLE_OFFSET :: u32 where "TABLE_OFFSET \<equiv> 2"
abbreviation (input) KEY_SIZE :: nat where "KEY_SIZE \<equiv> 104"

definition KEY_TABLE :: bytes where
  "KEY_TABLE =
    asc ''1234567890-=  '' @ asc ''qwertyuiop[]  '' @ asc ''asdfghjkl;'' @ [39, 96, 32, 92] @ asc ''zxcvbnm,./'' @
    asc ''!@#$%^&*()_+  '' @ asc ''QWERTYUIOP{}  '' @ asc ''ASDFGHJKL:'' @ [34, 126, 32, 124] @ asc ''ZXCVBNM<>?''"

text \<open>A call of \<open>switch_running_terminal\<close> and what its caller does next, on its own stack.\<close>

definition switching ::
  "ptr \<Rightarrow> u32 \<Rightarrow> (u32 \<Rightarrow> 'a kernel_scheme \<Rightarrow> (fault + kflow \<times> 'a kernel_scheme) option) \<Rightarrow>
    'a kernel_scheme \<Rightarrow> (fault + kflow \<times> 'a kernel_scheme) option" where
  "switching conv term k s =
    fbind (switch_running_terminal conv term s) (\<lambda>(r, t).
      if r = 0 \<and> running_procs s ! unat (running_terminal s) \<noteq> running_procs s ! unat term
      then Some (Inr (Resumed (running_procs s ! unat term), t))
      else k r t)"

definition SEND_EOI :: "'a kernel_scheme \<Rightarrow> (fault + kflow \<times> 'a kernel_scheme) option" where
  "SEND_EOI s = Some (Inr (Returned 0, send_eoi 1 s))"

definition cur_index :: "'a term_vars_scheme \<Rightarrow> u32" where
  "cur_index s = key_index s ! unat (display_terminal s)"

text \<open>
  \<^verbatim>\<open>key_buffer[display_terminal][temp] = c\<close>. The index runs into the row of the next terminal when it
  is not below 128, and out of the array on the last one.
\<close>

definition key_store :: "u8 \<Rightarrow> u8 \<Rightarrow> 'a term_vars_scheme \<Rightarrow> fault + 'a term_vars_scheme" where
  "key_store temp c s =
    (let i = MAX_BUFF_LENGTH * unat (display_terminal s) + unat temp
     in if i \<ge> MAX_TERMINAL_NUM * MAX_BUFF_LENGTH then Inl Out_Of_Bounds
        else Inr (s\<lparr>key_buffer := (key_buffer s)[i := c]\<rparr>))"

definition set_index :: "u32 \<Rightarrow> 'a term_vars_scheme \<Rightarrow> 'a term_vars_scheme" where
  "set_index v s = s\<lparr>key_index := (key_index s)[unat (display_terminal s) := v]\<rparr>"

definition SPACE_key :: "'a kernel_scheme \<Rightarrow> (fault + kflow \<times> 'a kernel_scheme) option" where
  "SPACE_key s =
    (let temp = ucast (cur_index s);
         s = putc 32 s
     in fbind (lift (key_store temp 32 s)) (\<lambda>s.
        let s = set_index (cur_index s + 1) s;
            s = update_cursor (get_screen_x s) (get_screen_y s) s
        in SEND_EOI s))"

fun TAB_loop :: "nat \<Rightarrow> 'a kernel_scheme \<Rightarrow> fault + 'a kernel_scheme" where
  "TAB_loop 0 s = Inr s"
| "TAB_loop (Suc x) s =
    (let s = putc 32 s;
         temp = ucast (cur_index s)
     in sbind (key_store temp 32 s) (\<lambda>s.
        let s = set_index (cur_index s + 1) s;
            s = update_cursor (get_screen_x s) (get_screen_y s) s
        in TAB_loop x s))"

definition TAB_key :: "'a kernel_scheme \<Rightarrow> (fault + kflow \<times> 'a kernel_scheme) option" where
  "TAB_key s = fbind (lift (TAB_loop 4 s)) SEND_EOI"

definition BACK_key :: "'a kernel_scheme \<Rightarrow> (fault + kflow \<times> 'a kernel_scheme) option" where
  "BACK_key s =
    (let temp = ucast (cur_index s)
     in if cur_index s - ucast (clear_offset s ! unat (display_terminal s)) \<noteq> 0
        then fbind (lift (key_store temp 0 (print_backspace s))) (\<lambda>s.
          SEND_EOI (set_index (cur_index s - 1) s))
        else SEND_EOI s)"

definition ENTER_key :: "'a kernel_scheme \<Rightarrow> (fault + kflow \<times> 'a kernel_scheme) option" where
  "ENTER_key s =
    (let temp = ucast (cur_index s)
     in fbind (lift (key_store temp 10 s)) (\<lambda>s.
        let s = putc 10 s;
            s = s\<lparr>wrapped := 0\<rparr>;
            s = set_index 0 s;
            s = s\<lparr>clear_offset := (clear_offset s)[unat (display_terminal s) := 0]\<rparr>;
            s = s\<lparr>current_line := current_line s + 1\<rparr>;
            s = s\<lparr>enter_down := 1\<rparr>
        in SEND_EOI s))"

text \<open>F1, F2 and F3. The first one does not acknowledge the interrupt before it starts a shell.\<close>

definition function_key ::
  "exec_locals \<Rightarrow> u32 \<Rightarrow> bool \<Rightarrow> 'a kernel_scheme \<Rightarrow> (fault + kflow \<times> 'a kernel_scheme) option" where
  "function_key loc term early s =
    (if alt_check s \<noteq> 0 \<and> display_terminal s \<noteq> term
     then fbind (switch_display_terminal (conv_buf loc) term s) (\<lambda>(_, s).
       switching (conv_buf loc) term (\<lambda>r s.
         if r \<noteq> 0
         then let s = (if early then send_eoi 1 s else s)
              in fbind (execute loc (dechar (shell_str s)) s) (\<lambda>(fl, s).
                case fl of Ret _ \<Rightarrow> SEND_EOI (send_eoi 1 s) | _ \<Rightarrow> Some (Inr (Left fl, s)))
         else SEND_EOI (send_eoi 1 s)) s)
     else SEND_EOI s)"

section \<open>Character keys\<close>

definition shifted :: "'a term_vars_scheme \<Rightarrow> bool" where
  "shifted s \<longleftrightarrow> L_shift_check s \<noteq> 0 \<or> R_shift_check s \<noteq> 0"

definition set_table_index :: "u8 \<Rightarrow> 'a term_vars_scheme \<Rightarrow> 'a term_vars_scheme" where
  "set_table_index scancode s =
    (let s = s\<lparr>table_index := ucast scancode - TABLE_OFFSET\<rparr>;
         s = (if shifted s then s\<lparr>table_index := table_index s + SHIFT_OFFSET\<rparr> else s)
     in if capslock_check s \<noteq> 0 \<and>
           ((scancode \<ge> 0x10 \<and> scancode \<le> 0x19) \<or> (scancode \<ge> 0x1E \<and> scancode \<le> 0x26) \<or>
            (scancode \<ge> 0x2C \<and> scancode \<le> 0x32))
        then if shifted s then s\<lparr>table_index := table_index s - SHIFT_OFFSET\<rparr>
             else s\<lparr>table_index := table_index s + SHIFT_OFFSET\<rparr>
        else s)"

definition clear_key :: "ptr \<Rightarrow> 'a kernel_scheme \<Rightarrow> (fault + kflow \<times> 'a kernel_scheme) option" where
  "clear_key prompt s =
    (let s = clear s
     in fbind (lift (if cur_index s \<noteq> 0
                     then Inr (s\<lparr>clear_offset := (clear_offset s)[unat (display_terminal s) := ucast (cur_index s)]\<rparr>)
                     else sbind (clear_buffer s) (\<lambda>(_, s). Inr s))) (\<lambda>s.
        let s = update_cursor 0 0 s
        in Option.bind (puts prompt s) (\<lambda>(_, s).
           let s = update_cursor SHELL_OFFSET 0 s;
               s = set_screen_y 0 s;
               s = s\<lparr>current_line := 0\<rparr>
           in SEND_EOI s)))"

definition type_key :: "u8 \<Rightarrow> 'a kernel_scheme \<Rightarrow> (fault + kflow \<times> 'a kernel_scheme) option" where
  "type_key input s =
    (let temp_x = word_of_int (get_screen_x s + 1) :: u8;
         temp_y = word_of_int (get_screen_y s + 1) :: u8
     in if temp_x = 80 \<and> wrapped s = 0
        then let s = putc input s;
                 temp = ucast (cur_index s)
             in fbind (lift (key_store temp input s)) (\<lambda>s.
                let s = set_index (cur_index s + 1) s;
                    s = (if uint temp_y = NUM_ROWS then scroll_handle (set_screen_y (uint temp_y) s) else wrap_around s);
                    s = s\<lparr>wrapped := 1\<rparr>;
                    s = s\<lparr>current_line := temp_y\<rparr>;
                    s = update_cursor 0 (uint temp_y) s
                in SEND_EOI s)
        else if cur_index s < of_nat MAX_BUFF_LENGTH
        then let s = putc input s;
                 temp = ucast (cur_index s)
             in fbind (lift (key_store temp input s)) (\<lambda>s.
                let s = set_index (cur_index s + 1) s;
                    s = update_cursor (get_screen_x s) (get_screen_y s) s
                in SEND_EOI s)
        else SEND_EOI s)"

definition default_key ::
  "ptr \<Rightarrow> u8 \<Rightarrow> 'a kernel_scheme \<Rightarrow> (fault + kflow \<times> 'a kernel_scheme) option" where
  "default_key prompt scancode s =
    (if scancode < INPUT_CUTOFF
     then let s = set_table_index scancode s
          in if unat (table_index s) \<ge> KEY_SIZE then Some (Inl Out_Of_Bounds)
             else let input = KEY_TABLE ! unat (table_index s)
                  in if ctrl_check s \<noteq> 0 \<and> (input = 108 \<or> input = 76)
                     then clear_key prompt s
                     else type_key input s
     else SEND_EOI s)"

definition handle_key ::
  "exec_locals \<Rightarrow> ptr \<Rightarrow> u8 \<Rightarrow> 'a kernel_scheme \<Rightarrow> (fault + kflow \<times> 'a kernel_scheme) option" where
  "handle_key loc prompt scancode s =
    (if scancode = 0x3A then SEND_EOI (s\<lparr>capslock_check := (if capslock_check s = 0 then 1 else 0)\<rparr>)
     else if scancode = 0x2A then SEND_EOI (s\<lparr>L_shift_check := 1\<rparr>)
     else if scancode = 0xAA then SEND_EOI (s\<lparr>L_shift_check := 0\<rparr>)
     else if scancode = 0x36 then SEND_EOI (s\<lparr>R_shift_check := 1\<rparr>)
     else if scancode = 0xB6 then SEND_EOI (s\<lparr>R_shift_check := 0\<rparr>)
     else if scancode = 0x39 then SPACE_key s
     else if scancode = 0x0F then TAB_key s
     else if scancode = 0x0E then BACK_key s
     else if scancode = 0x1D then SEND_EOI (s\<lparr>ctrl_check := 1\<rparr>)
     else if scancode = 0x9D then SEND_EOI (s\<lparr>ctrl_check := 0\<rparr>)
     else if scancode = 0x38 then SEND_EOI (s\<lparr>alt_check := 1\<rparr>)
     else if scancode = 0xB8 then SEND_EOI (s\<lparr>alt_check := 0\<rparr>)
     else if scancode = 0x1C then ENTER_key s
     else if scancode = 0x9C then SEND_EOI (s\<lparr>enter_down := 0\<rparr>)
     else if scancode = 0x3B then function_key loc 0 False s
     else if scancode = 0x3C then function_key loc 1 True s
     else if scancode = 0x3D then function_key loc 2 True s
     else default_key prompt scancode s)"

definition keyboard_handler ::
  "exec_locals \<Rightarrow> ptr \<Rightarrow> 'a kernel_scheme \<Rightarrow> (fault + kflow \<times> 'a kernel_scheme) option" where
  "keyboard_handler loc prompt s =
    (let (v, s) = inb KEYBOARD_PORT s
     in switching (conv_buf loc) (display_terminal s) (\<lambda>_. handle_key loc prompt (ucast v)) s)"

section \<open>A reference editor\<close>

lemma length_KEY_TABLE: "length KEY_TABLE = KEY_SIZE"
  by (simp add: KEY_TABLE_def asc_def)

text \<open>
  The state of the keyboard as the user understands it: which modifiers are on, the line typed so
  far, and how many of its characters can not be erased because the screen was cleared after them.
\<close>

record editor =
  e_lshift :: bool
  e_rshift :: bool
  e_caps :: bool
  e_ctrl :: bool
  e_alt :: bool
  e_fixed :: nat
  e_text :: bytes

text \<open>The character of a key: caps lock swaps the case of the letters, and of nothing else.\<close>

definition is_letter :: "u8 \<Rightarrow> bool" where
  "is_letter c \<longleftrightarrow> 97 \<le> c \<and> c \<le> 122"

definition key_char :: "u8 \<Rightarrow> editor \<Rightarrow> u8" where
  "key_char sc e =
    (let k = unat sc - 2;
         upper = (e_lshift e \<or> e_rshift e) \<noteq> (e_caps e \<and> is_letter (KEY_TABLE ! k))
     in KEY_TABLE ! (if upper then 52 + k else k))"

definition edit_key :: "u8 \<Rightarrow> editor \<Rightarrow> editor" where
  "edit_key sc e =
    (if sc = 0x3A then e\<lparr>e_caps := \<not> e_caps e\<rparr>
     else if sc = 0x2A then e\<lparr>e_lshift := True\<rparr>
     else if sc = 0xAA then e\<lparr>e_lshift := False\<rparr>
     else if sc = 0x36 then e\<lparr>e_rshift := True\<rparr>
     else if sc = 0xB6 then e\<lparr>e_rshift := False\<rparr>
     else if sc = 0x1D then e\<lparr>e_ctrl := True\<rparr>
     else if sc = 0x9D then e\<lparr>e_ctrl := False\<rparr>
     else if sc = 0x38 then e\<lparr>e_alt := True\<rparr>
     else if sc = 0xB8 then e\<lparr>e_alt := False\<rparr>
     else if sc = 0x39 then e\<lparr>e_text := e_text e @ [32]\<rparr>
     else if sc = 0x0F then e\<lparr>e_text := e_text e @ replicate 4 32\<rparr>
     else if sc = 0x0E then (if length (e_text e) = e_fixed e then e else e\<lparr>e_text := butlast (e_text e)\<rparr>)
     else if sc < 0x3B then e\<lparr>e_text := e_text e @ [key_char sc e]\<rparr>
     else e)"

text \<open>
  The keys whose effect is on the line alone: not Enter, not the combinations that clear the screen
  or change the terminal, no key outside the table, and no key that makes the line longer than 127.
\<close>

definition key_ok :: "u8 \<Rightarrow> editor \<Rightarrow> bool" where
  "key_ok sc e \<longleftrightarrow> sc \<noteq> 0x1C \<and> 2 \<le> sc \<and> sc \<noteq> 0x37 \<and> \<not> (e_ctrl e \<and> sc = 0x26) \<and>
    \<not> (e_alt e \<and> sc \<in> {0x3B, 0x3C, 0x3D}) \<and> length (e_text (edit_key sc e)) \<le> 127"

fun keys_ok :: "bytes \<Rightarrow> editor \<Rightarrow> bool" where
  "keys_ok [] e = True"
| "keys_ok (sc # scs) e = (key_ok sc e \<and> keys_ok scs (edit_key sc e))"

definition row :: "'a term_vars_scheme \<Rightarrow> bytes" where
  "row s = take 128 (drop (128 * unat (display_terminal s)) (key_buffer s))"

definition editor_of :: "'a term_vars_scheme \<Rightarrow> editor" where
  "editor_of s = \<lparr>e_lshift = (L_shift_check s \<noteq> 0), e_rshift = (R_shift_check s \<noteq> 0),
     e_caps = (capslock_check s \<noteq> 0), e_ctrl = (ctrl_check s \<noteq> 0), e_alt = (alt_check s \<noteq> 0),
     e_fixed = unat (clear_offset s ! unat (display_terminal s)),
     e_text = take (unat (cur_index s)) (row s)\<rparr>"

section \<open>The row of the displayed terminal\<close>

definition keys_wf :: "'a term_vars_scheme \<Rightarrow> bool" where
  "keys_wf s \<longleftrightarrow> unat (display_terminal s) < 3 \<and> length (key_buffer s) = 384 \<and> length (key_index s) = 3 \<and>
    length (clear_offset s) = 3 \<and> unat (cur_index s) \<le> 127 \<and>
    unat (clear_offset s ! unat (display_terminal s)) \<le> unat (cur_index s)"

lemma length_row: "keys_wf s \<Longrightarrow> length (row s) = 128"
  unfolding row_def keys_wf_def length_take length_drop by linarith

lemma length_e_text: "keys_wf s \<Longrightarrow> length (e_text (editor_of s)) = unat (cur_index s)"
  using length_row[of s] by (simp add: editor_of_def keys_wf_def)

lemma unat_ucast8: "unat w < 256 \<Longrightarrow> unat (ucast w :: u8) = unat w" for w :: u32
  by (simp add: unsigned_ucast_eq take_bit_nat_eq_self)

lemma unat_ucast32: "unat (ucast (w :: u8) :: u32) = unat w"
proof -
  have "unat w < 2 ^ 32" by (rule order.strict_trans2[OF unsigned_less]) simp
  then show ?thesis by (simp add: unsigned_ucast_eq take_bit_nat_eq_self)
qed

lemma ucast_ucast8: "ucast (ucast w :: u32) = w" for w :: u8
  by (simp add: word_unat_eq_iff unat_ucast8 unat_ucast32 order.strict_trans2[OF unsigned_less])

lemma key_store_row:
  assumes "keys_wf s"
  shows "\<exists>kb. key_store (ucast (cur_index s)) c s = Inr (s\<lparr>key_buffer := kb\<rparr>) \<and> length kb = 384 \<and>
    row (s\<lparr>key_buffer := kb\<rparr>) = (row s)[unat (cur_index s) := c]"
proof -
  let ?d = "unat (display_terminal s)" and ?k = "unat (cur_index s)"
  have u: "unat (ucast (cur_index s) :: u8) = ?k" using assms by (intro unat_ucast8) (simp add: keys_wf_def)
  have b: "128 * ?d + ?k < 384" using assms by (simp add: keys_wf_def)
  have "take 128 (drop (128 * ?d) ((key_buffer s)[128 * ?d + ?k := c])) = (take 128 (drop (128 * ?d) (key_buffer s)))[?k := c]"
    by (simp add: drop_update_swap take_update_swap)
  with b u assms show ?thesis
    by (intro exI[of _ "(key_buffer s)[128 * ?d + ?k := c]"]) (simp add: key_store_def row_def keys_wf_def)
qed

section \<open>The interrupted process goes on\<close>

text \<open>
  A keyboard interrupt while the displayed terminal is the running one, with a process that belongs
  to it, and the cursor on the screen.
\<close>

definition kb_ready :: "'a kernel_scheme \<Rightarrow> bool" where
  "kb_ready s \<longleftrightarrow> keys_wf s \<and> kernel_mapped s \<and> running_terminal s = display_terminal s \<and>
    0 \<le> cur_pid s \<and> cur_pid s < 6 \<and> word_of_int (term_procs s ! nat (cur_pid s)) = display_terminal s \<and> on_screen s"

definition key_reads :: "io_event list \<Rightarrow> nat" where
  "key_reads tr = length (filter (\<lambda>ev. case ev of Inb p v \<Rightarrow> p = KEYBOARD_PORT | Outb p v \<Rightarrow> False) tr)"

text \<open>What a key press leaves alone.\<close>

definition kb_frame :: "'a kernel_scheme \<Rightarrow> 'a kernel_scheme \<Rightarrow> bool" where
  "kb_frame s t \<longleftrightarrow> kb_ready t \<and> display_terminal t = display_terminal s \<and> cur_pid t = cur_pid s \<and>
    ports t = ports s \<and> key_reads (io_trace t) = key_reads (io_trace s) \<and> virtual_freq t = virtual_freq s \<and>
    (\<forall>a. \<not> in_rng VIDEO 4000 a \<longrightarrow> \<not> in_rng (find_PCB (cur_pid s) + of_nat ESP) 8 a \<longrightarrow> mem t a = mem s a)"

definition own_page :: "'a kernel_scheme \<Rightarrow> bool" where
  "own_page s \<longleftrightarrow> video_mem s = VIDEO \<and>
    (\<forall>q < 0x400000. walk s (0x8000000 + q) = Some (user_frame (cur_pid s) + q, True, True))"

lemma stack_fields_out:
  assumes "\<not> in_rng (pcb + of_nat ESP) 8 a"
  shows "mem (st_field pcb EBP v (st_field pcb ESP w s)) a = mem s a"
proof -
  have "\<not> in_rng (pcb + of_nat 520) 4 a" using assms in_rng_mono[of "pcb + of_nat 520" 4 a 8] by auto
  moreover have "\<not> in_rng (pcb + of_nat 520 + of_nat 4) 4 a" using assms in_rng_offset[of "pcb + of_nat 520" 4 4 a 8] by auto
  then have "\<not> in_rng (pcb + of_nat 524) 4 a" by (simp add: add.assoc)
  ultimately show ?thesis by (simp add: st_field_def st32_out)
qed

lemma self_switch:
  assumes "kb_ready s"
  shows "\<exists>m pd. switch_running_terminal conv (display_terminal s) s =
      Some (Inr (0, s\<lparr>mem := m, page_dir := pd, video_mem := VIDEO, tss_esp0 := reg_esp s\<rparr>)) \<and>
    kernel_mapped (s\<lparr>page_dir := pd\<rparr>) \<and>
    (\<forall>q < 0x400000. walk (s\<lparr>page_dir := pd\<rparr>) (0x8000000 + q) = Some (user_frame (cur_pid s) + q, True, True)) \<and>
    (\<forall>a. \<not> in_rng (find_PCB (cur_pid s) + of_nat ESP) 8 a \<longrightarrow> m a = mem s a)"
proof -
  let ?pid = "cur_pid s" and ?d = "display_terminal s"
  have r: "unat ?d < 3" "running_terminal s = ?d" "kernel_mapped s" "0 \<le> ?pid" "?pid < 6"
    "word_of_int (term_procs s ! nat ?pid) = ?d"
    using assms by (simp_all add: kb_ready_def keys_wf_def)
  have p: "running_procs s ! unat ?d = ?pid" using r(2) by (simp add: cur_pid_def)
  let ?t = "st_field (find_PCB ?pid) EBP (reg_ebp s) (st_field (find_PCB ?pid) ESP (reg_esp s) s)"
  have rs: "s\<lparr>running_terminal := ?d\<rparr> = s" using r(2) by simp
  obtain m where m: "?t = s\<lparr>mem := m\<rparr>" by (simp add: st_field_def)
  have ld: "ld_field (find_PCB ?pid) ESP (s\<lparr>mem := m\<rparr>) = reg_esp s" "ld_field (find_PCB ?pid) EBP (s\<lparr>mem := m\<rparr>) = reg_ebp s"
    by (simp_all add: m[symmetric] ld_st_other)
  obtain pd where pd: "snd (map_v_p 0x8000000 (user_frame ?pid) 1 1 1 (s\<lparr>mem := m\<rparr>)) = s\<lparr>mem := m, page_dir := pd\<rparr>"
    "kernel_mapped (s\<lparr>mem := m, page_dir := pd\<rparr>)"
    "\<forall>q < 0x400000. walk (s\<lparr>mem := m, page_dir := pd\<rparr>) (0x8000000 + q) = Some (user_frame ?pid + q, True, True)"
    using map_user_page[of "s\<lparr>mem := m\<rparr>" ?pid] r by auto
  let ?u = "s\<lparr>mem := m, page_dir := pd, video_mem := VIDEO\<rparr>"
  have pdir: "kernel_mapped (s\<lparr>page_dir := pd\<rparr>)" "walk (s\<lparr>page_dir := pd\<rparr>) = walk (s\<lparr>mem := m, page_dir := pd\<rparr>)"
    "kernel_mapped ?u"
    using walk_cong[of "s\<lparr>mem := m, page_dir := pd\<rparr>" "s\<lparr>page_dir := pd\<rparr>"] walk_cong[of "s\<lparr>mem := m, page_dir := pd\<rparr>" ?u] pd(2)
    by (auto simp: kernel_mapped_def)
  have lu: "ld_field (find_PCB ?pid) i ?u = ld_field (find_PCB ?pid) i (s\<lparr>mem := m\<rparr>)"
    "ld_field (find_PCB ?pid) i (?u\<lparr>tss_esp0 := v\<rparr>) = ld_field (find_PCB ?pid) i (s\<lparr>mem := m\<rparr>)" for i v
    by (simp_all add: ld_field_def)
  have sw: "switch_running_terminal conv ?d s = Some (Inr (0, ?u\<lparr>tss_esp0 := reg_esp s, reg_esp := reg_esp s, reg_ebp := reg_ebp s\<rparr>))"
    using r p m pd(1) deref_PCB[OF r(3-5)] deref_PCB[OF pdir(3) r(4,5)] lu ld
    by (simp add: switch_running_terminal_def set_video_mem_def user_frame_def rs Let_def)
  have "?u\<lparr>tss_esp0 := reg_esp s, reg_esp := reg_esp s, reg_ebp := reg_ebp s\<rparr> = ?u\<lparr>tss_esp0 := reg_esp s\<rparr>" by simp
  moreover have "m a = mem s a" if "\<not> in_rng (find_PCB ?pid + of_nat ESP) 8 a" for a
    using stack_fields_out[OF that, of "reg_ebp s" "reg_esp s" s] by (simp add: m)
  ultimately show ?thesis using sw pdir pd(3) by (intro exI[of _ m] exI[of _ pd]) auto
qed

section \<open>Steps of the handler\<close>

text \<open>The console operations, with the two variables of the driver that follow the cursor.\<close>

definition con_step :: "'a console_scheme \<Rightarrow> 'a console_scheme \<Rightarrow> bool" where
  "con_step t u \<longleftrightarrow> u = t\<lparr>mem := mem u, io_trace := io_trace u, wrapped := wrapped u, current_line := current_line u,
      screen_x := screen_x u, screen_y := screen_y u\<rparr> \<and> on_screen u \<and>
    key_reads (io_trace u) = key_reads (io_trace t) \<and> (\<forall>a. \<not> in_rng (video_mem t) 4000 a \<longrightarrow> mem u a = mem t a)"

lemma key_reads_simps [simp]:
  "key_reads (Outb p v # tr) = key_reads tr" "key_reads (cursor_writes x y @ tr) = key_reads tr"
  "key_reads (Inb p v # tr) = (if p = KEYBOARD_PORT then Suc (key_reads tr) else key_reads tr)"
  by (simp_all add: key_reads_def cursor_writes_def Let_def)

lemma con_step_putc: "on_screen s \<Longrightarrow> con_step s (putc c s)"
proof -
  assume on: "on_screen s"
  note p = putc_step(3,4)[OF on_near[OF on] on, of c]
  have "key_reads (io_trace (putc c s)) = key_reads (io_trace s)"
    by (simp add: putc_eq[OF on_near[OF on]])
  moreover have "wrapped (putc c s) = wrapped s" "current_line (putc c s) = current_line s"
    by (simp_all add: putc_eq[OF on_near[OF on]])
  moreover have "putc c s = s\<lparr>mem := mem (putc c s), io_trace := io_trace (putc c s), screen_x := screen_x (putc c s), screen_y := screen_y (putc c s)\<rparr>"
    using p(2) by (simp add: screen_step_def)
  ultimately show ?thesis using p by (simp add: con_step_def screen_step_def)
qed

lemma con_step_backspace: "on_screen s \<Longrightarrow> con_step s (print_backspace s)"
proof -
  assume on: "on_screen s"
  show ?thesis
    using display_backspace(2,4)[OF on]
    unfolding con_step_def
    by (auto simp: print_backspace_def update_cursor_eq poke_def Let_def)
qed

lemma con_step_simple:
  "on_screen s \<Longrightarrow> con_step s (update_cursor x y s)" "on_screen s \<Longrightarrow> con_step s (send_eoi 1 s)"
  "on_screen s \<Longrightarrow> con_step s (s\<lparr>wrapped := w\<rparr>)" "on_screen s \<Longrightarrow> con_step s (s\<lparr>current_line := l\<rparr>)"
  by (simp_all add: con_step_def on_screen_def update_cursor_eq send_eoi_def outb_def)

lemma con_step_wrap:
  "on_screen s \<Longrightarrow> screen_y s < 24 \<Longrightarrow> con_step s (wrap_around s)"
  "on_screen s \<Longrightarrow> con_step s (scroll_handle (set_screen_y 25 s))"
  by (auto simp: con_step_def on_screen_def wrap_around_def update_cursor_eq scroll_handle_eq set_screen_y_def
      scrolled_frame[of 4000] Let_def)

lemma con_step_on: "con_step s t \<Longrightarrow> on_screen t"
  unfolding con_step_def by blast

lemma con_step_trans:
  assumes "con_step s t" "con_step t u"
  shows "con_step s u"
proof -
  have t: "t = s\<lparr>mem := mem t, io_trace := io_trace t, wrapped := wrapped t, current_line := current_line t,
      screen_x := screen_x t, screen_y := screen_y t\<rparr>"
    and u: "u = t\<lparr>mem := mem u, io_trace := io_trace u, wrapped := wrapped u, current_line := current_line u,
      screen_x := screen_x u, screen_y := screen_y u\<rparr>"
    using assms by (simp_all add: con_step_def)
  have "u = s\<lparr>mem := mem u, io_trace := io_trace u, wrapped := wrapped u, current_line := current_line u,
      screen_x := screen_x u, screen_y := screen_y u\<rparr>"
    by (subst u, subst t) simp
  moreover have "video_mem t = video_mem s" by (subst t) simp
  ultimately show ?thesis using assms by (simp add: con_step_def)
qed

text \<open>A step of the handler that leaves the line editor in the state \<open>e\<close> and the flag at \<open>b\<close>.\<close>

definition edits :: "editor \<Rightarrow> u8 \<Rightarrow> 'a kernel_scheme \<Rightarrow> 'a kernel_scheme \<Rightarrow> bool" where
  "edits e b t u \<longleftrightarrow> kb_frame t u \<and> own_page u \<and> editor_of u = e \<and> enter_down u = b"

lemma kb_frame_refl: "kb_ready t \<Longrightarrow> kb_frame t t"
  by (simp add: kb_frame_def)

lemma kb_frame_trans: "kb_frame s t \<Longrightarrow> kb_frame t u \<Longrightarrow> kb_frame s u"
  by (simp add: kb_frame_def)

lemma edits_trans: "edits e b s t \<Longrightarrow> edits e' b' t u \<Longrightarrow> edits e' b' s u"
  using kb_frame_trans by (auto simp: edits_def)

lemma edits_ready: "edits e b s t \<Longrightarrow> kb_ready t \<and> own_page t \<and> on_screen t \<and> keys_wf t \<and> editor_of t = e \<and> enter_down t = b"
  by (auto simp: edits_def kb_frame_def kb_ready_def)

lemma con_step_edits:
  assumes "kb_ready s" "own_page s" "con_step s t"
  shows "edits (editor_of s) (enter_down s) s t"
proof -
  let ?u = "s\<lparr>mem := mem t, io_trace := io_trace t, wrapped := wrapped t, current_line := current_line t,
      screen_x := screen_x t, screen_y := screen_y t\<rparr>"
  have t: "t = ?u" and c: "on_screen t" "key_reads (io_trace t) = key_reads (io_trace s)"
    "\<And>a. \<not> in_rng VIDEO 4000 a \<Longrightarrow> mem t a = mem s a"
    using assms(2,3) by (simp_all add: con_step_def own_page_def)
  have low: "low_mapped s" using assms(1) by (simp add: kb_ready_def kernel_mapped_def)
  have w: "walk ?u = walk s" "kernel_mapped ?u = kernel_mapped s"
    using walk_cong[OF low, of ?u] by simp_all
  have "keys_wf ?u = keys_wf s" "cur_pid ?u = cur_pid s" "editor_of ?u = editor_of s" "on_screen ?u = on_screen t"
    by (simp_all add: keys_wf_def cur_index_def cur_pid_def editor_of_def row_def on_screen_def)
  then have "kb_ready ?u" "own_page ?u" "editor_of ?u = editor_of s" "cur_pid ?u = cur_pid s"
    using assms(1,2) c(1) w by (simp_all add: kb_ready_def own_page_def)
  then have "edits (editor_of s) (enter_down s) s ?u"
    using c(2,3) by (simp add: edits_def kb_frame_def)
  with t show ?thesis by simp
qed

text \<open>Modifier keys, and any other change that is visible in the editor only.\<close>

definition key_fields :: "'a kernel_scheme \<Rightarrow> 'a kernel_scheme \<Rightarrow> bool" where
  "key_fields s t \<longleftrightarrow> t = s\<lparr>L_shift_check := L_shift_check t, R_shift_check := R_shift_check t,
      capslock_check := capslock_check t, ctrl_check := ctrl_check t, alt_check := alt_check t,
      enter_down := enter_down t, clear_offset := clear_offset t, table_index := table_index t,
      key_index := key_index t, key_buffer := key_buffer t\<rparr>"

lemma key_fieldsD:
  assumes "key_fields s t"
  shows "display_terminal t = display_terminal s" "running_terminal t = running_terminal s"
    "running_procs t = running_procs s" "term_procs t = term_procs s" "cur_pid t = cur_pid s"
    "mem t = mem s" "io_trace t = io_trace s" "ports t = ports s" "on_screen t = on_screen s"
    "video_mem t = video_mem s" "virtual_freq t = virtual_freq s"
    "page_dir t = page_dir s" "page_table t = page_table s" "page_table_addr t = page_table_addr s"
  by (subst assms[unfolded key_fields_def], simp add: cur_pid_def on_screen_def)+

lemma field_edits:
  assumes "kb_ready s" "own_page s" "keys_wf t" "key_fields s t"
  shows "edits (editor_of t) (enter_down t) s t"
proof -
  have low: "low_mapped s" using assms(1) by (simp add: kb_ready_def kernel_mapped_def)
  note f = key_fieldsD[OF assms(4)]
  have "walk t = walk s" "kernel_mapped t = kernel_mapped s"
    using walk_cong[OF low, of t] f by simp_all
  with assms(1-3) show ?thesis
    by (simp add: edits_def kb_frame_def kb_ready_def own_page_def f)
qed

text \<open>Appending a character to the line, and erasing the last one.\<close>

lemma append_key:
  assumes "kb_ready s" "own_page s" "unat (cur_index s) < 127"
  shows "\<exists>t. key_store (ucast (cur_index s)) c s = Inr t \<and> cur_index t = cur_index s \<and>
    edits (editor_of s\<lparr>e_text := e_text (editor_of s) @ [c]\<rparr>) (enter_down s) s (set_index (cur_index s + 1) t)"
proof -
  have wf: "keys_wf s" using assms(1) by (simp add: kb_ready_def)
  let ?k = "unat (cur_index s)" and ?d = "unat (display_terminal s)"
  have k: "?k < 128" using assms(3) by simp
  obtain kb where kb: "key_store (ucast (cur_index s)) c s = Inr (s\<lparr>key_buffer := kb\<rparr>)" "length kb = 384"
    "row (s\<lparr>key_buffer := kb\<rparr>) = (row s)[?k := c]"
    using key_store_row[OF wf, of c] by blast
  let ?t = "s\<lparr>key_buffer := kb\<rparr>" and ?u = "set_index (cur_index s + 1) (s\<lparr>key_buffer := kb\<rparr>)"
  have k1: "unat (cur_index s + 1) = ?k + 1" using k by (simp add: unat_word_ariths)
  have d3: "?d < 3" "length (key_index s) = 3" using wf by (simp_all add: keys_wf_def)
  have cu: "cur_index ?u = cur_index s + 1" using d3 by (simp add: cur_index_def set_index_def)
  have ru: "row ?u = (row s)[?k := c]" using kb(3) by (simp add: row_def set_index_def)
  have "keys_wf ?u" using wf kb(2) k1 assms(3) by (simp add: keys_wf_def cu) (simp add: set_index_def)
  moreover have "key_fields s ?u" by (simp add: key_fields_def set_index_def)
  moreover have "take (?k + 1) ((row s)[?k := c]) = take ?k (row s) @ [c]"
    using length_row[OF wf] k by (simp add: take_Suc_conv_app_nth)
  then have "editor_of ?u = editor_of s\<lparr>e_text := e_text (editor_of s) @ [c]\<rparr>"
    unfolding editor_of_def ru cu k1 by (simp add: set_index_def)
  moreover have "enter_down ?u = enter_down s" by (simp add: set_index_def)
  ultimately have "edits (editor_of s\<lparr>e_text := e_text (editor_of s) @ [c]\<rparr>) (enter_down s) s ?u"
    using field_edits[OF assms(1,2), of ?u] by simp
  then show ?thesis using kb(1) by (intro exI[of _ ?t]) (simp add: cur_index_def)
qed

lemma erase_key:
  assumes "kb_ready s" "own_page s" "unat (clear_offset s ! unat (display_terminal s)) < unat (cur_index s)"
  shows "\<exists>t. key_store (ucast (cur_index s)) c s = Inr t \<and> cur_index t = cur_index s \<and>
    edits (editor_of s\<lparr>e_text := butlast (e_text (editor_of s))\<rparr>) (enter_down s) s (set_index (cur_index s - 1) t)"
proof -
  have wf: "keys_wf s" using assms(1) by (simp add: kb_ready_def)
  let ?k = "unat (cur_index s)" and ?d = "unat (display_terminal s)"
  have k: "?k < 128" "0 < ?k" using wf assms(3) by (simp_all add: keys_wf_def)
  obtain kb where kb: "key_store (ucast (cur_index s)) c s = Inr (s\<lparr>key_buffer := kb\<rparr>)" "length kb = 384"
    "row (s\<lparr>key_buffer := kb\<rparr>) = (row s)[?k := c]"
    using key_store_row[OF wf, of c] by blast
  let ?t = "s\<lparr>key_buffer := kb\<rparr>" and ?u = "set_index (cur_index s - 1) (s\<lparr>key_buffer := kb\<rparr>)"
  have k1: "unat (cur_index s - 1) = ?k - 1" using k(2) by (intro unat_minus_one) auto
  have d3: "?d < 3" "length (key_index s) = 3" using wf by (simp_all add: keys_wf_def)
  have cu: "cur_index ?u = cur_index s - 1" using d3 by (simp add: cur_index_def set_index_def)
  have ru: "row ?u = (row s)[?k := c]" using kb(3) by (simp add: row_def set_index_def)
  have "keys_wf ?u" using wf kb(2) k1 k assms(3) by (simp add: keys_wf_def cu, simp add: set_index_def, linarith)
  moreover have "key_fields s ?u" by (simp add: key_fields_def set_index_def)
  moreover have "take (?k - 1) ((row s)[?k := c]) = butlast (take ?k (row s))"
    using length_row[OF wf] k by (simp add: butlast_take)
  then have "editor_of ?u = editor_of s\<lparr>e_text := butlast (e_text (editor_of s))\<rparr>"
    unfolding editor_of_def ru cu k1 by (simp add: set_index_def)
  moreover have "enter_down ?u = enter_down s" by (simp add: set_index_def)
  ultimately have "edits (editor_of s\<lparr>e_text := butlast (e_text (editor_of s))\<rparr>) (enter_down s) s ?u"
    using field_edits[OF assms(1,2), of ?u] by simp
  then show ?thesis using kb(1) by (intro exI[of _ ?t]) (simp add: cur_index_def)
qed

section \<open>Every key\<close>

definition types :: "u8 \<Rightarrow> editor \<Rightarrow> editor" where
  "types c e = e\<lparr>e_text := e_text e @ [c]\<rparr>"

lemma types_funpow: "(types c ^^ n) e = e\<lparr>e_text := e_text e @ replicate n c\<rparr>"
proof (induction n)
  case (Suc n)
  have "replicate (Suc n) c = replicate n c @ [c]" by (simp add: replicate_append_same)
  with Suc show ?case by (simp add: types_def del: replicate_Suc)
qed simp

lemma con_step_index: "con_step s t \<Longrightarrow> cur_index t = cur_index s"
  unfolding con_step_def cur_index_def by (erule conjE, erule ssubst, simp)

lemma con_step_row: "con_step s t \<Longrightarrow> row t = row s"
  unfolding con_step_def row_def by (erule conjE, erule ssubst, simp)

lemma con_step_offset: "con_step s t \<Longrightarrow> clear_offset t ! unat (display_terminal t) = clear_offset s ! unat (display_terminal s)"
  unfolding con_step_def by (erule conjE, erule ssubst, simp)

lemma handled:
  assumes "edits e b s t" "con_step t u"
  shows "edits e b s u"
  using assms(1) con_step_edits[OF _ _ assms(2)] edits_ready[OF assms(1)] edits_trans by metis

lemma SEND_EOI_edits:
  assumes "edits e b s t"
  shows "\<exists>u. SEND_EOI t = Some (Inr (Returned 0, u)) \<and> edits e b s u"
  using handled[OF assms con_step_simple(2)] edits_ready[OF assms] by (auto simp: SEND_EOI_def)

lemma typed_char:
  assumes "kb_ready s" "own_page s" "unat (cur_index s) < 127"
  shows "\<exists>t. key_store (ucast (cur_index s)) c (putc c s) = Inr t \<and>
    edits (types c (editor_of s)) (enter_down s) s (set_index (cur_index t + 1) t) \<and> cur_index (putc c s) = cur_index s"
proof -
  have "con_step s (putc c s)" using assms(1) by (simp add: kb_ready_def con_step_putc)
  then have ix: "cur_index (putc c s) = cur_index s" and ed: "edits (editor_of s) (enter_down s) s (putc c s)"
    using con_step_index con_step_edits[OF assms(1,2)] by blast+
  have r: "kb_ready (putc c s)" "own_page (putc c s)" "editor_of (putc c s) = editor_of s" "enter_down (putc c s) = enter_down s"
    using edits_ready[OF ed] by blast+
  have "unat (cur_index (putc c s)) < 127" using ix assms(3) by simp
  from append_key[OF r(1,2) this, of c] show ?thesis
    unfolding ix r(3,4) types_def using edits_trans[OF ed] by (metis)
qed

lemma SPACE_edits:
  assumes "kb_ready s" "own_page s" "unat (cur_index s) < 127"
  shows "\<exists>t. SPACE_key s = Some (Inr (Returned 0, t)) \<and> edits (types 32 (editor_of s)) (enter_down s) s t"
proof -
  obtain t where t: "key_store (ucast (cur_index s)) 32 (putc 32 s) = Inr t"
    "edits (types 32 (editor_of s)) (enter_down s) s (set_index (cur_index t + 1) t)"
    using typed_char[OF assms] by blast
  have "edits (types 32 (editor_of s)) (enter_down s) s (update_cursor x y (set_index (cur_index t + 1) t))" for x y
    using handled[OF t(2) con_step_simple(1)] edits_ready[OF t(2)] by blast
  from SEND_EOI_edits[OF this] show ?thesis using t(1) by (simp add: SPACE_key_def lift_def Let_def)
qed

lemma TAB_edits:
  assumes "kb_ready s" "own_page s" "unat (cur_index s) + n \<le> 127"
  shows "\<exists>t. TAB_loop n s = Inr t \<and> edits ((types 32 ^^ n) (editor_of s)) (enter_down s) s t"
  using assms
proof (induction n arbitrary: s)
  case 0
  then show ?case by (simp add: edits_def kb_frame_refl)
next
  case (Suc n)
  then have k: "unat (cur_index s) < 127" by simp
  obtain t where t: "key_store (ucast (cur_index s)) 32 (putc 32 s) = Inr t" "cur_index (putc 32 s) = cur_index s"
    "edits (types 32 (editor_of s)) (enter_down s) s (set_index (cur_index t + 1) t)"
    using typed_char[OF Suc.prems(1,2) k] by blast
  let ?u = "update_cursor (get_screen_x (set_index (cur_index t + 1) t)) (get_screen_y (set_index (cur_index t + 1) t))
    (set_index (cur_index t + 1) t)"
  have u: "edits (types 32 (editor_of s)) (enter_down s) s ?u"
    using handled[OF t(3) con_step_simple(1)] edits_ready[OF t(3)] by blast
  note r = edits_ready[OF u]
  have "unat (cur_index ?u) = unat (cur_index s) + 1"
    using length_e_text[of ?u] length_e_text[of s] r Suc.prems(1) by (simp add: types_def kb_ready_def)
  then obtain v where v: "TAB_loop n ?u = Inr v" "edits ((types 32 ^^ n) (editor_of ?u)) (enter_down ?u) ?u v"
    using Suc.IH[of ?u] r Suc.prems(3) by auto
  have "edits ((types 32 ^^ Suc n) (editor_of s)) (enter_down s) s v"
    using edits_trans[OF u v(2)] r by (simp add: funpow_swap1)
  with v(1) t show ?case by (simp add: Let_def)
qed

lemma BACK_edits:
  assumes "kb_ready s" "own_page s"
  shows "\<exists>t. BACK_key s = Some (Inr (Returned 0, t)) \<and> edits (edit_key 0x0E (editor_of s)) (enter_down s) s t"
proof -
  have wf: "keys_wf s" "on_screen s" using assms(1) by (simp_all add: kb_ready_def)
  have fx: "length (e_text (editor_of s)) = e_fixed (editor_of s) \<longleftrightarrow>
      cur_index s - ucast (clear_offset s ! unat (display_terminal s)) = 0"
    using length_e_text[OF wf(1)] unfolding right_minus_eq
    by (simp add: editor_of_def) (simp add: word_unat_eq_iff unat_ucast32)
  show ?thesis
  proof (cases "length (e_text (editor_of s)) = e_fixed (editor_of s)")
    case True
    moreover have "edits (editor_of s) (enter_down s) s s" using assms by (simp add: edits_def kb_frame_refl)
    ultimately show ?thesis using fx SEND_EOI_edits by (simp add: BACK_key_def edit_key_def Let_def)
  next
    case False
    let ?b = "print_backspace s"
    have cs: "con_step s ?b" using con_step_backspace[OF wf(2)] .
    note ed = con_step_edits[OF assms cs] and ix = con_step_index[OF cs]
    note r = edits_ready[OF ed]
    have lt: "unat (clear_offset ?b ! unat (display_terminal ?b)) < unat (cur_index ?b)"
      using False wf(1) length_e_text[OF wf(1)] ix con_step_offset[OF cs] by (simp add: keys_wf_def editor_of_def)
    obtain t where t: "key_store (ucast (cur_index ?b)) 0 ?b = Inr t" "cur_index t = cur_index ?b"
      "edits (editor_of ?b\<lparr>e_text := butlast (e_text (editor_of ?b))\<rparr>) (enter_down ?b) ?b (set_index (cur_index ?b - 1) t)"
      using erase_key[of ?b 0] r lt by blast
    have "edits (edit_key 0x0E (editor_of s)) (enter_down s) s (set_index (cur_index t - 1) t)"
      using edits_trans[OF ed t(3)] r t(2) False by (simp add: edit_key_def)
    from SEND_EOI_edits[OF this] show ?thesis
      using False fx t(1) ix by (simp add: BACK_key_def lift_def Let_def)
  qed
qed

lemma key_store_y: "key_store k c s = Inr t \<Longrightarrow> screen_y (set_index i t) = screen_y s"
  by (auto simp: key_store_def set_index_def Let_def split: if_splits)

lemma type_edits:
  assumes "kb_ready s" "own_page s" "unat (cur_index s) < 127" "\<not> is_newline c"
  shows "\<exists>t. type_key c s = Some (Inr (Returned 0, t)) \<and> edits (types c (editor_of s)) (enter_down s) s t"
proof -
  have on: "on_screen s" using assms(1) by (simp add: kb_ready_def)
  obtain t where t: "key_store (ucast (cur_index s)) c (putc c s) = Inr t" "cur_index (putc c s) = cur_index s"
    "edits (types c (editor_of s)) (enter_down s) s (set_index (cur_index t + 1) t)"
    using typed_char[OF assms(1-3)] by blast
  let ?u = "set_index (cur_index t + 1) t" and ?e = "types c (editor_of s)"
  have y: "screen_y ?u = screen_y s" using key_store_y[OF t(1)] assms(4) by (simp add: putc_eq[OF on_near[OF on]])
  have step: "edits ?e (enter_down s) s v" if "con_step ?u v" for v using handled[OF t(3) that] .
  have onu: "on_screen ?u" using edits_ready[OF t(3)] by blast
  have ty: "uint (word_of_int (screen_y s + 1) :: u8) = screen_y s + 1"
    using on by (subst uint_word_of_int_eq) (simp add: on_screen_def take_bit_int_eq_self)
  define w where "w = (if screen_y s + 1 = 25 then scroll_handle (set_screen_y (screen_y s + 1) ?u) else wrap_around ?u)"
  have w: "con_step ?u w"
    unfolding w_def using con_step_wrap(1)[OF onu] con_step_wrap(2)[OF onu] y on by (auto simp: on_screen_def)
  have chain: "edits ?e (enter_down s) s (update_cursor 0 j (w\<lparr>wrapped := 1, current_line := l\<rparr>))" for j l
  proof -
    have a: "con_step w (w\<lparr>wrapped := 1\<rparr>)" using con_step_on[OF w] by (rule con_step_simple)
    have b: "con_step (w\<lparr>wrapped := 1\<rparr>) (w\<lparr>wrapped := 1\<rparr>\<lparr>current_line := l\<rparr>)" using con_step_on[OF a] by (rule con_step_simple)
    have c: "con_step (w\<lparr>wrapped := 1\<rparr>\<lparr>current_line := l\<rparr>) (update_cursor 0 j (w\<lparr>wrapped := 1\<rparr>\<lparr>current_line := l\<rparr>))"
      using con_step_on[OF b] by (rule con_step_simple)
    show ?thesis using step[OF con_step_trans[OF w con_step_trans[OF a con_step_trans[OF b c]]]] by simp
  qed
  show ?thesis
  proof (cases "(word_of_int (get_screen_x s + 1) :: u8) = 80 \<and> wrapped s = 0")
    case True
    then show ?thesis
      using SEND_EOI_edits[OF chain[of "screen_y s + 1" "word_of_int (screen_y s + 1)"]] t(1,2) ty
      by (cases "screen_y s = 24") (simp_all add: type_key_def get_screen_y_def lift_def w_def Let_def)
  next
    case False
    have "cur_index s < 128" using assms(3) by (simp add: word_less_nat_alt)
    then show ?thesis using False SEND_EOI_edits[OF step[OF con_step_simple(1)[OF onu]]] t(1,2)
      unfolding type_key_def Let_def if_not_P[OF False] by (simp add: lift_def Let_def)
  qed
qed

text \<open>The table: which keys are letters, and that no key types a line feed or a NUL.\<close>

lemma KEY_TABLE_eq: "KEY_TABLE =
   [49, 50, 51, 52, 53, 54, 55, 56, 57, 48, 45, 61, 32, 32, 113, 119, 101, 114, 116, 121, 117, 105,
    111, 112, 91, 93, 32, 32, 97, 115, 100, 102, 103, 104, 106, 107, 108, 59, 39, 96, 32, 92, 122, 120,
    99, 118, 98, 110, 109, 44, 46, 47, 33, 64, 35, 36, 37, 94, 38, 42, 40, 41, 95, 43, 32, 32, 81, 87,
    69, 82, 84, 89, 85, 73, 79, 80, 123, 125, 32, 32, 65, 83, 68, 70, 71, 72, 74, 75, 76, 58, 34, 126,
    32, 124, 90, 88, 67, 86, 66, 78, 77, 60, 62, 63]"
  by (simp add: KEY_TABLE_def asc_def of_char_def)

lemma KEY_TABLE_letters:
  assumes "k < 52"
  shows "is_letter (KEY_TABLE ! k) \<longleftrightarrow> (14 \<le> k \<and> k \<le> 23) \<or> (28 \<le> k \<and> k \<le> 36) \<or> (42 \<le> k \<and> k \<le> 48)"
    and "KEY_TABLE ! k \<in> {108, 76} \<or> KEY_TABLE ! (52 + k) \<in> {108, 76} \<Longrightarrow> k = 36"
proof -
  have n: "enumerate 0 (take 52 KEY_TABLE) ! k = (k, KEY_TABLE ! k)" "enumerate 0 (drop 52 KEY_TABLE) ! k = (k, KEY_TABLE ! (52 + k))"
    using assms by (simp_all add: nth_enumerate_eq length_KEY_TABLE)
  have "list_all (\<lambda>(k, c). is_letter c \<longleftrightarrow> (14 \<le> k \<and> k \<le> 23) \<or> (28 \<le> k \<and> k \<le> 36) \<or> (42 \<le> k \<and> k \<le> 48)) (enumerate 0 (take 52 KEY_TABLE))"
    by (simp add: KEY_TABLE_eq is_letter_def)
  then show "is_letter (KEY_TABLE ! k) \<longleftrightarrow> (14 \<le> k \<and> k \<le> 23) \<or> (28 \<le> k \<and> k \<le> 36) \<or> (42 \<le> k \<and> k \<le> 48)"
    unfolding list_all_length using assms n(1) by (auto simp: length_KEY_TABLE)
  have "list_all (\<lambda>(k, c). c = 108 \<or> c = 76 \<longrightarrow> k = 36) (enumerate 0 (take 52 KEY_TABLE))"
    "list_all (\<lambda>(k, c). c = 108 \<or> c = 76 \<longrightarrow> k = 36) (enumerate 0 (drop 52 KEY_TABLE))"
    by (simp_all add: KEY_TABLE_eq)
  then show "KEY_TABLE ! k \<in> {108, 76} \<or> KEY_TABLE ! (52 + k) \<in> {108, 76} \<Longrightarrow> k = 36"
    unfolding list_all_length using assms n by (auto simp: length_KEY_TABLE)
qed

lemma KEY_TABLE_chars: "i < 104 \<Longrightarrow> \<not> is_newline (KEY_TABLE ! i) \<and> KEY_TABLE ! i \<noteq> 0"
proof -
  have "list_all (\<lambda>c. \<not> is_newline c \<and> c \<noteq> 0) KEY_TABLE" by (simp add: KEY_TABLE_eq is_newline_def)
  then show "i < 104 \<Longrightarrow> \<not> is_newline (KEY_TABLE ! i) \<and> KEY_TABLE ! i \<noteq> 0"
    by (simp add: list_all_length length_KEY_TABLE)
qed

definition upper_key :: "nat \<Rightarrow> editor \<Rightarrow> bool" where
  "upper_key k e = ((e_lshift e \<or> e_rshift e) \<noteq> (e_caps e \<and> is_letter (KEY_TABLE ! k)))"

lemma set_table_index_eq:
  assumes "2 \<le> unat sc" "unat sc < 54"
  shows "key_fields s (set_table_index sc s)" "unat (table_index (set_table_index sc s)) =
    (if upper_key (unat sc - 2) (editor_of s) then 52 + (unat sc - 2) else unat sc - 2)"
    "row (set_table_index sc s) = row s" "cur_index (set_table_index sc s) = cur_index s"
    "editor_of (set_table_index sc s) = editor_of s" "ctrl_check (set_table_index sc s) = ctrl_check s"
    "keys_wf (set_table_index sc s) = keys_wf s" "enter_down (set_table_index sc s) = enter_down s"
proof -
  let ?k = "unat sc - 2"
  let ?i = "\<lambda>x l. if capslock_check s \<noteq> 0 \<and> l then if shifted s then (x + 52) - 52 else x + 52
    else if shifted s then x + 52 else (x :: u32)"
  have sh: "shifted (s\<lparr>table_index := v\<rparr>) = shifted s" for v by (simp add: shifted_def)
  have k: "?k < 52" using assms by simp
  have u: "ucast sc - 2 = (of_nat ?k :: u32)"
  proof -
    have "(ucast sc :: u32) = of_nat (?k + 2)" using assms(1) by (simp add: word_unat_eq_iff unat_ucast32)
    then show ?thesis by simp
  qed
  have rng: "((sc \<ge> 0x10 \<and> sc \<le> 0x19) \<or> (sc \<ge> 0x1E \<and> sc \<le> 0x26) \<or> (sc \<ge> 0x2C \<and> sc \<le> 0x32)) = is_letter (KEY_TABLE ! ?k)"
    unfolding KEY_TABLE_letters(1)[OF k] word_le_nat_alt using assms by auto
  have i: "set_table_index sc s = s\<lparr>table_index := ?i (of_nat ?k) (is_letter (KEY_TABLE ! ?k))\<rparr>"
    unfolding set_table_index_def rng u Let_def by (simp add: sh)
  show "key_fields s (set_table_index sc s)" "row (set_table_index sc s) = row s" "cur_index (set_table_index sc s) = cur_index s"
    "editor_of (set_table_index sc s) = editor_of s" "ctrl_check (set_table_index sc s) = ctrl_check s"
    "keys_wf (set_table_index sc s) = keys_wf s" "enter_down (set_table_index sc s) = enter_down s"
    by (simp_all add: i key_fields_def row_def cur_index_def editor_of_def keys_wf_def)
  have "table_index (set_table_index sc s) = (of_nat (if upper_key ?k (editor_of s) then 52 + ?k else ?k) :: u32)"
    by (simp add: i shifted_def upper_key_def editor_of_def)
  then show "unat (table_index (set_table_index sc s)) = (if upper_key ?k (editor_of s) then 52 + ?k else ?k)"
    using k by (simp add: unat_of_nat take_bit_nat_eq_self)
qed

lemma self_edits: "kb_ready s \<Longrightarrow> own_page s \<Longrightarrow> edits (editor_of s) (enter_down s) s s"
  by (simp add: edits_def kb_frame_refl)

lemma key_char_eq: "key_char sc e = KEY_TABLE ! (if upper_key (unat sc - 2) e then 52 + (unat sc - 2) else unat sc - 2)"
  by (simp add: key_char_def upper_key_def Let_def)

lemma default_edits:
  assumes "kb_ready s" "own_page s" "2 \<le> unat sc" "unat sc < 54" "\<not> (e_ctrl (editor_of s) \<and> sc = 0x26)" "unat (cur_index s) < 127"
  shows "\<exists>t. default_key prompt sc s = Some (Inr (Returned 0, t)) \<and>
    edits (types (key_char sc (editor_of s)) (editor_of s)) (enter_down s) s t"
proof -
  let ?t = "set_table_index sc s" and ?c = "key_char sc (editor_of s)"
  note i = set_table_index_eq[OF assms(3,4), of s]
  have c: "KEY_TABLE ! unat (table_index ?t) = ?c" "unat (table_index ?t) < 104"
    using assms(4) by (simp add: i(2) key_char_eq, auto simp: i(2))
  have ed: "edits (editor_of s) (enter_down s) s ?t"
    using field_edits[OF assms(1,2) _ i(1)] assms(1) by (simp add: i(5,7,8) kb_ready_def)
  note r = edits_ready[OF ed]
  have "unat (cur_index ?t) < 127" using assms(6) i(4) by simp
  moreover have "\<not> is_newline ?c" using KEY_TABLE_chars[OF c(2)] c(1) by simp
  ultimately obtain u where u: "type_key ?c ?t = Some (Inr (Returned 0, u))" "edits (types ?c (editor_of s)) (enter_down s) ?t u"
    using type_edits[of ?t ?c] r i(5,8) by auto
  have "\<not> (ctrl_check ?t \<noteq> 0 \<and> (?c = 108 \<or> ?c = 76))"
  proof
    assume a: "ctrl_check ?t \<noteq> 0 \<and> (?c = 108 \<or> ?c = 76)"
    then have "unat sc - 2 = 36"
      using KEY_TABLE_letters(2)[of "unat sc - 2"] assms(3,4) by (auto simp: key_char_eq split: if_splits)
    then have "sc = 0x26" using assms(3) by (simp add: word_unat_eq_iff)
    with a assms(5) i(6) show False by (simp add: editor_of_def)
  qed
  moreover have "sc < 0x3E" using assms(4) by (simp add: word_less_nat_alt)
  ultimately have "default_key prompt sc s = Some (Inr (Returned 0, u))"
    using u(1) c by (auto simp: default_key_def Let_def)
  with edits_trans[OF ed u(2)] show ?thesis by blast
qed

lemma modifier_edits:
  assumes "kb_ready s" "own_page s" "handle_key loc prompt sc s = SEND_EOI t" "key_fields s t" "keys_wf t = keys_wf s"
    and "editor_of t = edit_key sc (editor_of s)" "enter_down t = (if sc = 0x9C then 0 else enter_down s)"
  shows "\<exists>u. handle_key loc prompt sc s = Some (Inr (Returned 0, u)) \<and>
    edits (edit_key sc (editor_of s)) (if sc = 0x9C then 0 else enter_down s) s u"
  using SEND_EOI_edits[OF field_edits[OF assms(1,2) _ assms(4)]] assms by (simp add: kb_ready_def)

lemmas modifier_defs = handle_key_def edit_key_def key_fields_def keys_wf_def cur_index_def editor_of_def row_def

lemma handle_key_edits:
  assumes "kb_ready s" "own_page s" "key_ok sc (editor_of s)"
  shows "\<exists>t. handle_key loc prompt sc s = Some (Inr (Returned 0, t)) \<and>
    edits (edit_key sc (editor_of s)) (if sc = 0x9C then 0 else enter_down s) s t"
proof -
  have wf: "keys_wf s" using assms(1) by (simp add: kb_ready_def)
  note mo = modifier_edits[OF assms(1,2), of loc prompt sc] and se = SEND_EOI_edits[OF self_edits[OF assms(1,2)]]
  have ok: "sc \<noteq> 0x1C" "2 \<le> sc" "sc \<noteq> 0x37" "\<not> (e_ctrl (editor_of s) \<and> sc = 0x26)" "length (e_text (edit_key sc (editor_of s))) \<le> 127"
    using assms(3) by (simp_all add: key_ok_def)
  have len: "length (e_text (editor_of s)) = unat (cur_index s)" using length_e_text[OF wf] .
  consider "sc \<in> {0x3A, 0x2A, 0xAA, 0x36, 0xB6, 0x1D, 0x9D, 0x38, 0xB8, 0x9C}" | "sc = 0x39" | "sc = 0x0F" | "sc = 0x0E"
    | "sc \<in> {0x3B, 0x3C, 0x3D}"
    | "sc \<notin> {0x3A, 0x2A, 0xAA, 0x36, 0xB6, 0x1D, 0x9D, 0x38, 0xB8, 0x9C, 0x39, 0x0F, 0x0E, 0x3B, 0x3C, 0x3D}" by blast
  then show ?thesis
  proof cases
    case 1
    then consider "sc = 0x3A" | "sc = 0x2A" | "sc = 0xAA" | "sc = 0x36" | "sc = 0xB6" | "sc = 0x1D" | "sc = 0x9D"
      | "sc = 0x38" | "sc = 0xB8" | "sc = 0x9C" by blast
    then show ?thesis
    proof cases
      case 1
      show ?thesis by (rule mo[of "s\<lparr>capslock_check := if capslock_check s = 0 then 1 else 0\<rparr>"]) (simp_all add: 1 modifier_defs)
    next
      case 2
      show ?thesis by (rule mo[of "s\<lparr>L_shift_check := 1\<rparr>"]) (simp_all add: 2 modifier_defs)
    next
      case 3
      show ?thesis by (rule mo[of "s\<lparr>L_shift_check := 0\<rparr>"]) (simp_all add: 3 modifier_defs)
    next
      case 4
      show ?thesis by (rule mo[of "s\<lparr>R_shift_check := 1\<rparr>"]) (simp_all add: 4 modifier_defs)
    next
      case 5
      show ?thesis by (rule mo[of "s\<lparr>R_shift_check := 0\<rparr>"]) (simp_all add: 5 modifier_defs)
    next
      case 6
      show ?thesis by (rule mo[of "s\<lparr>ctrl_check := 1\<rparr>"]) (simp_all add: 6 modifier_defs)
    next
      case 7
      show ?thesis by (rule mo[of "s\<lparr>ctrl_check := 0\<rparr>"]) (simp_all add: 7 modifier_defs)
    next
      case 8
      show ?thesis by (rule mo[of "s\<lparr>alt_check := 1\<rparr>"]) (simp_all add: 8 modifier_defs)
    next
      case 9
      show ?thesis by (rule mo[of "s\<lparr>alt_check := 0\<rparr>"]) (simp_all add: 9 modifier_defs)
    next
      case 10
      show ?thesis by (rule mo[of "s\<lparr>enter_down := 0\<rparr>"]) (simp_all add: 10 modifier_defs)
    qed
  next
    case 2
    then show ?thesis using SPACE_edits[OF assms(1,2)] ok(5) len by (simp add: handle_key_def edit_key_def types_def)
  next
    case 3
    then have e: "edit_key sc (editor_of s) = (types 32 ^^ 4) (editor_of s)"
      by (simp add: edit_key_def types_funpow)
    have "unat (cur_index s) + 4 \<le> 127" using ok(5) len unfolding e types_funpow by simp
    then obtain t where "TAB_loop 4 s = Inr t" "edits (edit_key sc (editor_of s)) (enter_down s) s t"
      using TAB_edits[OF assms(1,2), of 4] unfolding e by blast
    then show ?thesis using 3 SEND_EOI_edits by (simp add: handle_key_def TAB_key_def lift_def)
  next
    case 4
    then show ?thesis using BACK_edits[OF assms(1,2)] by (simp add: handle_key_def)
  next
    case 5
    then have "alt_check s = 0" using assms(3) by (auto simp: key_ok_def editor_of_def)
    with 5 se show ?thesis by (auto simp: handle_key_def function_key_def edit_key_def)
  next
    case 6
    then have h: "handle_key loc prompt sc s = default_key prompt sc s" using ok(1) by (simp add: handle_key_def)
    show ?thesis
    proof (cases "sc < 0x3B")
      case True
      have n: "unat sc < 54"
      proof -
        have "unat sc \<notin> {54, 55, 56, 57, 58}"
          using 6 ok(3) by (auto simp: word_unat_eq_iff)
        moreover have "unat sc < 59" using True by (simp add: word_less_nat_alt)
        ultimately show ?thesis by auto
      qed
      have e: "edit_key sc (editor_of s) = types (key_char sc (editor_of s)) (editor_of s)"
        using 6 True by (simp add: edit_key_def types_def)
      then have "unat (cur_index s) < 127" using ok(5) len by (simp add: types_def)
      moreover have "sc \<noteq> 0x9C" using 6 by simp
      ultimately show ?thesis
        using default_edits[OF assms(1,2) _ n ok(4)] ok(2) by (simp add: h e word_le_nat_alt)
    next
      case False
      moreover have "\<not> sc < 0x3E"
      proof
        assume "sc < 0x3E"
        with False have "unat sc \<in> {59, 60, 61}" by (auto simp: word_less_nat_alt)
        with 6 show False by (auto simp: word_unat_eq_iff)
      qed
      moreover have "sc \<noteq> 0x9C" using 6 by simp
      ultimately show ?thesis using 6 se by (simp add: h default_key_def edit_key_def)
    qed
  qed
qed

section \<open>From the interrupt to the key\<close>

text \<open>The process that is interrupted goes on with the handler, on its own page, and sees the code of the key.\<close>

lemma keyboard_handler_eq:
  assumes "kb_ready s"
  shows "\<exists>t. keyboard_handler loc prompt s = handle_key loc prompt (ports s (io_trace s) KEYBOARD_PORT) t \<and>
    kb_ready t \<and> own_page t \<and> editor_of t = editor_of s \<and> enter_down t = enter_down s \<and>
    display_terminal t = display_terminal s \<and> cur_pid t = cur_pid s \<and> ports t = ports s \<and>
    virtual_freq t = virtual_freq s \<and> key_reads (io_trace t) = Suc (key_reads (io_trace s)) \<and>
    (\<forall>a. \<not> in_rng (find_PCB (cur_pid s) + of_nat ESP) 8 a \<longrightarrow> mem t a = mem s a)"
proof -
  let ?v = "ports s (io_trace s) KEYBOARD_PORT"
  define s0 where "s0 = s\<lparr>io_trace := Inb KEYBOARD_PORT ?v # io_trace s\<rparr>"
  have low: "low_mapped s" using assms by (simp add: kb_ready_def kernel_mapped_def)
  have f0: "keys_wf s0 = keys_wf s" "cur_pid s0 = cur_pid s" "on_screen s0 = on_screen s" "editor_of s0 = editor_of s"
    by (simp_all add: s0_def keys_wf_def cur_index_def cur_pid_def on_screen_def editor_of_def row_def)
  have "kernel_mapped s0 = kernel_mapped s" using walk_cong(3)[OF low, of s0] by (simp add: s0_def)
  with assms f0 have r0: "kb_ready s0" by (simp add: kb_ready_def) (simp add: s0_def)
  obtain m pd where sw: "switch_running_terminal (conv_buf loc) (display_terminal s0) s0 =
      Some (Inr (0, s0\<lparr>mem := m, page_dir := pd, video_mem := VIDEO, tss_esp0 := reg_esp s0\<rparr>))"
    and km: "kernel_mapped (s0\<lparr>page_dir := pd\<rparr>)"
    and wk: "\<forall>q < 0x400000. walk (s0\<lparr>page_dir := pd\<rparr>) (0x8000000 + q) = Some (user_frame (cur_pid s0) + q, True, True)"
    and mo: "\<forall>a. \<not> in_rng (find_PCB (cur_pid s0) + of_nat ESP) 8 a \<longrightarrow> m a = mem s0 a"
    using self_switch[OF r0, of "conv_buf loc"] by blast
  define t where "t = s0\<lparr>mem := m, page_dir := pd, video_mem := VIDEO, tss_esp0 := reg_esp s0\<rparr>"
  have low1: "low_mapped (s0\<lparr>page_dir := pd\<rparr>)" using km by (simp add: kernel_mapped_def)
  have w: "walk t = walk (s0\<lparr>page_dir := pd\<rparr>)" "kernel_mapped t"
    using walk_cong(1,3)[OF low1, of t] km by (simp_all add: t_def)
  have f: "keys_wf t = keys_wf s0" "cur_pid t = cur_pid s0" "on_screen t = on_screen s0" "editor_of t = editor_of s0"
    by (simp_all add: t_def keys_wf_def cur_index_def cur_pid_def on_screen_def editor_of_def row_def)
  have "kb_ready t" using r0 w(2) f by (simp add: kb_ready_def) (simp add: t_def)
  moreover have "own_page t" using wk w(1) f(2) by (simp add: own_page_def) (simp add: t_def)
  moreover have "keyboard_handler loc prompt s = handle_key loc prompt ?v t"
  proof -
    have "keyboard_handler loc prompt s = switching (conv_buf loc) (display_terminal s0) (\<lambda>_. handle_key loc prompt (ucast (ucast ?v :: u32))) s0"
      by (simp add: keyboard_handler_def inb_def s0_def Let_def)
    also have "\<dots> = handle_key loc prompt ?v t"
      using r0 sw by (simp add: switching_def t_def kb_ready_def ucast_ucast8)
    finally show ?thesis .
  qed
  moreover have "mem t a = mem s a" if "\<not> in_rng (find_PCB (cur_pid s) + of_nat ESP) 8 a" for a
    using mo that f0(2) by (simp add: t_def s0_def)
  ultimately show ?thesis
    using f f0 by (intro exI[of _ t]) (simp add: t_def s0_def)
qed

text \<open>Enter puts the line feed behind the line and raises the flag that the reader waits for.\<close>

definition line_ready :: "bytes \<Rightarrow> 'a kernel_scheme \<Rightarrow> bool" where
  "line_ready line s \<longleftrightarrow> enter_down s = 1 \<and> take (Suc (length line)) (row s) = line @ [10] \<and> length line \<le> 127"

lemma ENTER_line:
  assumes "kb_ready s" "own_page s"
  shows "\<exists>t. ENTER_key s = Some (Inr (Returned 0, t)) \<and> kb_frame s t \<and> own_page t \<and> line_ready (e_text (editor_of s)) t"
proof -
  have wf: "keys_wf s" "on_screen s" using assms(1) by (simp_all add: kb_ready_def)
  let ?k = "unat (cur_index s)" and ?d = "unat (display_terminal s)"
  have k: "?k < 128" using wf(1) by (simp add: keys_wf_def)
  obtain kb where kb: "key_store (ucast (cur_index s)) 10 s = Inr (s\<lparr>key_buffer := kb\<rparr>)" "length kb = 384"
    "row (s\<lparr>key_buffer := kb\<rparr>) = (row s)[?k := 10]"
    using key_store_row[OF wf(1), of 10] by blast
  have d3: "?d < 3" "length (key_index s) = 3" "length (clear_offset s) = 3" using wf(1) by (simp_all add: keys_wf_def)
  define s1 where "s1 = s\<lparr>key_buffer := kb\<rparr>"
  define s3 where "s3 = (putc 10 s1)\<lparr>wrapped := 0\<rparr>"
  define s5 where "s5 = (set_index 0 s3)\<lparr>clear_offset := (clear_offset (set_index 0 s3))[unat (display_terminal (set_index 0 s3)) := 0]\<rparr>"
  define s6 where "s6 = s5\<lparr>current_line := current_line s5 + 1\<rparr>"
  define s7 where "s7 = s6\<lparr>enter_down := 1\<rparr>"
  have "keys_wf s1" using wf(1) kb(2) by (simp add: s1_def keys_wf_def cur_index_def)
  then have e1: "edits (editor_of s1) (enter_down s1) s s1"
    using field_edits[OF assms, of s1] by (simp add: s1_def key_fields_def)
  note r1 = edits_ready[OF e1]
  have c1: "con_step s1 (putc 10 s1)" using r1 con_step_putc by blast
  have c3: "con_step s1 s3"
    unfolding s3_def by (rule con_step_trans[OF c1 con_step_simple(3)[OF con_step_on[OF c1]]])
  have e3: "edits (editor_of s1) (enter_down s1) s s3" by (rule handled[OF e1 c3])
  note r3 = edits_ready[OF e3]
  have w3: "keys_wf s3" using r3 by blast
  have "keys_wf s5" using w3 by (simp add: s5_def keys_wf_def set_index_def cur_index_def)
  moreover have "key_fields s3 s5" by (simp add: s5_def key_fields_def set_index_def)
  ultimately have e5: "edits (editor_of s5) (enter_down s5) s3 s5" using field_edits r3 by blast
  note r5 = edits_ready[OF e5]
  have c6: "con_step s5 s6" unfolding s6_def by (rule con_step_simple) (use r5 in blast)
  have e6: "edits (editor_of s5) (enter_down s5) s3 s6" by (rule handled[OF e5 c6])
  note r6 = edits_ready[OF e6]
  have "keys_wf s7" using r6 by (simp add: s7_def keys_wf_def cur_index_def)
  moreover have "key_fields s6 s7" by (simp add: s7_def key_fields_def)
  ultimately have e7: "edits (editor_of s7) (enter_down s7) s6 s7" using field_edits r6 by blast
  obtain t where t: "SEND_EOI s7 = Some (Inr (Returned 0, t))" "edits (editor_of s7) 1 s t"
    using SEND_EOI_edits[OF edits_trans[OF edits_trans[OF e3 e6] e7]] by (auto simp: s7_def)
  have "row t = (row s)[?k := 10]"
  proof -
    have "con_step s7 t" using t(1) con_step_simple(2) edits_ready[OF e7] by (auto simp: SEND_EOI_def)
    then have "row t = row s7" by (rule con_step_row)
    also have "\<dots> = row s3" by (simp add: s7_def s6_def s5_def row_def set_index_def)
    also have "\<dots> = row s1" by (rule con_step_row[OF c3])
    finally show ?thesis using kb(3) by (simp add: s1_def)
  qed
  moreover have "take (Suc ?k) ((row s)[?k := 10]) = take ?k (row s) @ [10]"
    using length_row[OF wf(1)] k by (simp add: take_Suc_conv_app_nth)
  ultimately have "line_ready (e_text (editor_of s)) t"
    using t(2) length_e_text[OF wf(1)] k by (simp add: line_ready_def edits_def) (simp add: editor_of_def)
  moreover have "ENTER_key s = SEND_EOI s7"
    using kb(1) by (simp add: ENTER_key_def lift_def s7_def s6_def s5_def s3_def s1_def Let_def)
  ultimately show ?thesis using t by (auto simp: edits_def)
qed

text \<open>
  Why the line must not be full: a line of 128 characters can be typed, and then the space key stores
  into the first byte of the line of the next terminal.
\<close>

theorem full_line_overruns:
  fixes s :: "'a kernel_scheme"
  assumes "on_screen s" "unat (display_terminal s) < 2" "cur_index s = 128" "length (key_buffer s) = 384" "length (key_index s) = 3"
  shows "\<exists>t. SPACE_key s = Some (Inr (Returned 0, t)) \<and> cur_index t = 129 \<and>
    key_buffer t = (key_buffer s)[128 * (unat (display_terminal s) + 1) := 32]"
proof -
  let ?u = "putc 32 s"
  note c = con_step_putc[OF assms(1), of 32]
  have u: "display_terminal ?u = display_terminal s" "key_buffer ?u = key_buffer s" "key_index ?u = key_index s"
    by (subst c[unfolded con_step_def, THEN conjunct1], simp)+
  let ?kb = "(key_buffer s)[128 * (unat (display_terminal s) + 1) := 32]"
  let ?v = "?u\<lparr>key_buffer := ?kb\<rparr>" and ?d = "unat (display_terminal s)"
  have k: "unat (ucast (cur_index s) :: u8) = 128" using assms(3) by simp
  have ks: "key_store (ucast (cur_index s)) 32 ?u = Inr ?v"
    using assms(2) k u by (simp add: key_store_def Let_def add.commute)
  let ?w = "set_index (cur_index ?v + 1) ?v"
  have w: "key_buffer ?w = ?kb" "cur_index ?w = 129"
    using assms(2,3,5) u by (simp_all add: set_index_def cur_index_def)
  have e: "key_buffer (send_eoi n (update_cursor x y t)) = key_buffer t" "cur_index (send_eoi n (update_cursor x y t)) = cur_index t" for n x y and t :: "'a kernel_scheme"
    by (simp_all add: send_eoi_def update_cursor_def outb_def cur_index_def Let_def)
  have "SPACE_key s = Some (Inr (Returned 0, send_eoi 1 (update_cursor (get_screen_x ?w) (get_screen_y ?w) ?w)))"
    using ks by (simp add: SPACE_key_def lift_def SEND_EOI_def Let_def)
  then show ?thesis using w e by auto
qed

end
