(* ===== verification/Term_Read.thy ===== *)
theory Term_Read
  imports Keyboard
begin

text \<open>
  Reading a line: \<open>terminal_read\<close> of \<^verbatim>\<open>student-distrib/terminal.c\<close>. It spins until the keyboard
  handler sets \<open>enter_down\<close>; the interrupts that arrive meanwhile are a list, and the flag is tested
  after each of them. \<open>None\<close> is a reader that still waits. \<open>buffer\<close> is the address of the local array.

  The theorem is that of a line editor: whatever keys are pressed, the line that a read returns is
  the one the reference editor computes from them.
\<close>

section \<open>Reading a line\<close>

datatype interrupt = Key_Irq | Rtc_Irq

fun wait_enter ::
  "exec_locals \<Rightarrow> ptr \<Rightarrow> interrupt list \<Rightarrow> 'a kernel_scheme \<Rightarrow> (fault + kflow \<times> 'a kernel_scheme) option" where
  "wait_enter loc prompt [] s = (if enter_down s \<noteq> 0 then Some (Inr (Returned 0, s)) else None)"
| "wait_enter loc prompt (i # is) s =
    (if enter_down s \<noteq> 0 then Some (Inr (Returned 0, s))
     else case i of
       Key_Irq \<Rightarrow> fbind (keyboard_handler loc prompt s) (\<lambda>(fl, s).
         case fl of Returned _ \<Rightarrow> wait_enter loc prompt is s | _ \<Rightarrow> Some (Inr (fl, s)))
     | Rtc_Irq \<Rightarrow> fbind (lift (rtc_handler s)) (\<lambda>s. wait_enter loc prompt is (sti s)))"

text \<open>The loop that copies the keys up to a line feed; the result is the number of bytes copied.\<close>

fun copy_keys :: "ptr \<Rightarrow> nat \<Rightarrow> nat \<Rightarrow> 'a term_vars_scheme \<Rightarrow> nat \<times> 'a term_vars_scheme" where
  "copy_keys buffer 0 x s = (x, s)"
| "copy_keys buffer (Suc n) x s =
    (let c = key_buffer s ! (MAX_BUFF_LENGTH * unat (display_terminal s) + x);
         s = poke (buffer + of_nat x) c s
     in if c = 10 then (x + 1, s) else copy_keys buffer n (x + 1) s)"

definition read_keys :: "ptr \<Rightarrow> ptr \<Rightarrow> 'a kernel_scheme \<Rightarrow> fault + int \<times> 'a kernel_scheme" where
  "read_keys buffer buf s =
    (if unat (display_terminal s) \<ge> MAX_TERMINAL_NUM then Inl Out_Of_Bounds
     else
     let (last, s) = copy_keys buffer MAX_BUFF_LENGTH 0 s;
         index = last - 1;
         s = (if mem s (buffer + of_nat index) \<noteq> 10 \<and> last < MAX_BUFF_LENGTH then poke (buffer + of_nat last) 10 s
              else if mem s (buffer + of_nat index) \<noteq> 10 then poke (buffer + of_nat index) 10 s
              else s)
     in sbind (deref buf s) (\<lambda>buf.
        let s = s\<lparr>mem := strncpy (mem s) buf buffer (of_nat MAX_BUFF_LENGTH)\<rparr>
        in sbind (clear_buffer s) (\<lambda>(_, s).
           Inr (int last, fold (\<lambda>x s. poke (buffer + of_nat x) 48 s) [0..<last] s))))"

definition terminal_read ::
  "exec_locals \<Rightarrow> ptr \<Rightarrow> ptr \<Rightarrow> interrupt list \<Rightarrow> int \<Rightarrow> ptr \<Rightarrow> int \<Rightarrow> 'a kernel_scheme \<Rightarrow>
    (fault + kflow \<times> 'a kernel_scheme) option" where
  "terminal_read loc prompt buffer irqs fd buf nbytes s =
    (let s = update_cursor (get_screen_x s) (get_screen_y s) s;
         s = fold (\<lambda>x s. poke (buffer + of_nat x) 0 s) [0..<MAX_BUFF_LENGTH] s;
         s = s\<lparr>enter_down := 0\<rparr>;
         s = sti s
     in fbind (wait_enter loc prompt irqs s) (\<lambda>(fl, s).
        case fl of
          Returned _ \<Rightarrow>
            (let s = s\<lparr>enter_down := 0\<rparr>
             in if nbytes \<le> 0 then Some (Inr (Returned (- 1), s))
                else fbind (lift (read_keys buffer buf s)) (\<lambda>(n, s). Some (Inr (Returned n, s))))
        | _ \<Rightarrow> Some (Inr (fl, s))))"

section \<open>Waiting for a line\<close>

definition tick_ok :: "'a rtc_scheme \<Rightarrow> bool" where
  "tick_ok s \<longleftrightarrow> virtual_freq s = 0 \<or> MAX_FREQ sdiv virtual_freq s \<noteq> 0"

text \<open>The keyboard delivers the codes \<open>cs\<close> from the \<open>k\<close>-th read of its port on, one at each read.\<close>

definition typed :: "nat \<Rightarrow> bytes \<Rightarrow> 'a machine_scheme \<Rightarrow> bool" where
  "typed k cs s \<longleftrightarrow> (\<forall>i < length cs. \<forall>tr. key_reads tr = k + i \<longrightarrow> ports s tr KEYBOARD_PORT = cs ! i)"

lemma typed_hd: "typed k (c # cs) s \<Longrightarrow> key_reads tr = k \<Longrightarrow> ports s tr KEYBOARD_PORT = c"
  unfolding typed_def by (drule spec[of _ 0]) simp

lemma typed_tl: "typed k (c # cs) s \<Longrightarrow> ports t = ports s \<Longrightarrow> typed (Suc k) cs t"
  unfolding typed_def by (auto dest: spec[of _ "Suc _"])

definition kb_keep :: "'a kernel_scheme \<Rightarrow> 'a kernel_scheme \<Rightarrow> bool" where
  "kb_keep s t \<longleftrightarrow> kb_ready t \<and> display_terminal t = display_terminal s \<and> cur_pid t = cur_pid s \<and>
    ports t = ports s \<and> virtual_freq t = virtual_freq s \<and>
    (\<forall>a. \<not> in_rng VIDEO 4000 a \<longrightarrow> \<not> in_rng (find_PCB (cur_pid s) + of_nat ESP) 8 a \<longrightarrow> mem t a = mem s a)"

lemma kb_keep_trans: "kb_keep s t \<Longrightarrow> kb_keep t u \<Longrightarrow> kb_keep s u"
  by (simp add: kb_keep_def)

lemma kb_frame_keep: "kb_frame s t \<Longrightarrow> kb_keep s t"
  by (simp add: kb_keep_def kb_frame_def)

definition tick_fields :: "'a rtc_scheme \<Rightarrow> 'a rtc_scheme \<Rightarrow> bool" where
  "tick_fields s t \<longleftrightarrow> t = s\<lparr>io_trace := io_trace t, if_flag := if_flag t, IR_flag := IR_flag t, clk := clk t\<rparr> \<and>
    key_reads (io_trace t) = key_reads (io_trace s)"

lemma rtc_handler_fields:
  assumes "tick_ok s"
  shows "\<exists>t. rtc_handler s = Inr t \<and> tick_fields s (sti t)"
  using assms
  by (auto simp: rtc_handler_def tick_ok_def tick_fields_def rtc_ack_def cli_def sti_def outb_def inb_def send_eoi_def Let_def)

lemma rtc_tick:
  assumes "kb_ready s" "tick_ok s"
  shows "\<exists>t. rtc_handler s = Inr t \<and> kb_frame s (sti t) \<and> editor_of (sti t) = editor_of s \<and> enter_down (sti t) = enter_down s"
proof -
  obtain t where t: "rtc_handler s = Inr t" "tick_fields s (sti t)" using rtc_handler_fields[OF assms(2)] by blast
  define u where "u = sti t"
  let ?u = "s\<lparr>io_trace := io_trace u, if_flag := if_flag u, IR_flag := IR_flag u, clk := clk u\<rparr>"
  have eq: "u = ?u" and kr: "key_reads (io_trace u) = key_reads (io_trace s)" using t(2) by (simp_all add: tick_fields_def u_def)
  have low: "low_mapped s" using assms(1) by (simp add: kb_ready_def kernel_mapped_def)
  have "kernel_mapped ?u = kernel_mapped s" using walk_cong(3)[OF low, of ?u] by simp
  moreover have "keys_wf ?u = keys_wf s" "cur_pid ?u = cur_pid s" "on_screen ?u = on_screen s" "editor_of ?u = editor_of s"
    by (simp_all add: keys_wf_def cur_index_def cur_pid_def on_screen_def editor_of_def row_def)
  ultimately have "kb_frame s ?u" "editor_of ?u = editor_of s" "enter_down ?u = enter_down s"
    using assms(1) kr by (simp_all add: kb_frame_def kb_ready_def)
  with eq t(1) show ?thesis by (auto simp: u_def)
qed

lemma wait_done: "enter_down s \<noteq> 0 \<Longrightarrow> wait_enter loc prompt irqs s = Some (Inr (Returned 0, s))"
  by (cases irqs) simp_all

lemma wait_enter_line:
  assumes "kb_ready s" "enter_down s = 0" "tick_ok s" "typed (key_reads (io_trace s)) (scs @ [0x1C]) s"
    "keys_ok scs (editor_of s)" "length scs < length (filter (\<lambda>i. i = Key_Irq) irqs)"
  shows "\<exists>t. wait_enter loc prompt irqs s = Some (Inr (Returned 0, t)) \<and> kb_keep s t \<and> own_page t \<and>
    line_ready (e_text (fold edit_key scs (editor_of s))) t"
  using assms
proof (induction irqs arbitrary: s scs)
  case (Cons i "is")
  show ?case
  proof (cases i)
    case Rtc_Irq
    obtain t where t: "rtc_handler s = Inr t" "kb_frame s (sti t)" "editor_of (sti t) = editor_of s" "enter_down (sti t) = enter_down s"
      using rtc_tick[OF Cons.prems(1,3)] by blast
    have f: "kb_ready (sti t)" "tick_ok (sti t)" "typed (key_reads (io_trace (sti t))) (scs @ [0x1C]) (sti t)"
      using t(2) Cons.prems by (simp_all add: kb_frame_def tick_ok_def typed_def)
    obtain u where "wait_enter loc prompt is (sti t) = Some (Inr (Returned 0, u))" "kb_keep (sti t) u" "own_page u"
      "line_ready (e_text (fold edit_key scs (editor_of s))) u"
      using Cons.IH[of "sti t" scs] f t(3,4) Cons.prems(2,5,6) Rtc_Irq by auto
    then show ?thesis
      using Rtc_Irq t(1) Cons.prems(2) kb_keep_trans[OF kb_frame_keep[OF t(2)]] by (auto simp: lift_def)
  next
    case Key_Irq
    obtain t where t: "keyboard_handler loc prompt s = handle_key loc prompt (ports s (io_trace s) KEYBOARD_PORT) t"
      and r: "kb_ready t" "own_page t" "editor_of t = editor_of s" "enter_down t = enter_down s"
      and k: "kb_keep s t" and n: "key_reads (io_trace t) = Suc (key_reads (io_trace s))"
      using keyboard_handler_eq[OF Cons.prems(1), of loc prompt] by (auto simp: kb_keep_def)
    show ?thesis
    proof (cases scs)
      case Nil
      have "ports s (io_trace s) KEYBOARD_PORT = 0x1C" using Cons.prems(4) by (intro typed_hd) (simp_all add: Nil)
      then have h: "keyboard_handler loc prompt s = ENTER_key t" using t by (simp add: handle_key_def)
      obtain u where u: "ENTER_key t = Some (Inr (Returned 0, u))" "kb_frame t u" "own_page u" "line_ready (e_text (editor_of t)) u"
        using ENTER_line[OF r(1,2)] by blast
      have "wait_enter loc prompt is u = Some (Inr (Returned 0, u))"
        using u(4) by (intro wait_done) (simp add: line_ready_def)
      then show ?thesis
        using u h Key_Irq Cons.prems(2) r(3) kb_keep_trans[OF k kb_frame_keep[OF u(2)]] by (simp add: Nil)
    next
      case (Cons c cs)
      have "ports s (io_trace s) KEYBOARD_PORT = c" using Cons.prems(4) by (intro typed_hd) (simp_all add: Cons)
      moreover have "key_ok c (editor_of t)" using Cons.prems(5) Cons r(3) by simp
      moreover have e0: "(if c = 0x9C then 0 else enter_down t) = 0" using r(4) Cons.prems(2) by simp
      ultimately obtain u where u: "keyboard_handler loc prompt s = Some (Inr (Returned 0, u))"
        "edits (edit_key c (editor_of s)) 0 t u"
        using handle_key_edits[OF r(1,2), of c loc prompt, unfolded e0 r(3)] t r(3) by auto
      have ut: "kb_frame t u" "editor_of u = edit_key c (editor_of s)" "enter_down u = 0" "kb_ready u"
        using u(2) by (simp_all add: edits_def kb_frame_def)
      have f: "tick_ok u" "ports u = ports s" "key_reads (io_trace u) = Suc (key_reads (io_trace s))"
        using ut(1) k n Cons.prems(3) by (simp_all add: kb_frame_def kb_keep_def tick_ok_def)
      have "typed (key_reads (io_trace u)) (cs @ [0x1C]) u"
        unfolding f(3) by (rule typed_tl[OF _ f(2)]) (use Cons.prems(4) Cons in simp)
      then obtain v where "wait_enter loc prompt is u = Some (Inr (Returned 0, v))" "kb_keep u v" "own_page v"
        "line_ready (e_text (fold edit_key cs (editor_of u))) v"
        using Cons.IH[of u cs] ut f(1) Cons.prems(5,6) Cons Key_Irq by auto
      then show ?thesis
        using u(1) Key_Irq Cons.prems(2) ut(2) Cons kb_keep_trans[OF k kb_keep_trans[OF kb_frame_keep[OF ut(1)]]] by auto
    qed
  qed
qed simp

section \<open>Handing the line over\<close>

lemma row_nth: "x < 128 \<Longrightarrow> keys_wf s \<Longrightarrow> key_buffer s ! (128 * unat (display_terminal s) + x) = row s ! x"
  by (simp add: row_def keys_wf_def)

lemma keys_wf_poke [simp]: "keys_wf (poke p v s) = keys_wf s" "row (poke p v s) = row s"
  by (simp_all add: poke_def keys_wf_def cur_index_def row_def)

lemma copy_keys_eq:
  "keys_wf s \<Longrightarrow> take (Suc (length ls)) (drop x (row s)) = ls @ [10] \<Longrightarrow> 10 \<notin> set ls \<Longrightarrow> length ls < n \<Longrightarrow> x + n \<le> 128 \<Longrightarrow>
    copy_keys buffer n x s = (x + length ls + 1, s\<lparr>mem := wr_bytes (mem s) (buffer + of_nat x) (ls @ [10])\<rparr>)"
proof (induction n arbitrary: x s ls)
  case (Suc n)
  have x: "x < 128" using Suc.prems(5) by simp
  have len: "length (row s) = 128" using length_row[OF Suc.prems(1)] .
  have d: "drop x (row s) = row s ! x # drop (Suc x) (row s)" using x len by (simp add: Cons_nth_drop_Suc)
  have k: "key_buffer s ! (128 * unat (display_terminal s) + x) = row s ! x" using row_nth[OF x Suc.prems(1)] .
  show ?case
  proof (cases ls)
    case Nil
    then have "row s ! x = 10" using Suc.prems(2) d by simp
    then show ?thesis by (simp add: k Nil poke_def wr_bytes_single fun_upd_def)
  next
    case (Cons c cs)
    then have c: "row s ! x = c" "take (Suc (length cs)) (drop (x + 1) (row s)) = cs @ [10]" "c \<noteq> 10" "10 \<notin> set cs"
      using Suc.prems(2,3) d by simp_all
    let ?t = "poke (buffer + of_nat x) c s"
    have "copy_keys buffer n (x + 1) ?t = (x + 1 + length cs + 1, ?t\<lparr>mem := wr_bytes (mem ?t) (buffer + of_nat (x + 1)) (cs @ [10])\<rparr>)"
      using Suc.prems(1,4,5) c Cons by (intro Suc.IH) simp_all
    moreover have "wr_bytes (mem s) (buffer + of_nat x) (c # cs @ [10]) = wr_bytes (mem ?t) (buffer + of_nat (x + 1)) (cs @ [10])"
      using Suc.prems(4,5) Cons by (subst wr_bytes_Cons) (simp_all add: poke_def algebra_simps)
    ultimately show ?thesis using c by (simp add: k Cons) (simp add: poke_def)
  qed
qed simp

text \<open>The copy of exactly 128 bytes, whether or not a NUL is among them.\<close>

lemma strncpy_loop_full:
  "i \<le> n \<Longrightarrow> n < 4294967296 \<Longrightarrow> 0 \<notin> set (rd_bytes m (src + of_nat i) (n - i)) \<Longrightarrow>
    disjnt_rng (dest + of_nat i) (n - i) (src + of_nat i) (n - i) \<Longrightarrow>
    strncpy_loop m dest src n i = wr_bytes m (dest + of_nat i) (rd_bytes m (src + of_nat i) (n - i))"
proof (induction "n - i" arbitrary: i m)
  case 0
  then show ?case by (subst strncpy_loop.simps) (simp add: strncpy_pad_eq)
next
  case (Suc k)
  then have lt: "i < n" and k: "n - i = Suc (n - (i + 1))" by auto
  let ?c = "m (src + of_nat i)" and ?m = "m(dest + of_nat i := m (src + of_nat i))"
  have r: "rd_bytes m (src + of_nat i) (n - i) = ?c # rd_bytes m (src + of_nat (i + 1)) (n - (i + 1))"
    unfolding k rd_bytes_Suc by (simp add: algebra_simps)
  have o: "in_rng (p + of_nat i) (n - i) a" if "in_rng (p + of_nat (i + 1)) (n - (i + 1)) a" for p a
    by (rule in_rng_offset[of "p + of_nat i" 1 "n - (i + 1)"]) (use that lt Suc.prems(2) in \<open>simp_all add: algebra_simps\<close>)
  have dj: "disjnt_rng (dest + of_nat (i + 1)) (n - (i + 1)) (src + of_nat (i + 1)) (n - (i + 1))"
    using Suc.prems(4) o unfolding disjnt_rng_def by blast
  have "in_rng (dest + of_nat i) (n - i) (dest + of_nat i)" using lt by simp
  then have ns: "\<not> in_rng (src + of_nat i) (n - i) (dest + of_nat i)" using Suc.prems(4) disjnt_rngD1 by blast
  have same: "rd_bytes ?m (src + of_nat (i + 1)) (n - (i + 1)) = rd_bytes m (src + of_nat (i + 1)) (n - (i + 1))"
  proof (rule rd_bytes_cong)
    fix a assume "in_rng (src + of_nat (i + 1)) (n - (i + 1)) a"
    then have "in_rng (src + of_nat i) (n - i) a" by (rule o)
    with ns show "?m a = m a" by auto
  qed (use Suc.prems(2) in simp)
  have nz: "?c \<noteq> 0" using Suc.prems(3) r by simp
  have "strncpy_loop ?m dest src n (i + 1) = wr_bytes ?m (dest + of_nat (i + 1)) (rd_bytes ?m (src + of_nat (i + 1)) (n - (i + 1)))"
    using Suc lt dj r unfolding same by (intro Suc.hyps(1)[of "i + 1" ?m, unfolded same]) auto
  then show ?case
    unfolding same using lt nz Suc.prems(2)
    by (subst strncpy_loop.simps) (simp add: r wr_bytes_Cons algebra_simps)
qed

lemma strncpy_128:
  assumes "rd_bytes m src 128 = bs @ replicate k 0" "0 \<notin> set bs" "disjnt_rng dest 128 src 128"
  shows "strncpy m dest src 128 = wr_bytes m dest (bs @ replicate k 0)"
proof (cases "k = 0")
  case True
  then show ?thesis
    using strncpy_loop_full[of 0 128 m src dest] assms by (simp add: strncpy_def)
next
  case False
  have len: "length bs + k = 128" using arg_cong[OF assms(1), of length] by simp
  have "rd_bytes m src (length bs) = bs"
    using arg_cong[OF assms(1), of "take (length bs)"] len by simp
  moreover have "m (src + of_nat (length bs)) = 0"
    using arg_cong[OF assms(1), of "\<lambda>l. l ! length bs"] len False by (simp add: nth_append)
  ultimately have c: "cstr m src bs" using assms(2) by (simp add: cstr_iff)
  have "disjnt_rng dest (length bs) src (Suc (length bs))"
    by (rule disjnt_rng_mono[OF assms(3)]) (use len False in auto)
  moreover have "k = 128 - length bs" using len by simp
  ultimately show ?thesis
    using strncpy_loop_eq[of m src 0 bs 128 dest] c len by (simp add: strncpy_def)
qed

lemma fold_poke_eq:
  "n < 4294967296 \<Longrightarrow> fold (\<lambda>x s. poke (p + of_nat x) v s) [0..<n] s = s\<lparr>mem := wr_bytes (mem s) p (replicate n v)\<rparr>"
proof (induction n)
  case (Suc n)
  then have "replicate (Suc n) v = replicate n v @ [v]" by (simp add: replicate_append_same)
  with Suc show ?case by (simp add: poke_def wr_bytes_snoc del: replicate_Suc fun_upd_apply)
qed simp

lemma deref_cong: "walk t = walk s \<Longrightarrow> deref a t = deref a s"
  by (simp add: deref_def)

lemma clear_buffer_row:
  assumes "keys_wf s"
  shows "\<exists>kb. clear_buffer s = Inr (0, s\<lparr>key_buffer := kb, key_index := (key_index s)[unat (display_terminal s) := 0]\<rparr>) \<and>
    take 128 (drop (128 * unat (display_terminal s)) kb) = replicate 128 0 \<and> length kb = 384"
proof -
  let ?d = "unat (display_terminal s)"
  have d: "?d < 3" "length (key_buffer s) = 384" using assms by (simp_all add: keys_wf_def)
  then have "128 * ?d \<le> 256" by simp
  with d show ?thesis
    by (intro exI[of _ "take (128 * ?d) (key_buffer s) @ replicate 128 0 @ drop (128 * ?d + 128) (key_buffer s)"])
       (simp add: clear_buffer_def clear_row_eq Let_def)
qed

lemma read_keys_eq:
  assumes wf: "keys_wf s" and line: "take (Suc (length line)) (row s) = line @ [10] \<and> length line \<le> 127" "10 \<notin> set line" "0 \<notin> set line"
    and low: "low_mapped s" and dr: "deref buf s = Inr p"
    and zero: "rd_bytes (mem s) buffer 128 = replicate 128 0" and dj: "disjnt_rng p 128 buffer 128"
  shows "\<exists>t. read_keys buffer buf s = Inr (int (length line) + 1, t) \<and>
    rd_bytes (mem t) p 128 = line @ [10] @ replicate (127 - length line) 0 \<and> row t = replicate 128 0 \<and> cur_index t = 0 \<and>
    (\<forall>a. \<not> in_rng p 128 a \<and> \<not> in_rng buffer 128 a \<longrightarrow> mem t a = mem s a)"
proof -
  let ?bs = "line @ [10]" and ?n = "Suc (length line)"
  have len: "?n \<le> 128" and r: "take ?n (row s) = ?bs" using line(1) by simp_all
  let ?s1 = "s\<lparr>mem := wr_bytes (mem s) buffer ?bs\<rparr>"
  have ck: "copy_keys buffer 128 0 s = (?n, ?s1)"
    using copy_keys_eq[OF wf, of line 0 128 buffer] r line(2) len by simp
  have i: "mem ?s1 (buffer + of_nat (length line)) = 10" using len by (simp add: wr_bytes_in nth_append)
  have dr1: "deref buf ?s1 = Inr p" using dr walk_mem[OF low] by (simp add: deref_def)
  have rb: "rd_bytes (mem ?s1) buffer 128 = ?bs @ replicate (127 - length line) 0"
  proof -
    have n: "128 = length ?bs + (127 - length line)" using len by simp
    have "rd_bytes (mem ?s1) (buffer + of_nat (length ?bs)) (127 - length line) =
        rd_bytes (mem s) (buffer + of_nat (length ?bs)) (127 - length line)"
    proof (rule rd_bytes_cong)
      fix a assume "in_rng (buffer + of_nat (length ?bs)) (127 - length line) a"
      moreover have "disjnt_rng (buffer + of_nat 0) (length ?bs) (buffer + of_nat (length ?bs)) (127 - length line)"
        using len by (intro disjnt_rng_offsets) auto
      ultimately have "\<not> in_rng buffer (length ?bs) a" using disjnt_rngD2 by fastforce
      then show "mem ?s1 a = mem s a" by (simp add: wr_bytes_out)
    qed simp
    also have "\<dots> = drop (length ?bs) (rd_bytes (mem s) buffer 128)"
      using len by (intro nth_equalityI) (auto simp: algebra_simps)
    also have "\<dots> = replicate (127 - length line) 0" unfolding zero using len by simp
    finally show ?thesis
      using len rd_wr_bytes[of ?bs "mem s" buffer] by (subst n, subst rd_bytes_add) simp
  qed
  have sc: "strncpy (mem ?s1) p buffer 128 = wr_bytes (mem ?s1) p (?bs @ replicate (127 - length line) 0)"
    using line(3) by (intro strncpy_128[OF rb _ dj]) simp
  let ?s2 = "?s1\<lparr>mem := wr_bytes (mem ?s1) p (?bs @ replicate (127 - length line) 0)\<rparr>"
  have "keys_wf ?s2" using wf by (simp add: keys_wf_def cur_index_def)
  then obtain kb where cb: "clear_buffer ?s2 = Inr (0, ?s2\<lparr>key_buffer := kb, key_index := (key_index s)[unat (display_terminal s) := 0]\<rparr>)"
    "take 128 (drop (128 * unat (display_terminal s)) kb) = replicate 128 0"
    using clear_buffer_row[of ?s2] by auto
  let ?s3 = "?s2\<lparr>key_buffer := kb, key_index := (key_index s)[unat (display_terminal s) := 0]\<rparr>"
  let ?t = "?s3\<lparr>mem := wr_bytes (mem ?s3) buffer (replicate ?n 48)\<rparr>"
  have "read_keys buffer buf s = Inr (int (length line) + 1, ?t)"
    using wf ck i dr1 sc cb(1) len fold_poke_eq[of ?n buffer 48 ?s3]
    by (simp add: read_keys_def keys_wf_def Let_def)
  moreover have nb: "disjnt_rng buffer ?n p 128" by (rule disjnt_rng_mono[OF disjnt_rng_sym[OF dj]]) (use len in auto)
  have "rd_bytes (mem ?t) p 128 = ?bs @ replicate (127 - length line) 0"
  proof -
    have "rd_bytes (mem ?t) p 128 = rd_bytes (mem ?s3) p 128" using nb by (simp add: rd_wr_bytes_disjnt)
    also have "\<dots> = ?bs @ replicate (127 - length line) 0"
      using rd_wr_bytes[of "?bs @ replicate (127 - length line) 0" "mem ?s1" p] len by simp
    finally show ?thesis .
  qed
  moreover have "row ?t = replicate 128 0" "cur_index ?t = 0"
    using cb(2) wf by (simp_all add: row_def cur_index_def keys_wf_def)
  moreover have "mem ?t a = mem s a" if "\<not> in_rng p 128 a \<and> \<not> in_rng buffer 128 a" for a
  proof -
    have "\<not> in_rng buffer ?n a" using that len in_rng_mono[of buffer ?n a 128] by blast
    with that len show ?thesis by (simp add: wr_bytes_out)
  qed
  ultimately show ?thesis by auto
qed

text \<open>No key types a line feed or a NUL.\<close>

definition plain :: "bytes \<Rightarrow> bool" where
  "plain bs \<longleftrightarrow> 10 \<notin> set bs \<and> 0 \<notin> set bs"

lemma key_char_plain:
  assumes "2 \<le> unat sc" "unat sc < 54"
  shows "key_char sc e \<noteq> 10 \<and> key_char sc e \<noteq> 0"
proof -
  have "(if upper_key (unat sc - 2) e then 52 + (unat sc - 2) else unat sc - 2) < 104" using assms by auto
  from KEY_TABLE_chars[OF this] show ?thesis unfolding key_char_eq is_newline_def by blast
qed

lemma edit_key_plain:
  assumes "key_ok sc e" "plain (e_text e)"
  shows "plain (e_text (edit_key sc e))"
proof (cases "sc < 0x3B \<and> sc \<notin> {0x3A, 0x2A, 0x36, 0x1D, 0x38, 0x39, 0x0F, 0x0E}")
  case True
  then have "unat sc \<notin> {54, 55, 56, 57, 58}" "unat sc < 59"
    using assms(1) by (auto simp: key_ok_def word_unat_eq_iff word_less_nat_alt)
  then have "unat sc < 54" by auto
  moreover have "2 \<le> unat sc" using assms(1) by (simp add: key_ok_def word_le_nat_alt)
  ultimately show ?thesis
    using assms(2) key_char_plain[of sc e] True by (auto simp: plain_def edit_key_def dest: in_set_butlastD)
next
  case False
  then have "sc \<in> {0x3A, 0x2A, 0x36, 0x1D, 0x38, 0x39, 0x0F, 0x0E} \<or> \<not> sc < 0x3B" by blast
  with assms(2) show ?thesis by (auto simp: plain_def edit_key_def dest: in_set_butlastD split: if_splits)
qed

lemma keys_plain: "keys_ok scs e \<Longrightarrow> plain (e_text e) \<Longrightarrow> plain (e_text (fold edit_key scs e))"
  by (induction scs arbitrary: e) (auto simp: edit_key_plain)

text \<open>The state in which the reader begins to wait: nothing that the keyboard handler looks at has changed.\<close>

definition read_begins :: "ptr \<Rightarrow> 'a kernel_scheme \<Rightarrow> 'a kernel_scheme" where
  "read_begins buffer s =
    sti (((update_cursor (screen_x s) (screen_y s) s)\<lparr>mem := wr_bytes (mem s) buffer (replicate 128 0)\<rparr>)\<lparr>enter_down := 0\<rparr>)"

lemma read_begins_ready:
  assumes "kb_ready s" "tick_ok s" "typed (key_reads (io_trace s)) cs s"
  shows "kb_ready (read_begins buffer s)" "tick_ok (read_begins buffer s)"
    "typed (key_reads (io_trace (read_begins buffer s))) cs (read_begins buffer s)" "enter_down (read_begins buffer s) = 0"
    "cur_pid (read_begins buffer s) = cur_pid s" "editor_of (read_begins buffer s) = editor_of s"
    "rd_bytes (mem (read_begins buffer s)) buffer 128 = replicate 128 0"
proof -
  let ?s2 = "read_begins buffer s"
  note defs = read_begins_def update_cursor_eq sti_def
  have low: "low_mapped s" using assms(1) by (simp add: kb_ready_def kernel_mapped_def)
  have km: "kernel_mapped ?s2 = kernel_mapped s" using walk_cong(3)[OF low, of ?s2] by (simp add: defs)
  have f: "keys_wf ?s2 = keys_wf s" "on_screen ?s2 = on_screen s"
    by (simp_all add: defs keys_wf_def cur_index_def on_screen_def)
  show f2: "cur_pid ?s2 = cur_pid s" "editor_of ?s2 = editor_of s"
    by (simp_all add: defs cur_index_def cur_pid_def editor_of_def row_def)
  show "kb_ready ?s2" using assms(1) km f f2(1) by (simp add: kb_ready_def) (simp add: defs)
  show "tick_ok ?s2" "typed (key_reads (io_trace ?s2)) cs ?s2" "enter_down ?s2 = 0"
    using assms(2,3) by (simp_all add: defs tick_ok_def typed_def)
  show "rd_bytes (mem ?s2) buffer 128 = replicate 128 0"
    using rd_wr_bytes[of "replicate 128 0" "mem s" buffer] by (simp add: defs)
qed

text \<open>
  C5: reading a line. While a process of the displayed terminal reads, the user presses keys
  that edit the line, in any interleaving with clock interrupts, and then Enter. Excluded by \<open>keys_ok\<close>
  are Ctrl+L, which clears the screen, Alt with a function key, which changes the terminal, the scan codes
  0, 1 and 0x37, which have no character of their own in the key table, and keys that make the line
  longer than 127 characters: the keys after them, Enter included, store outside of the line
  (\<open>full_line_overruns\<close>). The read returns
  and delivers exactly the line that the reference editor makes of these keys (modifiers, caps lock,
  tabulator and backspace included), starting from what was typed before, with a line feed at
  its end and NULs up to 128 bytes; the count is the length with the line feed. All 128 bytes are
  written whatever number of bytes was asked for. The key buffer is empty afterwards.
\<close>

theorem terminal_read_line:
  fixes s :: "'a kernel_scheme"
  defines "line \<equiv> \<lambda>scs. e_text (fold edit_key scs (editor_of s))"
  assumes ready: "kb_ready s" "tick_ok s" and keys: "typed (key_reads (io_trace s)) (scs @ [0x1C]) s" "keys_ok scs (editor_of s)"
      "length scs < length (filter (\<lambda>i. i = Key_Irq) irqs)"
    and before: "plain (e_text (editor_of s))" and n: "0 < nbytes" and q: "q \<le> 0x400000 - 128"
    and buffer: "\<And>a. in_rng buffer 128 a \<Longrightarrow> unat a < 0x800000 \<and> \<not> in_rng VIDEO 4000 a \<and>
      \<not> in_rng (find_PCB (cur_pid s) + of_nat ESP) 8 a"
  shows "\<exists>t. terminal_read loc prompt buffer irqs fd (0x8000000 + of_nat q) nbytes s =
      Some (Inr (Returned (int (length (line scs)) + 1), t)) \<and>
    rd_bytes (mem t) (user_frame (cur_pid s) + of_nat q) 128 = line scs @ [10] @ replicate (127 - length (line scs)) 0 \<and>
    row t = replicate 128 0 \<and> cur_index t = 0"
proof -
  let ?pid = "cur_pid s" and ?p = "user_frame (cur_pid s) + of_nat q" and ?s2 = "read_begins buffer s"
  note r2 = read_begins_ready[OF ready keys(1), of buffer]
  obtain t where t: "wait_enter loc prompt irqs ?s2 = Some (Inr (Returned 0, t))" "kb_keep ?s2 t" "own_page t" "line_ready (line scs) t"
    using wait_enter_line[OF r2(1,4,2,3), of irqs loc prompt] keys(2,3) r2(6) by (auto simp: line_def)
  define u where "u = t\<lparr>enter_down := 0\<rparr>"
  have pid: "0 \<le> ?pid" "?pid < 6" using ready(1) by (simp_all add: kb_ready_def)
  have "rd_bytes (mem t) buffer 128 = rd_bytes (mem ?s2) buffer 128"
    using t(2) buffer r2(5) by (intro rd_bytes_cong) (auto simp: kb_keep_def)
  then have zero: "rd_bytes (mem t) buffer 128 = replicate 128 0" using r2(7) by simp
  have dj: "disjnt_rng ?p 128 buffer 128"
  proof -
    have "0x800000 \<le> unat a" if "in_rng ?p 128 a" for a
      using that unat_user_image[OF pid, of q] q in_rng_unat[of ?p 128 a] pid by auto
    then show ?thesis using buffer by (force simp: disjnt_rng_def)
  qed
  have lowt: "low_mapped t" using t(2) by (simp add: kb_keep_def kb_ready_def kernel_mapped_def)
  have wu: "walk u = walk t" "low_mapped u" using walk_cong(1,2)[OF lowt, of u] by (simp_all add: u_def)
  have wt: "walk t (0x8000000 + of_nat q) = Some (user_frame (cur_pid t) + of_nat q, True, True)"
    using t(3) q by (simp add: own_page_def word_less_nat_alt)
  have "cur_pid t = ?pid" using t(2) r2(5) by (simp add: kb_keep_def)
  then have dr: "deref (0x8000000 + of_nat q) u = Inr ?p" using wt wu(1) by (simp add: deref_def)
  have pl: "plain (line scs)" using keys_plain[OF keys(2) before] by (simp add: line_def)
  have "keys_wf t" using t(2) unfolding kb_keep_def kb_ready_def by blast
  then have lu: "keys_wf u" by (simp add: u_def keys_wf_def cur_index_def)
  have "row u = row t" by (simp add: u_def row_def)
  with t(4) have rd: "take (Suc (length (line scs))) (row u) = line scs @ [10] \<and> length (line scs) \<le> 127"
    unfolding line_ready_def by metis
  obtain v where "read_keys buffer (0x8000000 + of_nat q) u = Inr (int (length (line scs)) + 1, v)"
    "rd_bytes (mem v) ?p 128 = line scs @ [10] @ replicate (127 - length (line scs)) 0" "row v = replicate 128 0" "cur_index v = 0"
    using read_keys_eq[OF lu rd, of "0x8000000 + of_nat q" ?p buffer] pl wu(2) dr zero dj
    by (auto simp: plain_def u_def)
  moreover have "terminal_read loc prompt buffer irqs fd (0x8000000 + of_nat q) nbytes s =
      fbind (lift (read_keys buffer (0x8000000 + of_nat q) u)) (\<lambda>(n, s). Some (Inr (Returned n, s)))"
    using t(1) n fold_poke_eq[of 128 buffer 0 "update_cursor (screen_x s) (screen_y s) s"]
    by (simp add: terminal_read_def get_screen_x_def get_screen_y_def read_begins_def u_def update_cursor_eq Let_def)
  ultimately show ?thesis by (auto simp: lift_def)
qed

section \<open>Witness\<close>

text \<open>Shift and the key of the letter a, then b, backspace, c and Enter, with clock interrupts between them.\<close>

definition demo_codes :: bytes where
  "demo_codes = [0x2A, 0x1E, 0xAA, 0x30, 0x0E, 0x2E]"

definition demo_keyboard :: "io_event list \<Rightarrow> u16 \<Rightarrow> u8" where
  "demo_keyboard tr p = (if key_reads tr < 7 then (demo_codes @ [0x1C]) ! key_reads tr else 0)"

definition demo_kbd :: kernel where
  "demo_kbd = demo_kernel\<lparr>ports := demo_keyboard, io_trace := [], key_buffer := replicate 384 0, clear_offset := [0, 0, 0],
     L_shift_check := 0, R_shift_check := 0, capslock_check := 0, ctrl_check := 0, alt_check := 0, virtual_freq := 2\<rparr>"

lemma demo_editor: "editor_of demo_kbd = \<lparr>e_lshift = False, e_rshift = False, e_caps = False, e_ctrl = False, e_alt = False, e_fixed = 0, e_text = []\<rparr>"
  by (simp add: editor_of_def demo_kbd_def cur_index_def)

lemma demo_kbd_ready: "kb_ready demo_kbd" "tick_ok demo_kbd" "cur_pid demo_kbd = 0"
proof -
  have low: "low_mapped demo_kernel" using demo_kernel_mapped by (simp add: kernel_mapped_def)
  have "kernel_mapped demo_kbd"
    using walk_cong(3)[OF low, of demo_kbd] demo_kernel_mapped by (simp add: demo_kbd_def)
  then show "kb_ready demo_kbd" "tick_ok demo_kbd" "cur_pid demo_kbd = 0"
    by (simp_all add: kb_ready_def keys_wf_def cur_index_def cur_pid_def on_screen_def tick_ok_def demo_kbd_def)
qed

lemma demo_line: "keys_ok demo_codes (editor_of demo_kbd)" "e_text (fold edit_key demo_codes (editor_of demo_kbd)) = asc ''Ac''"
  unfolding demo_editor demo_codes_def
  by (simp_all add: key_ok_def edit_key_def key_char_def KEY_TABLE_eq is_letter_def asc_def of_char_def Let_def)

theorem terminal_read_line_witness:
  "\<exists>t. terminal_read demo_locals 0x600000 0x7FFE00 (Rtc_Irq # concat (replicate 7 [Key_Irq, Rtc_Irq])) 0 0x8001000 10 demo_kbd =
      Some (Inr (Returned 3, t)) \<and>
    rd_bytes (mem t) 0x801000 128 = asc ''Ac'' @ [10] @ replicate 125 0"
proof -
  have k: "typed (key_reads (io_trace demo_kbd)) (demo_codes @ [0x1C]) demo_kbd"
    by (simp add: typed_def demo_kbd_def key_reads_def) (auto simp: demo_keyboard_def key_reads_def demo_codes_def)
  have n: "length demo_codes < length (filter (\<lambda>i. i = Key_Irq) (Rtc_Irq # concat (replicate 7 [Key_Irq, Rtc_Irq])))"
    by (simp add: demo_codes_def numeral_eq_Suc)
  have b: "unat a < 0x800000 \<and> \<not> in_rng VIDEO 4000 a \<and> \<not> in_rng (find_PCB (cur_pid demo_kbd) + of_nat ESP) 8 a"
    if "in_rng 0x7FFE00 128 a" for a
    using that by (simp add: demo_kbd_ready(3) demo_cur(2) in_rng_unat)
  have u: "user_frame (cur_pid demo_kbd) + of_nat 0x1000 = 0x801000"
    by (simp add: demo_kbd_ready(3) user_frame_def)
  show ?thesis
    using terminal_read_line[OF demo_kbd_ready(1,2) k demo_line(1) n, of 10 "0x1000" "0x7FFE00" demo_locals "0x600000" 0, unfolded demo_line(2) u] b
    by (auto simp: demo_editor plain_def asc_def)
qed

end
