(* ===== verification/Syscalls.thy ===== *)
theory Syscalls
  imports Term_Read File_Io
begin

text \<open>
  The remaining system calls of \<^verbatim>\<open>student-distrib/syscalls.c\<close> and their dispatch in
  \<^verbatim>\<open>syscall_link.S\<close>: \<open>halt\<close>, \<open>read\<close>, \<open>write\<close>, \<open>getargs\<close>, \<open>vidmap\<close>, \<open>set_handler\<close> and
  \<open>sigreturn\<close>. With \<open>execute\<close>, \<open>open\<close> and \<open>close\<close> of the earlier theories these are the ten entries
  of the jump table.

  What a call takes from its surroundings is in a \<open>sys_env\<close>: the addresses of local variables and
  literals, and the interrupts that arrive while a read of the terminal waits. A call ends as the
  keyboard handler does, in a \<open>kflow\<close>: it returns, another process is resumed, or control leaves
  the kernel or jumps to the label in \<open>execute\<close>.
\<close>

section \<open>Operations\<close>

text \<open>
  \<open>halt\<close> closes through \<open>close\<close>, which acts on the process that is current by then, and clears the
  entries of the process that ends.
\<close>

definition halt_file :: "ptr \<Rightarrow> nat \<Rightarrow> 'a kernel_scheme \<Rightarrow> fault + 'a kernel_scheme" where
  "halt_file child i s =
    sbind (if ld_field child (fd_off i FLAGS) s = 1 then sbind (close_fd (int i) s) (\<lambda>(_, s). Inr s) else Inr s)
      (\<lambda>s. let s = st_field child (fd_off i FOPS) NULL s
           in Inr (st_field child (fd_off i FLAGS) 0 s))"

fun halt_files :: "ptr \<Rightarrow> nat list \<Rightarrow> 'a kernel_scheme \<Rightarrow> fault + 'a kernel_scheme" where
  "halt_files child [] s = Inr s"
| "halt_files child (i # is) s = sbind (halt_file child i s) (halt_files child is)"

definition halt :: "u8 \<Rightarrow> 'a kernel_scheme \<Rightarrow> fault + flow \<times> 'a kernel_scheme" where
  "halt status s =
    sbind (current_pcb s) (\<lambda>child.
      let par_p_id = sint (ld_field child PAR_P_ID s)
      in if par_p_id \<ge> 0
         then sbind (deref (find_PCB par_p_id) s) (\<lambda>parent.
           let s = snd (map_v_p USER_PROCESS_START_VIRTUAL
                     (USER_PROCESS_START_PHYSICAL + ld_field parent P_ID s * USER_PROCESS_SIZE) 1 1 1 s);
               s = s\<lparr>tss_esp0 := 0x800000 - ld_field parent P_ID s * 0x2000 - 4\<rparr>;
               esp = ld_field parent ESP s;
               ebp = ld_field parent EBP s
           in sbind (delete_process (sint (ld_field child P_ID s)) s) (\<lambda>(_, s).
              sbind (halt_files child [0..<FILE_ARRAY_LEN] s) (\<lambda>s.
              let s = (if vidmap_called s \<noteq> 0 then snd (map_v_p USER_VIDMAP 0 0 1 1 s) else s);
                  s = putc 10 s;
                  s = flush_tlb s
              in Inr (Exec_Ret status, s\<lparr>reg_esp := esp, reg_ebp := ebp\<rparr>))))
         else sbind (delete_process (sint (ld_field child P_ID s)) s) (\<lambda>(_, s). Inr (Exec_Ret status, s)))"

definition getargs ::
  "ptr \<Rightarrow> ptr \<Rightarrow> u32 \<Rightarrow> 'a kernel_scheme \<Rightarrow> (fault + int \<times> 'a kernel_scheme) option" where
  "getargs conv buf nbytes s =
    fbind (lift (current_pcb s)) (\<lambda>pcb.
      let arg_buffer = pcb + of_nat ARG_BUFFER
      in if word_of_int (string_length (mem s) arg_buffer + 1) > nbytes \<or> arg_buffer = NULL \<or>
            buf = NULL \<or> string_length (mem s) arg_buffer = 0
         then Some (Inr (- 1, s))
         else fbind (lift (lin buf s)) (\<lambda>buf.
           let s = s\<lparr>mem := snd (copy_string (mem s) arg_buffer buf)\<rparr>
           in fbind (printf conv (asc ''getargs buf: %s'' @ [10]) [buf] s) (\<lambda>(_, s). Some (Inr (0, s)))))"

text \<open>The four bytes that \<open>vidmap\<close> stores can cross the end of the page: both ends are translated.\<close>

definition vidmap :: "ptr \<Rightarrow> 'a kernel_scheme \<Rightarrow> fault + int \<times> 'a kernel_scheme" where
  "vidmap screen_start s =
    (if screen_start = NULL then Inr (- 1, s)
     else if screen_start < USER_PROCESS_START_VIRTUAL + 0x48000 \<or>
             screen_start \<ge> USER_PROCESS_START_VIRTUAL + 0x400000
     then Inr (- 1, s)
     else let s = s\<lparr>vidmap_called := 1\<rparr>;
              s = snd (map_v_p USER_VIDMAP VIDEO 0 1 1 s)
          in sbind (deref screen_start s) (\<lambda>p. sbind (deref (screen_start + 3) s) (\<lambda>_.
             Inr (sint USER_VIDMAP, s\<lparr>mem := st32 (mem s) p USER_VIDMAP\<rparr>))))"

definition set_handler :: "int \<Rightarrow> ptr \<Rightarrow> 'a kernel_scheme \<Rightarrow> int \<times> 'a kernel_scheme" where
  "set_handler signum handler_address s = (- 1, s)"

definition sigreturn :: "'a kernel_scheme \<Rightarrow> int \<times> 'a kernel_scheme" where
  "sigreturn s = (- 1, s)"

section \<open>Reading and writing through descriptors\<close>

record sys_env =
  env_loc :: exec_locals
  prompt_str :: ptr
  read_buffer :: ptr
  write_buffer :: ptr
  arrivals :: "interrupt list"

text \<open>The calls through \<^verbatim>\<open>fops->read\<close> and \<^verbatim>\<open>fops->write\<close>.\<close>

definition call_read ::
  "sys_env \<Rightarrow> driver \<Rightarrow> int \<Rightarrow> ptr \<Rightarrow> int \<Rightarrow> 'a kernel_scheme \<Rightarrow> (fault + kflow \<times> 'a kernel_scheme) option" where
  "call_read env d fd buf nbytes s =
    (case d of
       Terminal_Driver \<Rightarrow> terminal_read (env_loc env) (prompt_str env) (read_buffer env) (arrivals env) fd buf nbytes s
     | Rtc_Driver \<Rightarrow> fbind (rtc_read fd buf nbytes s) (\<lambda>(_, r, s). Some (Inr (Returned r, s)))
     | File_Driver \<Rightarrow> fbind (lift (file_read fd buf nbytes s)) (\<lambda>(r, s). Some (Inr (Returned r, s)))
     | Dir_Driver \<Rightarrow> fbind (lift (lin buf s)) (\<lambda>buf.
         fbind (lift (dir_read fd buf nbytes s)) (\<lambda>(r, s). Some (Inr (Returned r, s)))))"

definition call_write ::
  "sys_env \<Rightarrow> driver \<Rightarrow> int \<Rightarrow> ptr \<Rightarrow> int \<Rightarrow> 'a kernel_scheme \<Rightarrow> (fault + kflow \<times> 'a kernel_scheme) option" where
  "call_write env d fd buf nbytes s =
    fbind (lift (lin buf s)) (\<lambda>buf.
      let (r, s) = (case d of
          Terminal_Driver \<Rightarrow> terminal_write (write_buffer env) fd buf nbytes s
        | Rtc_Driver \<Rightarrow> rtc_write fd buf nbytes s
        | File_Driver \<Rightarrow> file_write fd buf nbytes s
        | Dir_Driver \<Rightarrow> dir_write fd buf nbytes s)
      in Some (Inr (Returned r, s)))"

definition read_fd ::
  "sys_env \<Rightarrow> int \<Rightarrow> ptr \<Rightarrow> int \<Rightarrow> 'a kernel_scheme \<Rightarrow> (fault + kflow \<times> 'a kernel_scheme) option" where
  "read_fd env fd buf nbytes s =
    fbind (lift (get_current_PCB s)) (\<lambda>curr.
      if buf = NULL \<or> fd < 0 \<or> fd > MAX_FD \<or> fd = 1 \<or> nbytes < 0 then Some (Inr (Returned (- 1), s))
      else fbind (lift (deref curr s)) (\<lambda>curr.
        if ld_field curr (fd_off (nat fd) FLAGS) s = 0 then Some (Inr (Returned (- 1), s))
        else fbind (lift (driver_of (ld_field curr (fd_off (nat fd) FOPS) s) s)) (\<lambda>d.
          call_read env d fd buf nbytes s)))"

definition write_fd ::
  "sys_env \<Rightarrow> int \<Rightarrow> ptr \<Rightarrow> int \<Rightarrow> 'a kernel_scheme \<Rightarrow> (fault + kflow \<times> 'a kernel_scheme) option" where
  "write_fd env fd buf nbytes s =
    fbind (lift (get_current_PCB s)) (\<lambda>curr.
      if fd < 0 \<or> fd > MAX_FD \<or> fd = 0 \<or> buf = NULL \<or> nbytes < 0 then Some (Inr (Returned (- 1), s))
      else fbind (lift (deref curr s)) (\<lambda>curr.
        if ld_field curr (fd_off (nat fd) FLAGS) s = 0 then Some (Inr (Returned (- 1), s))
        else fbind (lift (driver_of (ld_field curr (fd_off (nat fd) FOPS) s) s)) (\<lambda>d.
          call_write env d fd buf nbytes s)))"

section \<open>The dispatch\<close>

definition leaves :: "flow \<Rightarrow> kflow" where
  "leaves fl = (case fl of Ret r \<Rightarrow> Returned r | _ \<Rightarrow> Left fl)"

text \<open>The handler of interrupt 0x80, from the numbers in the registers.\<close>

definition sys_call ::
  "sys_env \<Rightarrow> u32 \<Rightarrow> u32 \<Rightarrow> u32 \<Rightarrow> u32 \<Rightarrow> 'a kernel_scheme \<Rightarrow> (fault + kflow \<times> 'a kernel_scheme) option" where
  "sys_call env eax ebx ecx edx s =
    (let s = sti s;
         ret = (\<lambda>(r, s). Some (Inr (Returned r, s)))
     in if eax < 1 \<or> eax > 10 then Some (Inr (Returned (- 1), s))
        else if eax = 1 then fbind (lift (halt (ucast ebx) s)) (\<lambda>(fl, s). Some (Inr (leaves fl, s)))
        else if eax = 2 then fbind (execute (env_loc env) ebx s) (\<lambda>(fl, s). Some (Inr (leaves fl, s)))
        else if eax = 3 then read_fd env (sint ebx) ecx (sint edx) s
        else if eax = 4 then write_fd env (sint ebx) ecx (sint edx) s
        else if eax = 5 then fbind (lift (open_fd ebx s)) ret
        else if eax = 6 then fbind (lift (close_fd (sint ebx) s)) ret
        else if eax = 7 then fbind (getargs (conv_buf (env_loc env)) ebx ecx s) ret
        else if eax = 8 then fbind (lift (vidmap ebx s)) ret
        else if eax = 9 then ret (set_handler (sint ebx) ecx s)
        else ret (sigreturn s))"

section \<open>Video memory for programs\<close>

definition own_frame :: "int \<Rightarrow> 'a paging_scheme \<Rightarrow> bool" where
  "own_frame pid s \<longleftrightarrow> (\<forall>q < 0x400000. walk s (0x8000000 + q) = Some (user_frame pid + q, True, True))"

lemma user_page_index: "q < 0x400000 \<Longrightarrow> drop_bit 22 (0x8000000 + q) = 32" for q :: u32
proof -
  assume q: "q < 0x400000"
  have "unat (0x8000000 + q) = 0x8000000 + unat q"
    using q by (simp add: unat_word_ariths word_less_nat_alt)
  then have "unat (drop_bit 22 (0x8000000 + q)) = 32"
    using q unfolding drop_bit_eq_div unat_div by (simp add: word_less_nat_alt div_nat_eqI)
  then show ?thesis by (simp add: word_unat_eq_iff)
qed

lemma map_vidmap_page:
  assumes "kernel_mapped s" "p AND mask 12 = 0"
  shows "\<exists>pd pt. snd (map_v_p USER_VIDMAP p 0 1 1 s) = s\<lparr>page_dir := pd, page_table := pt\<rparr> \<and>
    kernel_mapped (s\<lparr>page_dir := pd, page_table := pt\<rparr>) \<and>
    (\<forall>a. drop_bit 12 a \<noteq> 0xF8 \<longrightarrow> walk (s\<lparr>page_dir := pd, page_table := pt\<rparr>) a = walk s a) \<and>
    (\<forall>q < 0x1000. walk (s\<lparr>page_dir := pd, page_table := pt\<rparr>) (USER_VIDMAP + q) = (if p = 0 then None else Some (p + q, True, True)))"
proof -
  have low: "low_mapped s" and ok: "paging_ok s" using assms(1) by (simp_all add: kernel_mapped_def low_mapped_def)
  have v: "small_page 0xF8000" "(0xF8000 :: u32) \<noteq> 0" "drop_bit 12 (0xF8000 :: u32) = 0xF8"
    by (simp_all add: small_page_def mask_eq_exp_minus_1 drop_bit_eq_div)
  note w = walk_map_4kb[OF ok v(1) assms(2) v(2), where rw = 1 and us = 1]
  let ?t = "map_4kb 0xF8000 p 1 1 s"
  have e: "\<exists>pd pt. ?t = s\<lparr>page_dir := pd, page_table := pt\<rparr>"
    using map_4kb_eq[OF v(1) assms(2) v(2), of 1 1 s] by (auto simp: map_4kb_def)
  have "walk ?t (0x400000 + q) = walk s (0x400000 + q)" if "q < 0x400000" for q
    using w(4) kernel_page_index[OF that] by simp
  then have "kernel_mapped ?t" using assms(1) w(3) by (simp add: kernel_mapped_def)
  moreover have "walk ?t a = walk s a" if "drop_bit 12 a \<noteq> 0xF8" for a using w(2)[OF low] that v(3) by simp
  moreover have "walk ?t (0xF8000 + q) = (if p = 0 then None else Some (p + q, True, True))" if "q < 0x1000" for q
    using w(1)[OF that] by simp
  ultimately show ?thesis using e unfolding map_4kb_def by metis
qed

text \<open>An accepted call up to the second translation: the screen is mapped, the program's page as before.\<close>

lemma vidmap_accepted:
  assumes km: "kernel_mapped s" and page: "own_frame pid s" and b: "0x8048000 \<le> unat p" "unat p < 0x8400000"
  obtains t where "vidmap p s = sbind (deref (p + 3) t) (\<lambda>_.
      Inr (0xF8000, t\<lparr>mem := st32 (mem s) (user_frame pid + (p - 0x8000000)) 0xF8000\<rparr>))"
    "low_mapped t" "vidmap_called t = 1" "\<And>a. drop_bit 12 a \<noteq> 0xF8 \<Longrightarrow> walk t a = walk s a"
    "\<And>q. q < 0x1000 \<Longrightarrow> walk t (0xF8000 + q) = Some (VIDEO + q, True, True)"
    "\<And>a. 0x8000000 \<le> unat a \<Longrightarrow> walk t a = walk s a" "unat (p - 0x8000000) = unat p - 0x8000000"
proof -
  have n: "\<not> p < 0x8048000" "\<not> p \<ge> 0x8400000" "p \<noteq> 0" using b by (auto simp: word_less_nat_alt word_le_nat_alt)
  let ?s1 = "s\<lparr>vidmap_called := 1\<rparr>" and ?q = "p - 0x8000000"
  have low: "low_mapped s" using km by (simp add: kernel_mapped_def)
  have w1: "walk ?s1 = walk s" "kernel_mapped ?s1" using walk_cong(1,3)[OF low, of ?s1] km by simp_all
  have vp: "VIDEO AND mask 12 = 0" by (simp add: mask_eq_exp_minus_1)
  obtain pd pt where m: "snd (map_v_p USER_VIDMAP VIDEO 0 1 1 ?s1) = ?s1\<lparr>page_dir := pd, page_table := pt\<rparr>"
    "kernel_mapped (?s1\<lparr>page_dir := pd, page_table := pt\<rparr>)"
    "\<And>a. drop_bit 12 a \<noteq> 0xF8 \<Longrightarrow> walk (?s1\<lparr>page_dir := pd, page_table := pt\<rparr>) a = walk s a"
    "\<And>q. q < 0x1000 \<Longrightarrow> walk (?s1\<lparr>page_dir := pd, page_table := pt\<rparr>) (USER_VIDMAP + q) = Some (VIDEO + q, True, True)"
    using map_vidmap_page[OF w1(2) vp] w1(1) by auto
  let ?t = "?s1\<lparr>page_dir := pd, page_table := pt\<rparr>"
  have hi: "walk ?t a = walk s a" if "0x8000000 \<le> unat a" for a :: u32
  proof (rule m(3))
    have "unat (drop_bit 12 a) = unat a div 4096" by (simp add: drop_bit_eq_div unat_div)
    with that show "drop_bit 12 a \<noteq> 0xF8" by (auto simp: word_unat_eq_iff)
  qed
  have uq: "unat ?q = unat p - 0x8000000" using b by (subst unat_sub) (simp_all add: word_le_nat_alt)
  have "?q < 0x400000" using uq b by (simp add: word_less_nat_alt)
  then have "walk s (0x8000000 + ?q) = Some (user_frame pid + ?q, True, True)" using page unfolding own_frame_def by blast
  then have "deref p ?t = Inr (user_frame pid + ?q)" using hi[of p] b by (simp add: deref_def)
  then have "vidmap p s = sbind (deref (p + 3) ?t) (\<lambda>_. Inr (0xF8000, ?t\<lparr>mem := st32 (mem s) (user_frame pid + ?q) 0xF8000\<rparr>))"
    using n m(1) by (simp add: vidmap_def Let_def)
  then show thesis by (rule that) (use m(2-4) hi uq in \<open>simp_all add: kernel_mapped_def\<close>)
qed

text \<open>
  C9: the video page. \<open>vidmap\<close> returns -1 and changes nothing for a pointer below the program image or
  beyond the program's page. Otherwise, when the four bytes it points to are in the page, the
  fixed address 0xF8000 is stored there and returned, and the page at that address shows the
  physical screen; every other address is translated as before and no other byte is written. For
  the last three addresses of the page the store runs over its end and faults, the new mapping in place.
\<close>

theorem vidmap_bounds:
  assumes km: "kernel_mapped s" and page: "own_frame pid s" and pid: "0 \<le> pid" "pid < 6"
    and gap: "walk s 0x8400000 = None" "walk s 0x8400001 = None" "walk s 0x8400002 = None"
  shows "if unat p < 0x8048000 \<or> 0x8400000 \<le> unat p then vidmap p s = Inr (- 1, s)
    else if 0x83FFFFC < unat p then vidmap p s = Inl Page_Fault
    else \<exists>t. vidmap p s = Inr (0xF8000, t) \<and> vidmap_called t = 1 \<and>
      ld32 (mem t) (user_frame pid + (p - 0x8000000)) = 0xF8000 \<and>
      (\<forall>a. \<not> in_rng (user_frame pid + (p - 0x8000000)) 4 a \<longrightarrow> mem t a = mem s a) \<and>
      (\<forall>q < 0x1000. walk t (0xF8000 + q) = Some (VIDEO + q, True, True)) \<and>
      (\<forall>a. drop_bit 12 a \<noteq> 0xF8 \<longrightarrow> walk t a = walk s a)"
proof (cases "unat p < 0x8048000 \<or> 0x8400000 \<le> unat p")
  case True
  then have "p = NULL \<or> p < 0x8048000 \<or> p \<ge> 0x8400000" by (auto simp: word_less_nat_alt word_le_nat_alt)
  with True show ?thesis by (auto simp: vidmap_def)
next
  case False
  let ?q = "p - 0x8000000"
  have b: "0x8048000 \<le> unat p" "unat p < 0x8400000" using False by auto
  obtain t where vd: "vidmap p s = sbind (deref (p + 3) t) (\<lambda>_. Inr (0xF8000, t\<lparr>mem := st32 (mem s) (user_frame pid + ?q) 0xF8000\<rparr>))"
    and low: "low_mapped t" and t: "vidmap_called t = 1" "\<And>a. drop_bit 12 a \<noteq> 0xF8 \<Longrightarrow> walk t a = walk s a"
      "\<And>q. q < 0x1000 \<Longrightarrow> walk t (0xF8000 + q) = Some (VIDEO + q, True, True)"
    and hi: "\<And>a. 0x8000000 \<le> unat a \<Longrightarrow> walk t a = walk s a" and uq: "unat ?q = unat p - 0x8000000"
    by (rule vidmap_accepted[OF km page b]) (rule that)
  show ?thesis
  proof (cases "0x83FFFFC < unat p")
    case True
    have "unat p = 0x83FFFFD \<or> unat p = 0x83FFFFE \<or> unat p = 0x83FFFFF" using True b by auto
    then have "p = 0x83FFFFD \<or> p = 0x83FFFFE \<or> p = 0x83FFFFF" by (simp add: word_unat_eq_iff)
    then have "p + 3 \<in> {0x8400000, 0x8400001, 0x8400002}" by auto
    then have "walk t (p + 3) = None" using gap hi[of "p + 3"] by auto
    then have "vidmap p s = Inl Page_Fault" unfolding vd by (simp add: deref_def)
    with False True show ?thesis by simp
  next
    case inside: False
    have u3: "unat (w + 3) = unat w + 3" if "unat w < 0x8400000" for w :: u32 using that by (simp add: unat_word_ariths)
    have "?q + 3 < 0x400000" using u3[of ?q] uq inside b by (simp add: word_less_nat_alt)
    then have "walk s (0x8000000 + (?q + 3)) = Some (user_frame pid + (?q + 3), True, True)" using page unfolding own_frame_def by blast
    then have "deref (p + 3) t = Inr (user_frame pid + (?q + 3))" using hi[of "p + 3"] u3[of p] b by (simp add: deref_def algebra_simps)
    then have v: "vidmap p s = Inr (0xF8000, t\<lparr>mem := st32 (mem s) (user_frame pid + ?q) 0xF8000\<rparr>)" by (simp add: vd)
    have "walk (t\<lparr>mem := st32 (mem s) (user_frame pid + ?q) 0xF8000\<rparr>) = walk t" using walk_mem[OF low] by auto
    with v t inside False show ?thesis by (auto simp: st32_out)
  qed
qed

theorem vidmap_bounds_witness:
  "\<exists>(s :: kernel) t. vidmap 0x8100000 s = Inr (0xF8000, t) \<and> ld32 (mem t) 0x900000 = 0xF8000 \<and>
    vidmap 0x400000 s = Inr (- 1, s) \<and> vidmap 0x83FFFFE s = Inl Page_Fault"
proof -
  obtain pd where pd: "kernel_mapped (demo_kernel\<lparr>page_dir := pd\<rparr>)"
    "\<forall>q < 0x400000. walk (demo_kernel\<lparr>page_dir := pd\<rparr>) (0x8000000 + q) = Some (user_frame 0 + q, True, True)"
    "\<forall>a. drop_bit 22 a \<noteq> 32 \<longrightarrow> walk (demo_kernel\<lparr>page_dir := pd\<rparr>) a = walk demo_kernel a"
    using map_user_page[OF demo_kernel_mapped, of 0] by auto
  let ?s = "demo_kernel\<lparr>page_dir := pd\<rparr>"
  have f: "own_frame 0 ?s" using pd(2) by (simp add: own_frame_def)
  have g: "walk ?s 0x8400000 = None" "walk ?s 0x8400001 = None" "walk ?s 0x8400002 = None"
    using pd(3) by (simp_all add: demo_kernel_walk drop_bit_eq_div)
  note v = vidmap_bounds[OF pd(1) f _ _ g]
  obtain t where "vidmap 0x8100000 ?s = Inr (0xF8000, t)" "ld32 (mem t) 0x900000 = 0xF8000"
    using v[of "0x8100000"] by (auto simp: user_frame_def)
  moreover have "vidmap 0x400000 ?s = Inr (- 1, ?s)" using v[of "0x400000"] by simp
  moreover have "vidmap 0x83FFFFE ?s = Inl Page_Fault" using v[of "0x83FFFFE"] by simp
  ultimately show ?thesis by blast
qed

section \<open>Ending a program\<close>

text \<open>
  One turn of the loop over the descriptors. The process that is current is the parent \<open>par\<close> by
  then, so that a descriptor that is open in the child is closed in the parent.
\<close>

lemma closing:
  assumes run: "proc_runs s" and i: "i < 8"
    and drv: "\<And>f n pos. fd_view (find_PCB (cur_pid s)) i s = Some (f, n, pos) \<Longrightarrow>
      f \<in> {terminal_funcs s, rtc_funcs s, fsys_funcs s, dir_funcs s}"
  shows "\<exists>r tr m. close_fd (int i) s = Inr (r, s\<lparr>io_trace := tr, mem := m\<rparr>) \<and>
    (\<forall>j < 8. fd_view (find_PCB (cur_pid s)) j (s\<lparr>mem := m\<rparr>) =
      (if j = i \<and> 2 \<le> i then None else fd_view (find_PCB (cur_pid s)) j s)) \<and>
    (\<forall>a. \<not> in_rng (find_PCB (cur_pid s)) 384 a \<longrightarrow> m a = mem s a)"
proof (cases "2 \<le> i \<and> fd_view (find_PCB (cur_pid s)) i s \<noteq> None")
  case False
  then have "close_fd (int i) s = Inr (- 1, s)"
    using current_pcb_eq[OF run] by (auto simp: close_fd_def fd_view_used)
  moreover have "s = s\<lparr>io_trace := io_trace s, mem := mem s\<rparr>" by simp
  moreover have "fd_view (find_PCB (cur_pid s)) i s = None" if "2 \<le> i" using False that by blast
  ultimately show ?thesis by (intro exI[of _ "- 1"] exI[of _ "io_trace s"] exI[of _ "mem s"]) auto
next
  case True
  let ?p = "find_PCB (cur_pid s)"
  obtain f n pos where v: "fd_view ?p i s = Some (f, n, pos)" using True by (cases "fd_view ?p i s") auto
  obtain tr where c: "close_fd (int i) s = Inr (0, reset_fd ?p i (s\<lparr>io_trace := tr\<rparr>))"
    using close_fd_eq[OF run _ i v drv[OF v]] True by blast
  obtain m where m: "reset_fd ?p i (s\<lparr>io_trace := tr\<rparr>) = s\<lparr>io_trace := tr, mem := m\<rparr>"
    using fill_reset_frame(2)[of ?p i "s\<lparr>io_trace := tr\<rparr>"] by auto
  have view: "fd_view ?p j (s\<lparr>mem := m\<rparr>) = (if j = i then None else fd_view ?p j s)" if "j < 8" for j
  proof -
    have "fd_view ?p j (s\<lparr>mem := m\<rparr>) = fd_view ?p j (s\<lparr>io_trace := tr, mem := m\<rparr>)" by (simp add: fd_view_def ld_field_def)
    then show ?thesis using fd_view_reset[OF i that, of ?p "s\<lparr>io_trace := tr\<rparr>"] by (simp add: m)
  qed
  have "m a = mem s a" if "\<not> in_rng ?p 384 a" for a
  proof -
    have "\<not> in_rng (?p + of_nat (48 * i)) 48 a" using that i in_rng_offset[of ?p "48 * i" 48 a 384] by auto
    then show ?thesis using fill_reset_out(2)[OF i, of ?p a "s\<lparr>io_trace := tr\<rparr>"] by (simp add: m)
  qed
  with c m view True show ?thesis by (intro exI[of _ 0] exI[of _ tr] exI[of _ m]) auto
qed

lemma clear_entry:
  assumes "i < 8"
  shows "\<exists>m. st_field c (fd_off i FLAGS) 0 (st_field c (fd_off i FOPS) NULL s) = s\<lparr>mem := m\<rparr> \<and>
    (\<forall>j < 8. ld_field c (fd_off j FLAGS) (s\<lparr>mem := m\<rparr>) = (if j = i then 0 else ld_field c (fd_off j FLAGS) s)) \<and>
    (\<forall>a. \<not> in_rng c 384 a \<longrightarrow> m a = mem s a)"
proof -
  let ?t = "st_field c (fd_off i FLAGS) 0 (st_field c (fd_off i FOPS) NULL s)"
  obtain m where t: "?t = s\<lparr>mem := m\<rparr>" by (simp add: st_field_def)
  have l: "ld_field c (fd_off j FLAGS) ?t = (if j = i then 0 else ld_field c (fd_off j FLAGS) s)" if "j < 8" for j
    using assms that by (simp add: fd_simps)
  have "mem ?t a = mem s a" if "\<not> in_rng c 384 a" for a
    using that assms by (simp add: st_field_out[of _ 384] fd_off_def)
  with t l show ?thesis unfolding t by auto
qed

lemma halt_file_eq:
  assumes run: "proc_runs s" and ids: "0 \<le> c" "c < 6" "c \<noteq> cur_pid s" and i: "i < 8"
    and drv: "\<And>f n pos. fd_view (find_PCB (cur_pid s)) i s = Some (f, n, pos) \<Longrightarrow>
      f \<in> {terminal_funcs s, rtc_funcs s, fsys_funcs s, dir_funcs s}"
  shows "\<exists>tr m. halt_file (find_PCB c) i s = Inr (s\<lparr>io_trace := tr, mem := m\<rparr>) \<and>
    (\<forall>j < 8. fd_view (find_PCB (cur_pid s)) j (s\<lparr>mem := m\<rparr>) =
      (if j = i \<and> 2 \<le> i \<and> ld_field (find_PCB c) (fd_off i FLAGS) s = 1 then None else fd_view (find_PCB (cur_pid s)) j s)) \<and>
    (\<forall>j < 8. ld_field (find_PCB c) (fd_off j FLAGS) (s\<lparr>mem := m\<rparr>) =
      (if j = i then 0 else ld_field (find_PCB c) (fd_off j FLAGS) s)) \<and>
    (\<forall>a. \<not> in_rng (find_PCB c) 384 a \<and> \<not> in_rng (find_PCB (cur_pid s)) 384 a \<longrightarrow> m a = mem s a)"
proof -
  let ?c = "find_PCB c" and ?p = "find_PCB (cur_pid s)"
  have dj: "disjnt_rng ?c 8192 ?p 8192"
    using run ids by (intro PCB_disjnt) (simp_all add: proc_runs_def)
  have apart: "\<not> in_rng ?c 384 a" if "in_rng ?p 384 a" for a
    using that dj in_rng_mono[of ?c 384 a 8192] in_rng_mono[of ?p 384 a 8192] disjnt_rngD1 by fastforce
  have apart_ld: "ld_field q k t = ld_field q k u" if "k + 4 \<le> 384" "\<And>a. in_rng q 384 a \<Longrightarrow> mem t a = mem u a"
    for q k and t u :: "'a kernel_scheme"
    by (rule ld_field_cong) (use that in_rng_offset[of q k 4 _ 384] in auto)
  let ?first = "if ld_field ?c (fd_off i FLAGS) s = 1 then sbind (close_fd (int i) s) (\<lambda>(_, s). Inr s) else Inr s"
  obtain tr m1 where f: "?first = Inr (s\<lparr>io_trace := tr, mem := m1\<rparr>)"
    and v: "\<And>j. j < 8 \<Longrightarrow> fd_view ?p j (s\<lparr>mem := m1\<rparr>) =
      (if j = i \<and> 2 \<le> i \<and> ld_field ?c (fd_off i FLAGS) s = 1 then None else fd_view ?p j s)"
    and o: "\<And>a. \<not> in_rng ?p 384 a \<Longrightarrow> m1 a = mem s a"
  proof (cases "ld_field ?c (fd_off i FLAGS) s = 1")
    case True
    obtain r tr m where "close_fd (int i) s = Inr (r, s\<lparr>io_trace := tr, mem := m\<rparr>)"
      "\<And>j. j < 8 \<Longrightarrow> fd_view ?p j (s\<lparr>mem := m\<rparr>) = (if j = i \<and> 2 \<le> i then None else fd_view ?p j s)"
      "\<And>a. \<not> in_rng ?p 384 a \<Longrightarrow> m a = mem s a"
      using closing[OF run i] drv by blast
    with True show thesis by (intro that[of m tr]) simp_all
  next
    case False
    show thesis by (rule that[of "mem s" "io_trace s"]) (use False in simp_all)
  qed
  let ?s1 = "s\<lparr>io_trace := tr, mem := m1\<rparr>"
  obtain m where t: "st_field ?c (fd_off i FLAGS) 0 (st_field ?c (fd_off i FOPS) NULL ?s1) = ?s1\<lparr>mem := m\<rparr>"
    and l: "\<And>j. j < 8 \<Longrightarrow> ld_field ?c (fd_off j FLAGS) (?s1\<lparr>mem := m\<rparr>) = (if j = i then 0 else ld_field ?c (fd_off j FLAGS) ?s1)"
    and o2: "\<And>a. \<not> in_rng ?c 384 a \<Longrightarrow> m a = mem ?s1 a"
    using clear_entry[OF i, of ?c ?s1] by blast
  have "halt_file ?c i s = Inr (s\<lparr>io_trace := tr, mem := m\<rparr>)"
    using f t by (simp add: halt_file_def Let_def)
  moreover have "fd_view ?p j (s\<lparr>mem := m\<rparr>) = fd_view ?p j (s\<lparr>mem := m1\<rparr>)" if "j < 8" for j
    by (rule fd_view_cong[OF that]) (rule apart_ld, simp, use o2 apart in auto)
  moreover have "ld_field ?c (fd_off j FLAGS) (s\<lparr>mem := m\<rparr>) = (if j = i then 0 else ld_field ?c (fd_off j FLAGS) s)" if "j < 8" for j
  proof -
    have "ld_field ?c (fd_off j FLAGS) ?s1 = ld_field ?c (fd_off j FLAGS) s"
      by (rule apart_ld) (use that o apart in \<open>auto simp: fd_off_def\<close>)
    then show ?thesis using l[OF that] by (simp add: ld_field_def)
  qed
  moreover have "m a = mem s a" if "\<not> in_rng ?c 384 a \<and> \<not> in_rng ?p 384 a" for a using that o o2 by simp
  ultimately show ?thesis using v by (intro exI[of _ tr] exI[of _ m]) simp
qed

lemma halt_files_eq:
  assumes "proc_runs s" "0 \<le> c" "c < 6" "c \<noteq> cur_pid s" "distinct is" "set is \<subseteq> {..<8}"
    and "\<And>j f n pos. j < 8 \<Longrightarrow> fd_view (find_PCB (cur_pid s)) j s = Some (f, n, pos) \<Longrightarrow>
      f \<in> {terminal_funcs s, rtc_funcs s, fsys_funcs s, dir_funcs s}"
  shows "\<exists>tr m. halt_files (find_PCB c) is s = Inr (s\<lparr>io_trace := tr, mem := m\<rparr>) \<and>
    (\<forall>j < 8. fd_view (find_PCB (cur_pid s)) j (s\<lparr>mem := m\<rparr>) =
      (if j \<in> set is \<and> 2 \<le> j \<and> ld_field (find_PCB c) (fd_off j FLAGS) s = 1 then None else fd_view (find_PCB (cur_pid s)) j s)) \<and>
    (\<forall>j < 8. ld_field (find_PCB c) (fd_off j FLAGS) (s\<lparr>mem := m\<rparr>) =
      (if j \<in> set is then 0 else ld_field (find_PCB c) (fd_off j FLAGS) s)) \<and>
    (\<forall>a. \<not> in_rng (find_PCB c) 384 a \<and> \<not> in_rng (find_PCB (cur_pid s)) 384 a \<longrightarrow> m a = mem s a)"
  using assms
proof (induction "is" arbitrary: s)
  case Nil
  have "s = s\<lparr>io_trace := io_trace s, mem := mem s\<rparr>" by simp
  then show ?case by (intro exI[of _ "io_trace s"] exI[of _ "mem s"]) simp
next
  case (Cons i "is")
  let ?c = "find_PCB c" and ?p = "find_PCB (cur_pid s)"
  have i8: "i < 8" using Cons.prems(6) by simp
  obtain tr1 m1 where h: "halt_file ?c i s = Inr (s\<lparr>io_trace := tr1, mem := m1\<rparr>)"
    and v1: "\<And>j. j < 8 \<Longrightarrow> fd_view ?p j (s\<lparr>mem := m1\<rparr>) =
      (if j = i \<and> 2 \<le> i \<and> ld_field ?c (fd_off i FLAGS) s = 1 then None else fd_view ?p j s)"
    and l1: "\<And>j. j < 8 \<Longrightarrow> ld_field ?c (fd_off j FLAGS) (s\<lparr>mem := m1\<rparr>) = (if j = i then 0 else ld_field ?c (fd_off j FLAGS) s)"
    and o1: "\<And>a. \<not> in_rng ?c 384 a \<and> \<not> in_rng ?p 384 a \<Longrightarrow> m1 a = mem s a"
    using halt_file_eq[OF Cons.prems(1-4) i8] Cons.prems(7) i8 by blast
  let ?s1 = "s\<lparr>io_trace := tr1, mem := m1\<rparr>"
  have e: "fd_view q j (s\<lparr>io_trace := tr, mem := m\<rparr>) = fd_view q j (s\<lparr>mem := m\<rparr>)"
    "ld_field q k (s\<lparr>io_trace := tr, mem := m\<rparr>) = ld_field q k (s\<lparr>mem := m\<rparr>)" for q j k tr m
    by (simp_all add: fd_view_def ld_field_def)
  have drv: "f \<in> {terminal_funcs s, rtc_funcs s, fsys_funcs s, dir_funcs s}" if "j < 8" "fd_view ?p j ?s1 = Some (f, n, pos)" for j f n pos
    using that v1[OF that(1)] Cons.prems(7)[OF that(1)] by (auto simp: e(1) split: if_splits)
  have pr: "proc_runs ?s1" "cur_pid ?s1 = cur_pid s" using Cons.prems(1) by simp_all
  obtain tr m where r: "halt_files ?c is ?s1 = Inr (s\<lparr>io_trace := tr, mem := m\<rparr>)"
    and v: "\<And>j. j < 8 \<Longrightarrow> fd_view ?p j (s\<lparr>mem := m\<rparr>) =
      (if j \<in> set is \<and> 2 \<le> j \<and> ld_field ?c (fd_off j FLAGS) (s\<lparr>mem := m1\<rparr>) = 1 then None else fd_view ?p j (s\<lparr>mem := m1\<rparr>))"
    and l: "\<And>j. j < 8 \<Longrightarrow> ld_field ?c (fd_off j FLAGS) (s\<lparr>mem := m\<rparr>) =
      (if j \<in> set is then 0 else ld_field ?c (fd_off j FLAGS) (s\<lparr>mem := m1\<rparr>))"
    and o: "\<And>a. \<not> in_rng ?c 384 a \<and> \<not> in_rng ?p 384 a \<Longrightarrow> m a = m1 a"
    using Cons.IH[OF pr(1)] Cons.prems(2-6) drv unfolding pr(2) by (auto simp: e)
  have ni: "i \<notin> set is" using Cons.prems(5) by simp
  show ?case
  proof (intro exI[of _ tr] exI[of _ m] conjI allI impI)
    show "halt_files ?c (i # is) s = Inr (s\<lparr>io_trace := tr, mem := m\<rparr>)" using h r by simp
  next
    fix j :: nat assume j: "j < 8"
    show "fd_view ?p j (s\<lparr>mem := m\<rparr>) =
        (if j \<in> set (i # is) \<and> 2 \<le> j \<and> ld_field ?c (fd_off j FLAGS) s = 1 then None else fd_view ?p j s)"
      using v[OF j] v1[OF j] l1[OF j] ni by auto
    show "ld_field ?c (fd_off j FLAGS) (s\<lparr>mem := m\<rparr>) = (if j \<in> set (i # is) then 0 else ld_field ?c (fd_off j FLAGS) s)"
      using l[OF j] l1[OF j] by auto
  next
    fix a assume "\<not> in_rng ?c 384 a \<and> \<not> in_rng ?p 384 a"
    then show "m a = mem s a" using o o1 by simp
  qed
qed

lemma delete_process_eq:
  assumes "kernel_mapped s" "0 \<le> c" "c < 6" "unat (display_terminal s) < 3"
  shows "\<exists>t. delete_process c s = Inr (0, t) \<and>
    t = s\<lparr>procs := procs t, process_count := process_count t, running_procs := running_procs t, term_procs := term_procs t\<rparr> \<and>
    running_procs t = (running_procs s)[unat (display_terminal s) := sint (ld_field (find_PCB c) PAR_P_ID s)]"
proof -
  let ?u = "s\<lparr>procs := (procs s)[nat c := 0], term_procs := (term_procs s)[nat c := - 1], process_count := process_count s - 1\<rparr>"
  have low: "low_mapped s" using assms(1) by (simp add: kernel_mapped_def)
  have "kernel_mapped ?u" using walk_cong(3)[OF low, of ?u] assms(1) by simp
  then have "deref (find_PCB c) ?u = Inr (find_PCB c)" using deref_PCB assms(2,3) by blast
  then show ?thesis
    using assms(2-4) by (simp add: delete_process_def remove_term_process_def Let_def) (simp add: ld_field_def)
qed

lemma pcb_above: "0 \<le> q \<Longrightarrow> q < 6 \<Longrightarrow> in_rng (find_PCB q) 8192 a \<Longrightarrow> 0x400000 \<le> unat a"
  using unat_find_PCB[of q] in_rng_unat[of "find_PCB q" 8192 a] by auto

lemma sint_pid: "0 \<le> p \<Longrightarrow> p < 6 \<Longrightarrow> sint (word_of_int p :: u32) = p"
  using pid_cases by fastforce

text \<open>\<open>halt\<close> up to the process table: the parent's page, its kernel stack, and the child's slot given up.\<close>

definition halt_end :: "u8 \<Rightarrow> u32 \<Rightarrow> u32 \<Rightarrow> 'a kernel_scheme \<Rightarrow> flow \<times> 'a kernel_scheme" where
  "halt_end status esp ebp s =
    (Exec_Ret status, (putc 10 (if vidmap_called s \<noteq> 0 then snd (map_v_p USER_VIDMAP 0 0 1 1 s) else s))
      \<lparr>reg_esp := esp, reg_ebp := ebp\<rparr>)"

lemma halt_to_parent:
  assumes run: "proc_runs s" and tab: "table_ok s" "procs s ! nat (cur_pid s) \<noteq> 0" "length (running_procs s) = 3"
    and disp: "display_terminal s = running_terminal s" and par: "0 \<le> par" "par < 6"
    and ids: "ld_field (find_PCB (cur_pid s)) P_ID s = word_of_int (cur_pid s)"
      "ld_field (find_PCB (cur_pid s)) PAR_P_ID s = word_of_int par" "ld_field (find_PCB par) P_ID s = word_of_int par"
  shows "\<exists>u. halt status s = sbind (halt_files (find_PCB (cur_pid s)) [0..<8] u)
      (\<lambda>s'. Inr (halt_end status (ld_field (find_PCB par) ESP s) (ld_field (find_PCB par) EBP s) s')) \<and>
    u = s\<lparr>page_dir := page_dir u, tss_esp0 := find_PCB (par - 1) - 4, procs := (procs s)[nat (cur_pid s) := 0],
      process_count := process_count s - 1, running_procs := (running_procs s)[unat (running_terminal s) := par],
      term_procs := term_procs u\<rparr> \<and>
    kernel_mapped u \<and> own_frame par u \<and> table_ok u"
proof -
  let ?c = "find_PCB (cur_pid s)" and ?p = "find_PCB par" and ?d = "unat (running_terminal s)"
  have km: "kernel_mapped s" and c: "0 \<le> cur_pid s" "cur_pid s < 6" "?d < 3" using run by (simp_all add: proc_runs_def)
  have pp: "sint (ld_field ?c PAR_P_ID s) = par" "sint (ld_field ?c P_ID s) = cur_pid s"
    using ids sint_pid par c by simp_all
  obtain pd where pd: "snd (map_v_p 0x8000000 (user_frame par) 1 1 1 s) = s\<lparr>page_dir := pd\<rparr>"
    "kernel_mapped (s\<lparr>page_dir := pd\<rparr>)"
    "\<forall>q < 0x400000. walk (s\<lparr>page_dir := pd\<rparr>) (0x8000000 + q) = Some (user_frame par + q, True, True)"
    using map_user_page[OF km par(1,2)] by blast
  define s2 where "s2 = s\<lparr>page_dir := pd, tss_esp0 := find_PCB (par - 1) - 4\<rparr>"
  have low1: "low_mapped (s\<lparr>page_dir := pd\<rparr>)" using pd(2) by (simp add: kernel_mapped_def)
  have w2: "walk s2 = walk (s\<lparr>page_dir := pd\<rparr>)" "kernel_mapped s2"
    using walk_cong(1,3)[OF low1, of s2] pd(2) by (simp_all add: s2_def)
  have s2e: "s\<lparr>page_dir := pd, tss_esp0 := 0x7FFFFC - word_of_int par * 0x2000\<rparr> = s2"
    "ld_field q k (s\<lparr>page_dir := pd\<rparr>) = ld_field q k s" "ld_field q k s2 = ld_field q k s" for q k
    by (simp_all add: s2_def ld_field_def find_PCB_def algebra_simps)
  obtain u where u: "delete_process (cur_pid s) s2 = Inr (0, u)"
    "u = s2\<lparr>procs := procs u, process_count := process_count u, running_procs := running_procs u, term_procs := term_procs u\<rparr>"
    "running_procs u = (running_procs s)[?d := par]"
    using delete_process_eq[OF w2(2) c(1,2)] c(3) disp pp(1) by (auto simp: s2_def ld_field_def)
  have tab2: "table_ok s2" using tab(1) by (simp add: table_ok_def num_used_def s2_def)
  have t: "table_ok u" "procs u = (procs s)[nat (cur_pid s) := 0]" "process_count u = process_count s - 1"
    using delete_process_ok[OF tab2 u(1) c(1,2)] tab(2) by (simp_all add: s2_def)
  have low2: "low_mapped s2" using w2(2) by (simp add: kernel_mapped_def)
  have fr: "page_dir u = page_dir s2" "page_table u = page_table s2" "page_table_addr u = page_table_addr s2"
    by (subst u(2), simp)+
  have w: "walk u = walk s2" "kernel_mapped u"
    using walk_cong(1,3)[OF low2, of u] w2(2) fr by simp_all
  have uf: "0x800000 + word_of_int par * 0x400000 = user_frame par" by (simp add: user_frame_def)
  have "halt status s = sbind (halt_files ?c [0..<8] u) (\<lambda>s'. Inr (halt_end status (ld_field ?p ESP s) (ld_field ?p EBP s) s'))"
    using current_pcb_eq(3)[OF run] pp deref_PCB[OF km par(1,2)] par(1) pd(1) ids(3) u(1)
    by (simp add: halt_def uf s2e Let_def flush_tlb_def halt_end_def)
  moreover have "own_frame par u" using pd(3) w(1) w2(1) by (simp add: own_frame_def)
  moreover have "page_dir u = pd" using fr(1) by (simp add: s2_def)
  ultimately show ?thesis using w(2) t u(2,3) by (intro exI[of _ u]) (simp add: s2_def)
qed

text \<open>The rest of \<open>halt\<close>: the video page of the program is taken away and a line feed printed.\<close>

lemma halt_end_eq:
  assumes km: "kernel_mapped s" and scr: "on_screen s"
  obtains t where "halt_end status esp ebp s = (Exec_Ret status, t)"
    "t = s\<lparr>page_dir := page_dir t, page_table := page_table t, mem := mem t, io_trace := io_trace t, wrapped := wrapped t,
      current_line := current_line t, screen_x := screen_x t, screen_y := screen_y t, reg_esp := esp, reg_ebp := ebp\<rparr>"
    "kernel_mapped t" "\<And>a. drop_bit 12 a \<noteq> 0xF8 \<Longrightarrow> walk t a = walk s a"
    "\<And>a. \<not> in_rng (video_mem s) 4000 a \<Longrightarrow> mem t a = mem s a"
proof -
  define s5 where "s5 = (if vidmap_called s \<noteq> 0 then snd (map_v_p USER_VIDMAP 0 0 1 1 s) else s)"
  obtain pd5 pt5 where s5: "s5 = s\<lparr>page_dir := pd5, page_table := pt5\<rparr>" "kernel_mapped s5"
    "\<And>a. drop_bit 12 a \<noteq> 0xF8 \<Longrightarrow> walk s5 a = walk s a"
  proof (cases "vidmap_called s = 0")
    case True
    show thesis by (rule that[of "page_table s" "page_dir s"]) (use True km in \<open>simp_all add: s5_def\<close>)
  next
    case False
    with map_vidmap_page[OF km, of 0] that show thesis by (auto simp: s5_def)
  qed
  have on5: "on_screen s5" using scr by (simp add: s5(1) on_screen_def)
  define s6 where "s6 = putc 10 s5"
  have c6: "con_step s5 s6" unfolding s6_def by (rule con_step_putc[OF on5])
  define u6 where "u6 = s5\<lparr>mem := mem s6, io_trace := io_trace s6, wrapped := wrapped s6, current_line := current_line s6,
      screen_x := screen_x s6, screen_y := screen_y s6\<rparr>"
  have eq6: "s6 = u6" and m6: "\<And>a. \<not> in_rng (video_mem s) 4000 a \<Longrightarrow> mem s6 a = mem s a"
    using c6 by (simp_all add: con_step_def u6_def s5(1))
  define t where "t = u6\<lparr>reg_esp := esp, reg_ebp := ebp\<rparr>"
  have low5: "low_mapped s5" using s5(2) by (simp add: kernel_mapped_def)
  have wt: "walk t = walk s5" "kernel_mapped t" using walk_cong(1,3)[OF low5, of t] s5(2) by (simp_all add: t_def u6_def)
  have "halt_end status esp ebp s = (Exec_Ret status, t)"
    by (simp add: halt_end_def t_def eq6[symmetric] s6_def s5_def)
  then show thesis
    by (rule that) (use wt s5(3) m6 in \<open>simp_all add: t_def u6_def s5(1) eq6[symmetric]\<close>)
qed

lemma not_video_page: "q < 0x400000 \<Longrightarrow> drop_bit 12 (0x8000000 + q) \<noteq> 0xF8" for q :: u32
proof
  assume "q < 0x400000" "drop_bit 12 (0x8000000 + q) = 0xF8"
  then have "drop_bit 10 (drop_bit 12 (0x8000000 + q)) = drop_bit 10 (0xF8 :: u32)" by simp
  with user_page_index[OF \<open>q < 0x400000\<close>] show False by simp
qed

text \<open>All descriptors of the child \<open>c\<close>, with its parent current.\<close>

lemma halt_all_files:
  assumes "proc_runs s" "0 \<le> c" "c < 6" "c \<noteq> cur_pid s"
    and "\<And>j f n pos. j < 8 \<Longrightarrow> fd_view (find_PCB (cur_pid s)) j s = Some (f, n, pos) \<Longrightarrow>
      f \<in> {terminal_funcs s, rtc_funcs s, fsys_funcs s, dir_funcs s}"
  obtains tr m where "halt_files (find_PCB c) [0..<8] s = Inr (s\<lparr>io_trace := tr, mem := m\<rparr>)"
    "\<And>j. j < 8 \<Longrightarrow> fd_view (find_PCB (cur_pid s)) j (s\<lparr>mem := m\<rparr>) =
      (if 2 \<le> j \<and> ld_field (find_PCB c) (fd_off j FLAGS) s = 1 then None else fd_view (find_PCB (cur_pid s)) j s)"
    "\<And>j. j < 8 \<Longrightarrow> ld_field (find_PCB c) (fd_off j FLAGS) (s\<lparr>mem := m\<rparr>) = 0"
proof -
  have sub: "set [0..<8] \<subseteq> {..<8 :: nat}" by auto
  obtain tr m where h: "halt_files (find_PCB c) [0..<8] s = Inr (s\<lparr>io_trace := tr, mem := m\<rparr>)"
    "\<And>j. j < 8 \<Longrightarrow> fd_view (find_PCB (cur_pid s)) j (s\<lparr>mem := m\<rparr>) =
      (if j \<in> set [0..<8] \<and> 2 \<le> j \<and> ld_field (find_PCB c) (fd_off j FLAGS) s = 1 then None else fd_view (find_PCB (cur_pid s)) j s)"
    "\<And>j. j < 8 \<Longrightarrow> ld_field (find_PCB c) (fd_off j FLAGS) (s\<lparr>mem := m\<rparr>) =
      (if j \<in> set [0..<8] then 0 else ld_field (find_PCB c) (fd_off j FLAGS) s)"
    using halt_files_eq[OF assms(1-4) distinct_upt sub] assms(5) by blast
  then show thesis by (intro that[OF h(1)]) simp_all
qed

text \<open>The screen is below the control blocks.\<close>

lemma ld_field_screen:
  assumes "0 \<le> q" "q < 6" "k + 4 \<le> 8192" "\<And>a. in_rng v 4000 a \<Longrightarrow> unat a < 0x400000"
    and "\<And>a. \<not> in_rng v 4000 a \<Longrightarrow> mem t a = mem s a"
  shows "ld_field (find_PCB q) k t = ld_field (find_PCB q) k s"
proof (rule ld_field_cong)
  fix a assume "in_rng (find_PCB q + of_nat k) 4 a"
  then have "in_rng (find_PCB q) 8192 a" by (rule in_rng_offset) (use assms(3) in simp_all)
  then have "0x400000 \<le> unat a" using assms(1,2) pcb_above by blast
  then have "\<not> in_rng v 4000 a" using assms(4) by force
  then show "mem t a = mem s a" by (rule assms(5))
qed (rule assms(3))

text \<open>
  C4: ending a program. \<open>halt\<close> of a process with a parent ends in the jump back into the \<open>execute\<close>
  that started it, with the status, the stack registers that the parent saved, the parent's page in
  the program's address range and the kernel stack of the parent for the next interrupt. The parent is the
  foremost process of the terminal again, the slot of the child is free and the table consistent.
  No descriptor of the child stays open. The parent, however, loses every descriptor from 2 on
  that was open under the same number in the child: the files are closed after the process table
  was updated, so that \<open>close\<close> works on the parent.
\<close>

theorem halt_returns:
  assumes run: "proc_runs s" and tab: "table_ok s" "procs s ! nat (cur_pid s) \<noteq> 0" "length (running_procs s) = 3"
    and disp: "display_terminal s = running_terminal s" and par: "0 \<le> par" "par < 6" "par \<noteq> cur_pid s"
    and ids: "ld_field (find_PCB (cur_pid s)) P_ID s = word_of_int (cur_pid s)"
      "ld_field (find_PCB (cur_pid s)) PAR_P_ID s = word_of_int par" "ld_field (find_PCB par) P_ID s = word_of_int par"
    and drv: "\<And>j f n pos. j < 8 \<Longrightarrow> fd_view (find_PCB par) j s = Some (f, n, pos) \<Longrightarrow>
      f \<in> {terminal_funcs s, rtc_funcs s, fsys_funcs s, dir_funcs s}"
    and scr: "on_screen s" "\<And>a. in_rng (video_mem s) 4000 a \<Longrightarrow> unat a < 0x400000"
  shows "\<exists>t. halt status s = Inr (Exec_Ret status, t) \<and>
    reg_esp t = ld_field (find_PCB par) ESP s \<and> reg_ebp t = ld_field (find_PCB par) EBP s \<and>
    own_frame par t \<and> kernel_mapped t \<and> tss_esp0 t = find_PCB (par - 1) - 4 \<and>
    cur_pid t = par \<and> procs t = (procs s)[nat (cur_pid s) := 0] \<and> process_count t = process_count s - 1 \<and> table_ok t \<and>
    (\<forall>j < 8. fd_view (find_PCB (cur_pid s)) j t = None) \<and>
    (\<forall>j < 8. fd_view (find_PCB par) j t =
      (if 2 \<le> j \<and> ld_field (find_PCB (cur_pid s)) (fd_off j FLAGS) s = 1 then None else fd_view (find_PCB par) j s))"
proof -
  let ?c = "find_PCB (cur_pid s)" and ?p = "find_PCB par" and ?d = "unat (running_terminal s)"
  have c: "0 \<le> cur_pid s" "cur_pid s < 6" "?d < 3" using run by (simp_all add: proc_runs_def)
  obtain u where h1: "halt status s = sbind (halt_files ?c [0..<8] u) (\<lambda>s'. Inr (halt_end status (ld_field ?p ESP s) (ld_field ?p EBP s) s'))"
    and equ: "u = s\<lparr>page_dir := page_dir u, tss_esp0 := find_PCB (par - 1) - 4, procs := (procs s)[nat (cur_pid s) := 0],
      process_count := process_count s - 1, running_procs := (running_procs s)[?d := par], term_procs := term_procs u\<rparr>"
    and u: "kernel_mapped u" "own_frame par u" "table_ok u"
    using halt_to_parent[OF run tab disp par(1,2) ids] by blast
  have f: "mem u = mem s" "running_terminal u = running_terminal s" "terminal_funcs u = terminal_funcs s"
    "rtc_funcs u = rtc_funcs s" "fsys_funcs u = fsys_funcs s" "dir_funcs u = dir_funcs s" "video_mem u = video_mem s"
    "screen_x u = screen_x s" "screen_y u = screen_y s" "tss_esp0 u = find_PCB (par - 1) - 4"
    "procs u = (procs s)[nat (cur_pid s) := 0]" "process_count u = process_count s - 1"
    "running_procs u = (running_procs s)[?d := par]" "display_terminal u = display_terminal s"
    by (subst equ, simp)+
  have cp: "cur_pid u = par" using c(3) tab(3) by (simp add: cur_pid_def f)
  have runu: "proc_runs u" using u(1) par cp c(3) disp by (simp add: proc_runs_def f)
  have v: "fd_view q j u = fd_view q j s" "ld_field q k u = ld_field q k s" for q j k
    by (simp_all add: fd_view_def ld_field_def f)
  have ne: "cur_pid s \<noteq> cur_pid u" using par(3) cp by simp
  obtain tr m where h: "halt_files ?c [0..<8] u = Inr (u\<lparr>io_trace := tr, mem := m\<rparr>)"
    and v4: "\<And>j. j < 8 \<Longrightarrow> fd_view ?p j (u\<lparr>mem := m\<rparr>) = (if 2 \<le> j \<and> ld_field ?c (fd_off j FLAGS) s = 1 then None else fd_view ?p j s)"
    and l4: "\<And>j. j < 8 \<Longrightarrow> ld_field ?c (fd_off j FLAGS) (u\<lparr>mem := m\<rparr>) = 0"
    by (rule halt_all_files[OF runu c(1,2) ne, unfolded cp v f]) (use drv in blast)+
  define s4 where "s4 = u\<lparr>io_trace := tr, mem := m\<rparr>"
  have low: "low_mapped u" using u(1) by (simp add: kernel_mapped_def)
  have w4: "walk s4 = walk u" "kernel_mapped s4" using walk_cong(1,3)[OF low, of s4] u(1) by (simp_all add: s4_def)
  have on4: "on_screen s4" using scr(1) by (simp add: s4_def on_screen_def f)
  obtain t where t: "halt_end status (ld_field ?p ESP s) (ld_field ?p EBP s) s4 = (Exec_Ret status, t)"
    and eqt: "t = s4\<lparr>page_dir := page_dir t, page_table := page_table t, mem := mem t, io_trace := io_trace t, wrapped := wrapped t,
      current_line := current_line t, screen_x := screen_x t, screen_y := screen_y t,
      reg_esp := ld_field ?p ESP s, reg_ebp := ld_field ?p EBP s\<rparr>"
    and kt: "kernel_mapped t" "\<And>a. drop_bit 12 a \<noteq> 0xF8 \<Longrightarrow> walk t a = walk s4 a"
      "\<And>a. \<not> in_rng (video_mem s4) 4000 a \<Longrightarrow> mem t a = mem s4 a"
    by (rule halt_end_eq[OF w4(2) on4, of status "ld_field ?p ESP s" "ld_field ?p EBP s"]) (rule that)
  have mt: "mem t a = mem (u\<lparr>mem := m\<rparr>) a" if "\<not> in_rng (video_mem s) 4000 a" for a
    using kt(3) that by (simp add: s4_def f)
  note lt = ld_field_screen[OF _ _ _ scr(2) mt]
  have vt: "fd_view ?p j t = fd_view ?p j (u\<lparr>mem := m\<rparr>)" if "j < 8" for j
    by (rule fd_view_cong[OF that]) (rule lt, use par in simp_all)
  have "fd_view ?c j t = None" if "j < 8" for j
    unfolding fd_view_used using l4[OF that] lt[OF c(1,2), of "fd_off j FLAGS"] that by (simp add: fd_off_def)
  moreover have "own_frame par t" using u(2) kt(2) not_video_page by (simp add: own_frame_def w4(1))
  moreover have "procs t = procs u" "process_count t = process_count u" "running_procs t = running_procs u"
    "running_terminal t = running_terminal u" "display_terminal t = display_terminal u" "tss_esp0 t = tss_esp0 u" "term_procs t = term_procs u"
    "reg_esp t = ld_field ?p ESP s" "reg_ebp t = ld_field ?p EBP s"
    by (subst eqt, simp add: s4_def)+
  moreover from this have "table_ok t" "cur_pid t = par" using u(3) cp by (simp_all add: table_ok_def num_used_def cur_pid_def)
  ultimately show ?thesis using h1 h t kt(1) vt v4 f by (intro exI[of _ t]) (simp add: s4_def)
qed


section \<open>Refused calls\<close>

text \<open>
  The requests that are refused without any effect: an unknown number, a descriptor out of
  range, closed or of the wrong direction, a negative length, a null buffer, a name that \<open>open\<close>
  refuses, arguments that are empty or do not fit, a pointer outside of the program for \<open>vidmap\<close>, and
  the two calls for signals.
\<close>

definition closed_fd :: "int \<Rightarrow> 'a kernel_scheme \<Rightarrow> bool" where
  "closed_fd fd s \<longleftrightarrow> fd < 0 \<or> fd > 7 \<or> fd_view (find_PCB (cur_pid s)) (nat fd) s = None"

definition refused :: "u32 \<Rightarrow> u32 \<Rightarrow> u32 \<Rightarrow> u32 \<Rightarrow> 'a kernel_scheme \<Rightarrow> bool" where
  "refused a b c d s \<longleftrightarrow>
    a = 0 \<or> a > 10 \<or>
    a = 3 \<and> (c = NULL \<or> sint b = 1 \<or> sint d < 0 \<or> closed_fd (sint b) s) \<or>
    a = 4 \<and> (c = NULL \<or> sint b = 0 \<or> sint d < 0 \<or> closed_fd (sint b) s) \<or>
    a = 5 \<and> open_refused b s \<or>
    a = 6 \<and> (sint b < 2 \<or> closed_fd (sint b) s) \<or>
    a = 7 \<and> (b = NULL \<or> string_length (mem s) (find_PCB (cur_pid s) + 384) = 0 \<or>
      word_of_int (string_length (mem s) (find_PCB (cur_pid s) + 384) + 1) > c) \<or>
    a = 8 \<and> (b < 0x8048000 \<or> b \<ge> 0x8400000) \<or>
    a = 9 \<or> a = 10"

text \<open>A command line whose first word is not the name of a file.\<close>

definition unknown_command :: "exec_locals \<Rightarrow> ptr \<Rightarrow> 'a kernel_scheme \<Rightarrow> bool" where
  "unknown_command loc cmd s \<longleftrightarrow> exec_layout loc s \<and> fs_wf s \<and> unat (inode_count (boot_block s)) \<le> 63 \<and>
    (\<exists>p line w ws. command_arg loc cmd p line s \<and> arg_words line = w # ws \<and> lookup_name w s = None)"

lemma sti_same:
  "lin p (sti s) = lin p s" "lookup_name nm (sti s) = lookup_name nm s" "open_refused f (sti s) = open_refused f s"
  "unknown_command loc f (sti s) = unknown_command loc f s"
proof -
  have w: "walk (sti s) a = walk s a" for a by (simp add: sti_def walk_def Let_def)
  show l: "lin p (sti s) = lin p s" for p by (simp add: lin_def deref_def w)
  show n: "lookup_name nm (sti s) = lookup_name nm s" for nm by (simp add: sti_def lookup_name_def)
  have f: "mem (sti s) = mem s" "boot_block (sti s) = boot_block s" "elf_str (sti s) = elf_str s" "in_image (sti s) = in_image s"
    "fs_wf (sti s) = fs_wf s" "cur_pid (sti s) = cur_pid s" "fd_view pcb j (sti s) = fd_view pcb j s" for pcb j
    by (simp_all add: sti_def in_image_def image_size_def fs_wf_def cur_pid_def fd_view_def ld_field_def fun_eq_iff)
  show "open_refused f (sti s) = open_refused f s" unfolding open_refused_def l n f ..
  show "unknown_command loc f (sti s) = unknown_command loc f s"
    unfolding unknown_command_def exec_layout_def command_arg_def l n f ..
qed

lemma refused_cases:
  assumes "proc_runs s"
  shows "c = NULL \<or> sint b = 1 \<or> sint d < 0 \<or> closed_fd (sint b) s \<Longrightarrow>
      read_fd env (sint b) c (sint d) s = Some (Inr (Returned (- 1), s))"
    and "c = NULL \<or> sint b = 0 \<or> sint d < 0 \<or> closed_fd (sint b) s \<Longrightarrow>
      write_fd env (sint b) c (sint d) s = Some (Inr (Returned (- 1), s))"
    and "sint b < 2 \<or> closed_fd (sint b) s \<Longrightarrow> close_fd (sint b) s = Inr (- 1, s)"
  using current_pcb_eq[OF assms]
  by (auto simp: closed_fd_def read_fd_def write_fd_def close_fd_def fd_view_used lift_def)

lemma refused_call:
  assumes "proc_runs s" "refused a b c d s"
  shows "sys_call env a b c d s = Some (Inr (Returned (- 1), sti s))"
proof -
  let ?s = "sti s"
  have run: "proc_runs ?s" using assms(1) walk_cong(3)[of s ?s]
    by (simp add: proc_runs_def kernel_mapped_def sti_def cur_pid_def)
  have same: "fd_view p i ?s = fd_view p i s" "cur_pid ?s = cur_pid s" "mem ?s = mem s" for p i
    by (simp_all add: fd_view_def ld_field_def sti_def cur_pid_def)
  have cl: "closed_fd f ?s = closed_fd f s" for f by (simp add: closed_fd_def same)
  note r = refused_cases[OF run, unfolded cl]
  consider "a = 0 \<or> a > 10" | "a = 9 \<or> a = 10" | "a = 8" "b < 0x8048000 \<or> b \<ge> 0x8400000"
    | "a = 3" "c = NULL \<or> sint b = 1 \<or> sint d < 0 \<or> closed_fd (sint b) s"
    | "a = 4" "c = NULL \<or> sint b = 0 \<or> sint d < 0 \<or> closed_fd (sint b) s"
    | "a = 6" "sint b < 2 \<or> closed_fd (sint b) s" | "a = 5" "open_refused b s"
    | "a = 7" "b = NULL \<or> string_length (mem s) (find_PCB (cur_pid s) + 384) = 0 \<or>
        word_of_int (string_length (mem s) (find_PCB (cur_pid s) + 384) + 1) > c"
    using assms(2) unfolding refused_def by blast
  then show ?thesis
  proof cases
    case 1
    then have "a < 1 \<or> a > 10" by (auto simp: word_less_nat_alt)
    then show ?thesis by (auto simp: sys_call_def)
  next
    case 3
    then have "vidmap b ?s = Inr (- 1, ?s)" by (auto simp: vidmap_def)
    with 3(1) show ?thesis by (simp add: sys_call_def lift_def)
  next
    case 8
    then have "getargs (conv_buf (env_loc env)) b c ?s = Some (Inr (- 1, ?s))"
      using current_pcb_eq(3)[OF run] by (auto simp: getargs_def lift_def same)
    with 8(1) show ?thesis by (simp add: sys_call_def)
  next
    case 7
    then have "open_fd b ?s = Inr (- 1, ?s)" using open_refused_eq[OF run] by (simp add: sti_same)
    with 7(1) show ?thesis by (simp add: sys_call_def lift_def)
  next
    case 4
    then show ?thesis using r(1)[OF 4(2)] by (simp add: sys_call_def)
  next
    case 5
    then show ?thesis using r(2)[OF 5(2)] by (simp add: sys_call_def)
  next
    case 6
    then show ?thesis using r(3)[OF 6(2)] by (simp add: sys_call_def lift_def)
  qed (auto simp: sys_call_def set_handler_def sigreturn_def)
qed

text \<open>
  C12: refused system calls. The requests in \<open>refused\<close> (unknown numbers, bad descriptors, negative
  lengths, null buffers, names that cannot be opened, arguments that are empty or do not fit, pointers that
  \<open>vidmap\<close> does not admit, signals) are answered with -1, without a fault and with no effect but that
  interrupts are enabled. \<open>execute\<close> with a command that does not exist is answered with -1 too and
  writes only its local variables. Not refused, and not covered, are a blank command line, which
  \<open>execute\<close> answers with 0 (\<open>execute_blank\<close>), and pointers to memory that is not mapped or belongs
  to the kernel, which are used as they are.
\<close>

theorem sys_call_refuses:
  assumes "proc_runs s"
  shows "(refused a b c d s \<longrightarrow> sys_call env a b c d s = Some (Inr (Returned (- 1), sti s))) \<and>
    (unknown_command (env_loc env) b s \<longrightarrow>
      (\<exists>m. sys_call env 2 b c d s = Some (Inr (Returned (- 1), (sti s)\<lparr>mem := m\<rparr>)) \<and>
        (\<forall>x. \<not> in_locals (env_loc env) x \<longrightarrow> m x = mem s x)))"
proof (intro conjI impI)
  assume "unknown_command (env_loc env) b s"
  then have "unknown_command (env_loc env) b (sti s)" by (simp add: sti_same)
  then obtain p line w ws where u: "exec_layout (env_loc env) (sti s)" "fs_wf (sti s)" "unat (inode_count (boot_block (sti s))) \<le> 63"
    "command_arg (env_loc env) b p line (sti s)" "arg_words line = w # ws" "lookup_name w (sti s) = None"
    unfolding unknown_command_def by blast
  obtain m where "execute (env_loc env) b (sti s) = Some (Inr (Ret (- 1), (sti s)\<lparr>mem := m\<rparr>))"
    "\<forall>x. \<not> in_locals (env_loc env) x \<longrightarrow> m x = mem (sti s) x"
    using execute_unknown[OF u(1,4,5,2,3,6)] by blast
  then show "\<exists>m. sys_call env 2 b c d s = Some (Inr (Returned (- 1), (sti s)\<lparr>mem := m\<rparr>)) \<and>
      (\<forall>x. \<not> in_locals (env_loc env) x \<longrightarrow> m x = mem s x)"
    by (auto simp: sys_call_def leaves_def sti_def)
qed (rule refused_call[OF assms])

text \<open>The example kernel with a command line that names no file.\<close>

definition demo_none :: kernel where
  "demo_none = demo_exec\<lparr>mem := wr_bytes demo_xmem 0x600100 (asc ''none'' @ [0])\<rparr>"

lemma demo_none_refused: "proc_runs demo_none" "open_refused 0x600100 demo_none" "unknown_command demo_locals 0x600100 demo_none"
proof -
  have c: "cstr (mem demo_none) 0x600100 (asc ''none'')"
    unfolding demo_none_def by simp (rule cstr_wr_bytes, simp_all add: asc_def of_char_def)
  have km: "kernel_mapped demo_none" using demo_kernel_mapped by (simp add: demo_none_def demo_exec_def)
  then show "proc_runs demo_none" using demo_cur(1) by (simp add: demo_none_def demo_exec_def proc_runs_def cur_pid_def)
  have l: "lin 0x600100 demo_none = Inr 0x600100" using deref_kernel[OF km, of "0x600100"] by (simp add: lin_def)
  have n: "lookup_name (asc ''none'') demo_none = None"
    by (simp add: demo_none_def demo_exec_def lookup_name_def named_def dname_def demo_dentry_def asc_def of_char_def)
  have f: "fs_wf demo_none" "exec_layout demo_locals demo_none"
    using demo_program(1) demo_layout by (simp_all add: demo_none_def fs_wf_def exec_layout_def in_image_def image_size_def)
  have b: "unat (inode_count (boot_block demo_none)) \<le> 63" by (simp add: demo_none_def demo_exec_def)
  show "open_refused 0x600100 demo_none"
    unfolding open_refused_def using f(1) b l c n by (auto simp: fs_wf_def asc_def intro!: exI[of _ "asc ''none''"])
  have "arg_words (asc ''none'') = [asc ''none'']" by (simp add: asc_def of_char_def)
  moreover have "command_arg demo_locals 0x600100 0x600100 (asc ''none'') demo_none"
    using l c demo_command by (simp add: command_arg_def asc_def)
  ultimately show "unknown_command demo_locals 0x600100 demo_none"
    unfolding unknown_command_def using f b n by blast
qed

theorem sys_call_refuses_witness:
  "\<exists>env t. sys_call env 5 0x600100 0 0 demo_none = Some (Inr (Returned (- 1), sti demo_none)) \<and>
    sys_call env 2 0x600100 0 0 demo_none = Some (Inr (Returned (- 1), t)) \<and>
    sys_call env 3 5 0x600000 10 demo_kernel = Some (Inr (Returned (- 1), sti demo_kernel)) \<and>
    sys_call env 11 0 0 0 demo_kernel = Some (Inr (Returned (- 1), sti demo_kernel)) \<and>
    sys_call env 7 0x600000 100 0 demo_kernel = Some (Inr (Returned (- 1), sti demo_kernel))"
proof -
  have "refused 3 5 0x600000 10 demo_kernel"
    by (simp add: refused_def closed_fd_def demo_cur fd_view_used demo_fds fd_off_def)
  moreover have "refused 11 0 0 0 demo_kernel" by (simp add: refused_def)
  moreover have "string_length demo_kmem 0x7FE180 = 0"
    using string_length_cstr[of demo_kmem "0x7FE180" "[]"] demo_zero[of "0x7FE180"] by simp
  then have "refused 7 0x600000 100 0 demo_kernel" by (simp add: refused_def demo_cur)
  moreover have "refused 5 0x600100 0 0 demo_none" using demo_none_refused(2) by (simp add: refused_def)
  moreover have "env_loc \<lparr>env_loc = demo_locals, prompt_str = 0, read_buffer = 0, write_buffer = 0, arrivals = []\<rparr> = demo_locals" by simp
  ultimately show ?thesis
    using sys_call_refuses[OF demo_cur(3)] sys_call_refuses[OF demo_none_refused(1)] demo_none_refused(3) by metis
qed

section \<open>A program and its parent\<close>

text \<open>A child 1 of process 0 on terminal 0; descriptor 2 is open in both.\<close>

definition demo_fmem :: mem where
  "demo_fmem = st32 (st32 (st32 (st32 demo_kmem 0x7FC200 1) 0x7FC06C 1) 0x7FE06C 1) 0x7FE060 0x410020"

definition demo_family :: kernel where
  "demo_family = demo_kernel\<lparr>mem := demo_fmem, running_procs := [1, - 1, - 1], procs := [1, 1, 0, 0, 0, 0],
     term_procs := [0, 0, - 1, - 1, - 1, - 1], process_count := 2\<rparr>"

lemma ld32_apart:
  assumes "unat p + 4 \<le> unat q \<or> unat q + 4 \<le> unat p" "unat p + 4 \<le> 4294967296" "unat q + 4 \<le> 4294967296"
  shows "ld32 (st32 m p w) q = ld32 m q"
  using assms by (intro ld32_cong st32_out) (auto simp: in_rng_unat)

lemma demo_unused: "0x600010 \<le> unat a \<Longrightarrow> unat a + 4 \<le> 0x800000 \<Longrightarrow> ld32 demo_kmem a = 0"
  using demo_zero[of a] demo_zero[of "a + 1"] demo_zero[of "a + 2"] demo_zero[of "a + 3"]
  by (simp add: ld32_def unat_word_ariths)

lemma demo_family_fields:
  "ld_field 0x7FC000 P_ID demo_family = 1" "ld_field 0x7FC000 PAR_P_ID demo_family = 0"
  "ld_field 0x7FE000 P_ID demo_family = 0" "ld_field 0x7FC000 (fd_off 2 FLAGS) demo_family = 1"
  "fd_view 0x7FE000 2 demo_family = Some (0x410020, 0, 0)"
  "j < 8 \<Longrightarrow> j \<noteq> 2 \<Longrightarrow> fd_view 0x7FE000 j demo_family = None"
proof -
  show "fd_view 0x7FE000 j demo_family = None" if "j < 8" "j \<noteq> 2"
  proof -
    have "j \<in> {0, 1, 3, 4, 5, 6, 7}" using that by auto
    then show ?thesis
      by (auto simp: fd_view_def fd_off_def ld_field_def demo_family_def demo_fmem_def ld32_apart demo_unused)
  qed
qed (simp_all add: fd_view_def fd_off_def ld_field_def demo_family_def demo_fmem_def ld32_apart demo_unused)

theorem halt_returns_witness:
  "\<exists>t. halt 5 demo_family = Inr (Exec_Ret 5, t) \<and> cur_pid t = 0 \<and> procs t = [1, 0, 0, 0, 0, 0] \<and>
    fd_view (find_PCB 0) 2 demo_family = Some (0x410020, 0, 0) \<and> fd_view (find_PCB 0) 2 t = None"
proof -
  have km: "kernel_mapped demo_family"
    using walk_cong(3)[OF demo_kernel_walk(1), of demo_family] demo_kernel_mapped by (simp add: demo_family_def)
  have pcb: "find_PCB 1 = 0x7FC000" "find_PCB 0 = 0x7FE000" by (simp_all add: find_PCB_def)
  have cur: "cur_pid demo_family = 1" by (simp add: cur_pid_def demo_family_def)
  have run: "proc_runs demo_family" using km cur by (simp add: proc_runs_def demo_family_def)
  have tab: "table_ok demo_family"
    by (simp add: table_ok_def num_used_def reserved_slots_def tcount_def demo_family_def)
  have drv: "f \<in> {terminal_funcs demo_family, rtc_funcs demo_family, fsys_funcs demo_family, dir_funcs demo_family}"
    if "j < 8" "fd_view 0x7FE000 j demo_family = Some (f, n, pos)" for j f n pos
    using that demo_family_fields(5,6) by (cases "j = 2") (auto simp: demo_family_def)
  have scr: "unat a < 0x400000" if "in_rng (video_mem demo_family) 4000 a" for a
    using that by (simp add: demo_family_def in_rng_unat)
  obtain t where "halt 5 demo_family = Inr (Exec_Ret 5, t)" "cur_pid t = 0" "procs t = (procs demo_family)[1 := 0]"
    "\<forall>j < 8. fd_view 0x7FE000 j t = (if 2 \<le> j \<and> ld_field 0x7FC000 (fd_off j FLAGS) demo_family = 1 then None
      else fd_view 0x7FE000 j demo_family)"
    using halt_returns[OF run tab, of 0 5, unfolded cur pcb] drv scr demo_family_fields(1-3)
    by (auto simp: demo_family_def on_screen_def)
  then show ?thesis using demo_family_fields(4,5) by (auto simp: demo_family_def pcb)
qed

end
