(* ===== verification/Interrupts.thy ===== *)
theory Interrupts
  imports Syscalls
begin

text \<open>
  The interrupt descriptor table of \<^verbatim>\<open>student-distrib/idt.c\<close>, the gate descriptors of
  \<^verbatim>\<open>x86_desc.h\<close>, the default handlers of \<^verbatim>\<open>irq_handle.c\<close>, the timer handler of \<^verbatim>\<open>pit.c\<close> and the
  linkage of \<^verbatim>\<open>link_idt.S\<close>. The state of the kernel is extended by the table and by the register
  that \<^verbatim>\<open>lidt\<close> loads.

  The addresses of the routines that the gates point to are given by the linker: they are a
  function of the routine, of which the theorems assume at most that it is injective.

  The theorems follow an interrupt through the table: the processor's reading of the two words of
  a descriptor, the privilege that a program needs, the routine that runs, what it prints, how it
  acknowledges the interrupt and how it ends.
\<close>

section \<open>Gate descriptors\<close>

abbreviation (input) NUM_VEC :: nat where "NUM_VEC \<equiv> 256"
abbreviation (input) SYS_CALL :: nat where "SYS_CALL \<equiv> 0x80"
abbreviation (input) KERNEL_CS :: u16 where "KERNEL_CS \<equiv> 0x10"

record idt_desc_t =
  offset_15_00 :: u16
  seg_selector :: u16
  reserved4 :: u8
  reserved3 :: "1 word"
  reserved2 :: "1 word"
  reserved1 :: "1 word"
  gate_size :: "1 word"
  reserved0 :: "1 word"
  dpl :: "2 word"
  present :: "1 word"
  offset_31_16 :: u16

text \<open>The other view of the union: the two words \<^verbatim>\<open>val[0]\<close> and \<^verbatim>\<open>val[1]\<close>.\<close>

definition gate_val :: "idt_desc_t \<Rightarrow> u32 \<times> u32" where
  "gate_val g =
    (ucast (offset_15_00 g) OR push_bit 16 (ucast (seg_selector g)),
     ucast (reserved4 g) OR push_bit 8 (ucast (reserved3 g)) OR push_bit 9 (ucast (reserved2 g))
       OR push_bit 10 (ucast (reserved1 g)) OR push_bit 11 (ucast (gate_size g)) OR push_bit 12 (ucast (reserved0 g))
       OR push_bit 13 (ucast (dpl g)) OR push_bit 15 (ucast (present g)) OR push_bit 16 (ucast (offset_31_16 g)))"

definition SET_IDT_ENTRY :: "ptr \<Rightarrow> idt_desc_t \<Rightarrow> idt_desc_t" where
  "SET_IDT_ENTRY handler g =
    g\<lparr>offset_31_16 := ucast (drop_bit 16 (handler AND 0xFFFF0000)), offset_15_00 := ucast (handler AND 0xFFFF)\<rparr>"

section \<open>The table\<close>

record interrupts = kernel +
  idt :: "idt_desc_t list"
  idtr :: "u16 \<times> ptr"

datatype routine = Excpt nat | Irq nat | Sys_Call | Provisional_Exception | Provisional_Interrupt

definition lidt :: "u16 \<times> ptr \<Rightarrow> 'a interrupts_scheme \<Rightarrow> 'a interrupts_scheme" where
  "lidt desc s = s\<lparr>idtr := desc\<rparr>"

text \<open>
  The operand of \<^verbatim>\<open>lidt\<close> in \<^verbatim>\<open>x86_desc.S\<close>: \<^verbatim>\<open>idt_bottom - idt - 1\<close> and \<^verbatim>\<open>idt\<close>. No space is reserved
  between the two labels, so that the limit is -1.
\<close>

definition idt_desc_ptr :: "ptr \<Rightarrow> u16 \<times> ptr" where
  "idt_desc_ptr base = (- 1, base)"

definition init_gate :: "(routine \<Rightarrow> ptr) \<Rightarrow> nat \<Rightarrow> idt_desc_t \<Rightarrow> idt_desc_t" where
  "init_gate link irq_n g =
    (let g = g\<lparr>present := 1\<rparr>;
         g = (if irq_n = SYS_CALL then g\<lparr>dpl := 3\<rparr> else g\<lparr>dpl := 0\<rparr>);
         g = g\<lparr>reserved0 := 0\<rparr>;
         g = g\<lparr>gate_size := 1\<rparr>;
         g = g\<lparr>reserved1 := 1\<rparr>;
         g = g\<lparr>reserved2 := 1\<rparr>;
         g = g\<lparr>reserved3 := 0\<rparr>;
         g = g\<lparr>reserved4 := 0\<rparr>;
         g = g\<lparr>seg_selector := KERNEL_CS\<rparr>
     in if irq_n < 32
        then let g = g\<lparr>reserved3 := 0\<rparr> in SET_IDT_ENTRY (link Provisional_Exception) g
        else SET_IDT_ENTRY (link Provisional_Interrupt) g)"

definition set_gate :: "(idt_desc_t \<Rightarrow> idt_desc_t) \<Rightarrow> nat \<Rightarrow> 'a interrupts_scheme \<Rightarrow> 'a interrupts_scheme" where
  "set_gate f n s = s\<lparr>idt := (idt s)[n := f (idt s ! n)]\<rparr>"

definition init_gates :: "(routine \<Rightarrow> ptr) \<Rightarrow> 'a interrupts_scheme \<Rightarrow> 'a interrupts_scheme" where
  "init_gates link s = fold (\<lambda>irq_n. set_gate (init_gate link irq_n) irq_n) [0..<NUM_VEC] s"

definition setup_idt_exceptions :: "(routine \<Rightarrow> ptr) \<Rightarrow> 'a interrupts_scheme \<Rightarrow> 'a interrupts_scheme" where
  "setup_idt_exceptions link s = fold (\<lambda>n. set_gate (SET_IDT_ENTRY (link (Excpt n))) n) [0..<32] s"

definition setup_idt_interrupts :: "(routine \<Rightarrow> ptr) \<Rightarrow> 'a interrupts_scheme \<Rightarrow> 'a interrupts_scheme" where
  "setup_idt_interrupts link s =
    fold (\<lambda>(v, n). set_gate (SET_IDT_ENTRY (link (Irq n))) v)
      [(32, 0), (33, 1), (34, 2), (35, 3), (36, 4), (37, 5), (38, 6), (39, 7), (40, 8), (41, 9),
       (45, 13), (46, 14), (47, 15)] s"

definition init_idt :: "(routine \<Rightarrow> ptr) \<Rightarrow> ptr \<Rightarrow> 'a interrupts_scheme \<Rightarrow> 'a interrupts_scheme" where
  "init_idt link base s =
    (let s = lidt (idt_desc_ptr base) s;
         s = init_gates link s;
         s = setup_idt_exceptions link s;
         s = setup_idt_interrupts link s
     in set_gate (SET_IDT_ENTRY (link Sys_Call)) SYS_CALL s)"

section \<open>Handlers\<close>

text \<open>
  How a handler ends: in an endless loop; through the linkage and \<^verbatim>\<open>iret\<close>, when it does return; or
  with the \<^verbatim>\<open>ret\<close> of a C function on the frame of an interrupt.
\<close>

datatype ending = Loops | Iret kflow | Near_Ret

type_synonym 's handled = "(fault + ending \<times> 's) option"

definition exception_message :: "bytes \<Rightarrow> ptr \<Rightarrow> 'a kernel_scheme \<Rightarrow> 'a kernel_scheme handled" where
  "exception_message msg conv s = fbind (printf conv msg [] s) (\<lambda>(_, s). Some (Inr (Loops, s)))"

definition irq_message :: "bytes \<Rightarrow> ptr \<Rightarrow> 'a kernel_scheme \<Rightarrow> 'a kernel_scheme handled" where
  "irq_message msg conv s =
    (let s = cli s
     in fbind (printf conv msg [] s) (\<lambda>(_, s).
        let s = outb 0x20 0x20 s
        in Some (Inr (Iret (Returned 0), sti s))))"

definition provisional_interrupt :: "ptr \<Rightarrow> 'a kernel_scheme \<Rightarrow> 'a kernel_scheme handled" where
  "provisional_interrupt conv s =
    (let s = cli s
     in fbind (printf conv (asc ''provisional interrupt: EMPTY'') [] s) (\<lambda>(_, s). Some (Inr (Near_Ret, sti s))))"

definition provisional_exception :: "ptr \<Rightarrow> 'a kernel_scheme \<Rightarrow> 'a kernel_scheme handled" where
  "provisional_exception conv s = exception_message (asc ''provisional exception: EMPTY'') conv s"

definition excpt0_handler :: "ptr \<Rightarrow> 'a kernel_scheme \<Rightarrow> 'a kernel_scheme handled" where
  "excpt0_handler = exception_message (asc ''EXCEPTION0: Divide by Zero Error'' @ [10])"

definition excpt1_handler :: "ptr \<Rightarrow> 'a kernel_scheme \<Rightarrow> 'a kernel_scheme handled" where
  "excpt1_handler = exception_message (asc ''EXCEPTION1: Debug'' @ [10])"

definition excpt2_handler :: "ptr \<Rightarrow> 'a kernel_scheme \<Rightarrow> 'a kernel_scheme handled" where
  "excpt2_handler = exception_message (asc ''EXCEPTION2: NMI Interrupt'' @ [10])"

definition excpt3_handler :: "ptr \<Rightarrow> 'a kernel_scheme \<Rightarrow> 'a kernel_scheme handled" where
  "excpt3_handler = exception_message (asc ''EXCEPTION3: Breakpoint'' @ [10])"

definition excpt4_handler :: "ptr \<Rightarrow> 'a kernel_scheme \<Rightarrow> 'a kernel_scheme handled" where
  "excpt4_handler = exception_message (asc ''EXCEPTION4: Overflow'')"

definition excpt5_handler :: "ptr \<Rightarrow> 'a kernel_scheme \<Rightarrow> 'a kernel_scheme handled" where
  "excpt5_handler = exception_message (asc ''EXCEPTION5: BOUND Range Exceeded'')"

definition excpt6_handler :: "ptr \<Rightarrow> 'a kernel_scheme \<Rightarrow> 'a kernel_scheme handled" where
  "excpt6_handler = exception_message (asc ''EXCEPTION6: Invalid Opcode'')"

definition excpt7_handler :: "ptr \<Rightarrow> 'a kernel_scheme \<Rightarrow> 'a kernel_scheme handled" where
  "excpt7_handler = exception_message (asc ''EXCEPTION7: Device Not Available'')"

definition excpt8_handler :: "ptr \<Rightarrow> 'a kernel_scheme \<Rightarrow> 'a kernel_scheme handled" where
  "excpt8_handler = exception_message (asc ''EXCEPTION8: double fault'' @ [10])"

definition excpt9_handler :: "ptr \<Rightarrow> 'a kernel_scheme \<Rightarrow> 'a kernel_scheme handled" where
  "excpt9_handler = exception_message (asc ''EXCEPTION9: Coprocessor Segment Overrun'')"

definition excpt10_handler :: "ptr \<Rightarrow> 'a kernel_scheme \<Rightarrow> 'a kernel_scheme handled" where
  "excpt10_handler = exception_message (asc ''EXCEPTION10: Invalid TSS'')"

definition excpt11_handler :: "ptr \<Rightarrow> 'a kernel_scheme \<Rightarrow> 'a kernel_scheme handled" where
  "excpt11_handler = exception_message (asc ''EXCEPTION11: Segment Not Present'' @ [10])"

definition excpt12_handler :: "ptr \<Rightarrow> 'a kernel_scheme \<Rightarrow> 'a kernel_scheme handled" where
  "excpt12_handler = exception_message (asc ''EXCEPTION12: Stack Fault'' @ [10])"

definition excpt13_handler :: "ptr \<Rightarrow> 'a kernel_scheme \<Rightarrow> 'a kernel_scheme handled" where
  "excpt13_handler = exception_message (asc ''EXCEPTION13: General Protection'')"

definition excpt14_handler :: "ptr \<Rightarrow> 'a kernel_scheme \<Rightarrow> 'a kernel_scheme handled" where
  "excpt14_handler = exception_message (asc ''EXCEPTION14: Page Fault'' @ [10])"

definition excpt15_handler :: "ptr \<Rightarrow> 'a kernel_scheme \<Rightarrow> 'a kernel_scheme handled" where
  "excpt15_handler = exception_message (asc ''EXCEPTION15: Reserved for Intel'')"

definition excpt16_handler :: "ptr \<Rightarrow> 'a kernel_scheme \<Rightarrow> 'a kernel_scheme handled" where
  "excpt16_handler = exception_message (asc ''EXCEPTION16: Floating-Point Error'')"

definition excpt17_handler :: "ptr \<Rightarrow> 'a kernel_scheme \<Rightarrow> 'a kernel_scheme handled" where
  "excpt17_handler = exception_message (asc ''EXCEPTION17: Alignment Check'')"

definition excpt18_handler :: "ptr \<Rightarrow> 'a kernel_scheme \<Rightarrow> 'a kernel_scheme handled" where
  "excpt18_handler = exception_message (asc ''EXCEPTION18: Machine Check'')"

definition excpt19_handler :: "ptr \<Rightarrow> 'a kernel_scheme \<Rightarrow> 'a kernel_scheme handled" where
  "excpt19_handler = exception_message (asc ''EXCEPTION19: SIMD Floating-Point'' @ [10])"

definition excpt20_handler :: "ptr \<Rightarrow> 'a kernel_scheme \<Rightarrow> 'a kernel_scheme handled" where
  "excpt20_handler = exception_message (asc ''EXCEPTION20: Virtualization Exception'')"

definition excpt21_handler :: "ptr \<Rightarrow> 'a kernel_scheme \<Rightarrow> 'a kernel_scheme handled" where
  "excpt21_handler = exception_message (asc ''EXCEPTION21: Reserved for Intel'')"

definition excpt22_handler :: "ptr \<Rightarrow> 'a kernel_scheme \<Rightarrow> 'a kernel_scheme handled" where
  "excpt22_handler = exception_message (asc ''EXCEPTION22: Reserved for Intel'')"

definition excpt23_handler :: "ptr \<Rightarrow> 'a kernel_scheme \<Rightarrow> 'a kernel_scheme handled" where
  "excpt23_handler = exception_message (asc ''EXCEPTION23: Reserved for Intel'')"

definition excpt24_handler :: "ptr \<Rightarrow> 'a kernel_scheme \<Rightarrow> 'a kernel_scheme handled" where
  "excpt24_handler = exception_message (asc ''EXCEPTION24: Reserved for Intel'')"

definition excpt25_handler :: "ptr \<Rightarrow> 'a kernel_scheme \<Rightarrow> 'a kernel_scheme handled" where
  "excpt25_handler = exception_message (asc ''EXCEPTION25: Reserved for Intel'')"

definition excpt26_handler :: "ptr \<Rightarrow> 'a kernel_scheme \<Rightarrow> 'a kernel_scheme handled" where
  "excpt26_handler = exception_message (asc ''EXCEPTION26: Reserved for Intel'')"

definition excpt27_handler :: "ptr \<Rightarrow> 'a kernel_scheme \<Rightarrow> 'a kernel_scheme handled" where
  "excpt27_handler = exception_message (asc ''EXCEPTION27: Reserved for Intel'')"

definition excpt28_handler :: "ptr \<Rightarrow> 'a kernel_scheme \<Rightarrow> 'a kernel_scheme handled" where
  "excpt28_handler = exception_message (asc ''EXCEPTION28: Reserved for Intel'')"

definition excpt29_handler :: "ptr \<Rightarrow> 'a kernel_scheme \<Rightarrow> 'a kernel_scheme handled" where
  "excpt29_handler = exception_message (asc ''EXCEPTION29: Reserved for Intel'')"

definition excpt30_handler :: "ptr \<Rightarrow> 'a kernel_scheme \<Rightarrow> 'a kernel_scheme handled" where
  "excpt30_handler = exception_message (asc ''EXCEPTION30: Security Explination'')"

definition excpt31_handler :: "ptr \<Rightarrow> 'a kernel_scheme \<Rightarrow> 'a kernel_scheme handled" where
  "excpt31_handler = exception_message (asc ''EXCEPTION31: Reserved for Intel'')"

definition irq0_handler :: "ptr \<Rightarrow> 'a kernel_scheme \<Rightarrow> 'a kernel_scheme handled" where
  "irq0_handler = irq_message (asc ''Interrupt0: System timer'')"

definition irq1_handler :: "ptr \<Rightarrow> 'a kernel_scheme \<Rightarrow> 'a kernel_scheme handled" where
  "irq1_handler = irq_message (asc ''Interrupt1: Keyboard controller'')"

definition irq2_handler :: "ptr \<Rightarrow> 'a kernel_scheme \<Rightarrow> 'a kernel_scheme handled" where
  "irq2_handler = irq_message (asc ''Interrupt2: Slave cascade'')"

definition irq3_handler :: "ptr \<Rightarrow> 'a kernel_scheme \<Rightarrow> 'a kernel_scheme handled" where
  "irq3_handler = irq_message (asc ''Interrupt3: Serial port 2 controller'')"

definition irq4_handler :: "ptr \<Rightarrow> 'a kernel_scheme \<Rightarrow> 'a kernel_scheme handled" where
  "irq4_handler = irq_message (asc ''Interrupt4: Serial port 1 controller'')"

definition irq5_handler :: "ptr \<Rightarrow> 'a kernel_scheme \<Rightarrow> 'a kernel_scheme handled" where
  "irq5_handler = irq_message (asc ''Interrupt5: Parallel port 2/3 OR sound card'')"

definition irq6_handler :: "ptr \<Rightarrow> 'a kernel_scheme \<Rightarrow> 'a kernel_scheme handled" where
  "irq6_handler = irq_message (asc ''Interrupt6: Floppy disk controller'')"

definition irq7_handler :: "ptr \<Rightarrow> 'a kernel_scheme \<Rightarrow> 'a kernel_scheme handled" where
  "irq7_handler = irq_message (asc ''Interrupt7: Parallel port 1'')"

definition irq8_handler :: "ptr \<Rightarrow> 'a kernel_scheme \<Rightarrow> 'a kernel_scheme handled" where
  "irq8_handler = irq_message (asc ''Interrupt8: RTC interrupt'')"

definition irq9_handler :: "ptr \<Rightarrow> 'a kernel_scheme \<Rightarrow> 'a kernel_scheme handled" where
  "irq9_handler = irq_message (asc ''Interrupt9: ACPI system control interrupt'')"

definition irq10_handler :: "ptr \<Rightarrow> 'a kernel_scheme \<Rightarrow> 'a kernel_scheme handled" where
  "irq10_handler = irq_message (asc ''Interrupt10: Open interrupt for peripherals'')"

definition irq11_handler :: "ptr \<Rightarrow> 'a kernel_scheme \<Rightarrow> 'a kernel_scheme handled" where
  "irq11_handler = irq_message (asc ''Interrupt11: Open interrupt for peripherals'')"

definition irq12_handler :: "ptr \<Rightarrow> 'a kernel_scheme \<Rightarrow> 'a kernel_scheme handled" where
  "irq12_handler = irq_message (asc ''Interrupt12: Mouse'')"

definition irq13_handler :: "ptr \<Rightarrow> 'a kernel_scheme \<Rightarrow> 'a kernel_scheme handled" where
  "irq13_handler = irq_message (asc ''Interrupt13: Inter-processor interupt'')"

definition irq14_handler :: "ptr \<Rightarrow> 'a kernel_scheme \<Rightarrow> 'a kernel_scheme handled" where
  "irq14_handler = irq_message (asc ''Interrupt14: Primary ATA channel'')"

definition irq15_handler :: "ptr \<Rightarrow> 'a kernel_scheme \<Rightarrow> 'a kernel_scheme handled" where
  "irq15_handler = irq_message (asc ''Interrupt15: Secondary ATA channel'')"

text \<open>The timer. As for the keyboard, a switch to another process continues on that process's stack.\<close>

definition pit_handler :: "exec_locals \<Rightarrow> 'a kernel_scheme \<Rightarrow> (fault + kflow \<times> 'a kernel_scheme) option" where
  "pit_handler loc s =
    switching (conv_buf loc) ((running_terminal s + 1) mod 3) (\<lambda>r s.
      if r \<noteq> 0
      then let s = send_eoi 0 s
           in fbind (execute loc (dechar (shell_str s)) s) (\<lambda>(fl, s).
             case fl of Ret _ \<Rightarrow> Some (Inr (Returned 0, send_eoi 0 s)) | _ \<Rightarrow> Some (Inr (Left fl, s)))
      else Some (Inr (Returned 0, send_eoi 0 s))) s"

section \<open>Linkage and dispatch\<close>

text \<open>The routines \<^verbatim>\<open>irq0\<close> to \<^verbatim>\<open>irq15\<close> of \<^verbatim>\<open>link_idt.S\<close>.\<close>

definition iret :: "(fault + kflow \<times> 's) option \<Rightarrow> 's handled" where
  "iret r = fbind r (\<lambda>(fl, s). Some (Inr (Iret fl, s)))"

definition irq_link :: "sys_env \<Rightarrow> nat \<Rightarrow> 'a kernel_scheme \<Rightarrow> 'a kernel_scheme handled" where
  "irq_link env n s =
    (let conv = conv_buf (env_loc env)
     in if n = 0 then iret (pit_handler (env_loc env) s)
        else if n = 1 then iret (keyboard_handler (env_loc env) (prompt_str env) s)
        else if n = 2 then irq2_handler conv s
        else if n = 3 then irq3_handler conv s
        else if n = 4 then irq4_handler conv s
        else if n = 5 then irq5_handler conv s
        else if n = 6 then irq6_handler conv s
        else if n = 7 then irq7_handler conv s
        else if n = 8 then iret (fbind (lift (rtc_handler s)) (\<lambda>s. Some (Inr (Returned 0, s))))
        else if n = 9 then irq9_handler conv s
        else if n = 10 then irq10_handler conv s
        else if n = 11 then irq11_handler conv s
        else if n = 12 then irq12_handler conv s
        else if n = 13 then irq13_handler conv s
        else if n = 14 then irq14_handler conv s
        else irq15_handler conv s)"

definition excpt_handlers :: "(ptr \<Rightarrow> 'a kernel_scheme \<Rightarrow> 'a kernel_scheme handled) list" where
  "excpt_handlers =
    [excpt0_handler, excpt1_handler, excpt2_handler, excpt3_handler, excpt4_handler, excpt5_handler,
     excpt6_handler, excpt7_handler, excpt8_handler, excpt9_handler, excpt10_handler, excpt11_handler,
     excpt12_handler, excpt13_handler, excpt14_handler, excpt15_handler, excpt16_handler,
     excpt17_handler, excpt18_handler, excpt19_handler, excpt20_handler, excpt21_handler,
     excpt22_handler, excpt23_handler, excpt24_handler, excpt25_handler, excpt26_handler,
     excpt27_handler, excpt28_handler, excpt29_handler, excpt30_handler, excpt31_handler]"

text \<open>The registers of the program that was interrupted, which only a system call reads.\<close>

record regs =
  eax :: u32
  ebx :: u32
  ecx :: u32
  edx :: u32

definition run_routine :: "sys_env \<Rightarrow> regs \<Rightarrow> routine \<Rightarrow> 'a kernel_scheme \<Rightarrow> 'a kernel_scheme handled" where
  "run_routine env r rt s =
    (case rt of
       Excpt n \<Rightarrow> (excpt_handlers ! n) (conv_buf (env_loc env)) s
     | Irq n \<Rightarrow> irq_link env n s
     | Sys_Call \<Rightarrow> iret (sys_call env (eax r) (ebx r) (ecx r) (edx r) s)
     | Provisional_Exception \<Rightarrow> provisional_exception (conv_buf (env_loc env)) s
     | Provisional_Interrupt \<Rightarrow> provisional_interrupt (conv_buf (env_loc env)) s)"

section \<open>The processor\<close>

text \<open>
  What the processor makes of a vector, after the manual of the architecture: the two words of the
  descriptor, if the limit of the table admits it and its present bit is set, name the type of the
  gate (14 is a 32-bit interrupt gate, which clears the interrupt flag), the privilege level, the
  code segment and the entry point. A software interrupt from a program needs a gate of level 3;
  otherwise it raises exception 13.
\<close>

record gate =
  gate_type :: nat
  gate_dpl :: nat
  gate_cs :: u16
  gate_entry :: ptr

definition read_gate :: "u32 \<times> u32 \<Rightarrow> gate option" where
  "read_gate v =
    (if bit (snd v) 15
     then Some \<lparr>gate_type = unat (take_bit 5 (drop_bit 8 (snd v))), gate_dpl = unat (take_bit 2 (drop_bit 13 (snd v))),
                gate_cs = ucast (drop_bit 16 (fst v)), gate_entry = (snd v AND 0xFFFF0000) OR (fst v AND 0xFFFF)\<rparr>
     else None)"

definition gate_at :: "nat \<Rightarrow> 'a interrupts_scheme \<Rightarrow> gate option" where
  "gate_at v s = (if 8 * v + 7 \<le> unat (fst (idtr s)) \<and> v < length (idt s) then read_gate (gate_val (idt s ! v)) else None)"

definition soft_int :: "nat \<Rightarrow> 'a interrupts_scheme \<Rightarrow> nat" where
  "soft_int v s = (case gate_at v s of Some g \<Rightarrow> if gate_dpl g = 3 then v else 13 | None \<Rightarrow> 13)"

definition all_routines :: "routine list" where
  "all_routines = map Excpt [0..<32] @ map Irq [0..<16] @ [Sys_Call, Provisional_Exception, Provisional_Interrupt]"

text \<open>The delivery of vector \<open>v\<close>; \<open>None\<close> also stands for a jump to an address that is no routine.\<close>

definition deliver ::
  "(routine \<Rightarrow> ptr) \<Rightarrow> sys_env \<Rightarrow> regs \<Rightarrow> nat \<Rightarrow> 'a interrupts_scheme \<Rightarrow> 'a interrupts_scheme handled" where
  "deliver link env r v s =
    (case gate_at v s of
       None \<Rightarrow> None
     | Some g \<Rightarrow>
         (case find (\<lambda>rt. link rt = gate_entry g) all_routines of
            None \<Rightarrow> None
          | Some rt \<Rightarrow> run_routine env r rt (if gate_type g = 14 then cli s else s)))"


section \<open>The gates of the table\<close>

definition intr_gate :: "2 word \<Rightarrow> ptr \<Rightarrow> idt_desc_t" where
  "intr_gate d h = \<lparr>offset_15_00 = ucast (h AND 0xFFFF), seg_selector = KERNEL_CS, reserved4 = 0, reserved3 = 0, reserved2 = 1,
     reserved1 = 1, gate_size = 1, reserved0 = 0, dpl = d, present = 1, offset_31_16 = ucast (drop_bit 16 (h AND 0xFFFF0000))\<rparr>"

lemma set_intr_gate [simp]: "SET_IDT_ENTRY h (intr_gate d k) = intr_gate d h"
  by (simp add: SET_IDT_ENTRY_def intr_gate_def)

lemma init_gate_eq: "init_gate link n g =
  intr_gate (if n = SYS_CALL then 3 else 0) (link (if n < 32 then Provisional_Exception else Provisional_Interrupt))"
  by (simp add: init_gate_def SET_IDT_ENTRY_def intr_gate_def Let_def)

lemma int_bits:
  "bit (14 :: int) n \<longleftrightarrow> n = 1 \<or> n = 2 \<or> n = 3" "bit (16 :: int) n \<longleftrightarrow> n = 4"
  "bit (0xFFFF :: int) n \<longleftrightarrow> n < 16" "bit (0xFFFF0000 :: int) n \<longleftrightarrow> 16 \<le> n \<and> n < 32"
proof -
  have m: "(0xFFFF :: int) = mask 16" "(0xFFFF0000 :: int) = push_bit 16 (mask 16)" "(16 :: int) = push_bit 4 1"
    "(14 :: int) = push_bit 1 (mask 3)"
    by (simp_all add: mask_eq_exp_minus_1 push_bit_eq_mult)
  show "bit (0xFFFF :: int) n \<longleftrightarrow> n < 16" "bit (0xFFFF0000 :: int) n \<longleftrightarrow> 16 \<le> n \<and> n < 32" "bit (16 :: int) n \<longleftrightarrow> n = 4"
    unfolding m bit_push_bit_iff bit_mask_iff bit_1_iff by auto
  show "bit (14 :: int) n \<longleftrightarrow> n = 1 \<or> n = 2 \<or> n = 3" unfolding m bit_push_bit_iff bit_mask_iff by auto
qed

lemma bit_dpl: "bit (d :: 2 word) k \<longleftrightarrow> k = 0 \<and> bit d 0 \<or> k = 1 \<and> bit d 1"
  using bit_imp_le_length[of d k] by (auto simp: less_2_cases_iff)

lemma gate_bits: "bit (snd (gate_val (intr_gate d h))) n \<longleftrightarrow>
    n < 32 \<and> (n = 9 \<or> n = 10 \<or> n = 11 \<or> n = 15 \<or> n = 13 \<and> bit d 0 \<or> n = 14 \<and> bit d 1 \<or> 16 \<le> n \<and> bit h n)"
  "bit (fst (gate_val (intr_gate d h))) n \<longleftrightarrow> n < 16 \<and> bit h n \<or> n = 20"
proof -
  have o: "bit (1 :: 1 word) k \<longleftrightarrow> k = 0" for k by (simp add: bit_1_iff)
  note defs = gate_val_def intr_gate_def idt_desc_t.simps fst_conv snd_conv bit_or_iff bit_push_bit_iff bit_ucast_iff
    bit_0_eq bot_apply bit_drop_bit_eq comp_apply bit_and_iff o
  show "bit (snd (gate_val (intr_gate d h))) n \<longleftrightarrow>
    n < 32 \<and> (n = 9 \<or> n = 10 \<or> n = 11 \<or> n = 15 \<or> n = 13 \<and> bit d 0 \<or> n = 14 \<and> bit d 1 \<or> 16 \<le> n \<and> bit h n)"
  proof (cases "16 \<le> n")
    case True
    then have "n - 13 \<noteq> 0" "n - 13 \<noteq> 1" "n - 9 \<noteq> 0" "n - 10 \<noteq> 0" "n - 11 \<noteq> 0" "n - 15 \<noteq> 0" "16 + (n - 16) = n"
      "n - 16 < 16 \<longleftrightarrow> n < 32" by arith+
    with True show ?thesis unfolding defs bit_dpl[of d "n - 13"] by (simp add: int_bits) linarith
  next
    case False
    then have "n \<in> {0, 1, 2, 3, 4, 5, 6, 7, 8, 9, 10, 11, 12, 13, 14, 15}"
      by (auto simp: eval_nat_numeral less_Suc_eq not_le)
    then show ?thesis unfolding defs bit_dpl[of d "n - 13"] by (elim insertE emptyE) simp_all
  qed
  show "bit (fst (gate_val (intr_gate d h))) n \<longleftrightarrow> n < 16 \<and> bit h n \<or> n = 20"
    unfolding defs by (auto simp: int_bits)
qed

lemma read_intr_gate:
  "read_gate (gate_val (intr_gate d h)) = Some \<lparr>gate_type = 14, gate_dpl = unat d, gate_cs = KERNEL_CS, gate_entry = h\<rparr>"
proof -
  let ?v = "gate_val (intr_gate d h)"
  have "take_bit 5 (drop_bit 8 (snd ?v)) = 14"
    by (rule bit_word_eqI) (auto simp: bit_take_bit_iff bit_drop_bit_eq gate_bits int_bits)
  moreover have "take_bit 2 (drop_bit 13 (snd ?v)) = ucast d"
  proof (rule bit_word_eqI)
    fix n
    show "bit (take_bit 2 (drop_bit 13 (snd ?v))) n = bit (ucast d :: u32) n"
      unfolding bit_ucast_iff bit_dpl[of d n] by (auto simp: bit_take_bit_iff bit_drop_bit_eq gate_bits)
  qed
  moreover have "ucast (drop_bit 16 (fst ?v)) = KERNEL_CS"
    by (rule bit_word_eqI) (auto simp: bit_ucast_iff bit_drop_bit_eq gate_bits int_bits)
  moreover have "(snd ?v AND 0xFFFF0000) OR (fst ?v AND 0xFFFF) = h"
    by (rule bit_word_eqI) (auto simp: bit_or_iff bit_and_iff gate_bits int_bits)
  moreover have "unat (ucast d :: u32) = unat d"
    using unsigned_less[of d, where ?'a = nat] by (simp add: unsigned_ucast_eq take_bit_nat_eq_self)
  ultimately show ?thesis by (simp add: read_gate_def gate_bits)
qed

lemma fold_set_gate:
  assumes "distinct (map g ns)" "v < length (idt s)"
  shows "idt (fold (\<lambda>n. set_gate (f n) (g n)) ns s) ! v =
      (case find (\<lambda>n. g n = v) ns of None \<Rightarrow> idt s ! v | Some n \<Rightarrow> f n (idt s ! v))"
    and "fold (\<lambda>n. set_gate (f n) (g n)) ns s = s\<lparr>idt := idt (fold (\<lambda>n. set_gate (f n) (g n)) ns s)\<rparr>"
    and "length (idt (fold (\<lambda>n. set_gate (f n) (g n)) ns s)) = length (idt s)"
proof -
  show "fold (\<lambda>n. set_gate (f n) (g n)) ns s = s\<lparr>idt := idt (fold (\<lambda>n. set_gate (f n) (g n)) ns s)\<rparr>"
  proof (induction ns arbitrary: s)
    case (Cons n ns)
    from Cons.IH[of "set_gate (f n) (g n) s"] show ?case by (simp add: set_gate_def)
  qed simp
  show "length (idt (fold (\<lambda>n. set_gate (f n) (g n)) ns s)) = length (idt s)"
    by (induction ns arbitrary: s) (simp_all add: set_gate_def)
  show "idt (fold (\<lambda>n. set_gate (f n) (g n)) ns s) ! v =
      (case find (\<lambda>n. g n = v) ns of None \<Rightarrow> idt s ! v | Some n \<Rightarrow> f n (idt s ! v))"
    using assms
  proof (induction ns arbitrary: s)
    case (Cons n ns)
    have "find (\<lambda>n. g n = v) ns = None" if "g n = v" using Cons.prems(1) that by (force simp: find_None_iff image_iff)
    with Cons.IH[of "set_gate (f n) (g n) s"] Cons.prems show ?case
      by (auto simp: set_gate_def nth_list_update split: option.splits)
  qed simp
qed


text \<open>The routine that the table gives to each vector.\<close>

definition routine_of :: "nat \<Rightarrow> routine" where
  "routine_of v =
    (if v < 32 then Excpt v
     else if v = SYS_CALL then Sys_Call
     else if v < 48 \<and> v \<notin> {42, 43, 44} then Irq (v - 32)
     else Provisional_Interrupt)"

lemma find_upt: "find (\<lambda>n. n = v) [0..<m] = (if v < m then Some v else None)"
proof (cases "v < m")
  case True
  then have "find (\<lambda>n. n = v) [0..<m] = Some v" unfolding find_Some_iff by (intro exI[of _ v]) auto
  with True show ?thesis by simp
qed (simp add: find_None_iff)

lemma routine_of_irq:
  "find (\<lambda>p. fst p = v) [(32, 0), (33, 1), (34, 2), (35, 3), (36, 4), (37, 5), (38, 6), (39, 7), (40, 8), (41, 9),
      (45, 13), (46, 14), (47, 15 :: nat)] =
    (if 32 \<le> v \<and> v < 48 \<and> v \<notin> {42, 43, 44} then Some (v, v - 32) else None)"
proof (cases "32 \<le> v \<and> v < 48")
  case True
  then have "v - 32 < 16" "v = 32 + (v - 32)" by auto
  then obtain k where "k < 16" "v = 32 + k" by blast
  then show ?thesis by (auto simp: eval_nat_numeral less_Suc_eq)
qed auto

lemma idt_again: "t = s\<lparr>idt := i\<rparr> \<Longrightarrow> t\<lparr>idt := j\<rparr> = s\<lparr>idt := j\<rparr>"
  by simp

lemma init_idt_gates:
  assumes "length (idt s) = NUM_VEC"
  shows "v < NUM_VEC \<Longrightarrow> idt (init_idt link base s) ! v =
      intr_gate (if v = SYS_CALL then 3 else 0) (link (routine_of v))"
    and "init_idt link base s = s\<lparr>idtr := (- 1, base), idt := idt (init_idt link base s)\<rparr>"
    and "length (idt (init_idt link base s)) = NUM_VEC"
proof -
  let ?s1 = "lidt (idt_desc_ptr base) s"
  let ?s2 = "init_gates link ?s1"
  let ?s3 = "setup_idt_exceptions link ?s2"
  let ?s4 = "setup_idt_interrupts link ?s3"
  let ?irqs = "[(32, 0), (33, 1), (34, 2), (35, 3), (36, 4), (37, 5), (38, 6), (39, 7), (40, 8), (41, 9),
       (45, 13), (46, 14), (47, 15)] :: (nat \<times> nat) list"
  have l1: "length (idt ?s1) = NUM_VEC" using assms by (simp add: lidt_def)
  note f2 = fold_set_gate[where g = "\<lambda>n. n" and f = "\<lambda>n. init_gate link n" and ns = "[0..<NUM_VEC]" and s = ?s1]
  have l2: "length (idt ?s2) = NUM_VEC" using f2(3)[of 0] l1 by (simp add: init_gates_def)
  note f3 = fold_set_gate[where g = "\<lambda>n. n" and f = "\<lambda>n. SET_IDT_ENTRY (link (Excpt n))" and ns = "[0..<32]" and s = ?s2]
  have l3: "length (idt ?s3) = NUM_VEC" using f3(3)[of 0] l2 by (simp add: setup_idt_exceptions_def)
  note f4 = fold_set_gate[where g = fst and f = "\<lambda>p. SET_IDT_ENTRY (link (Irq (snd p)))" and ns = ?irqs and s = ?s3]
  have e4: "?s4 = fold (\<lambda>p. set_gate (SET_IDT_ENTRY (link (Irq (snd p)))) (fst p)) ?irqs ?s3"
    by (simp add: setup_idt_interrupts_def)
  have l4: "length (idt ?s4) = NUM_VEC" using f4(3)[of 0] l3 unfolding e4 by simp
  show "length (idt (init_idt link base s)) = NUM_VEC" using l4 by (simp add: init_idt_def Let_def set_gate_def)
  have d4: "distinct (map fst ?irqs)" by simp
  let ?I = "idt (init_idt link base s)"
  have r2: "?s2 = ?s1\<lparr>idt := idt ?s2\<rparr>" unfolding init_gates_def by (rule f2(2)[of 0]) (use l1 in simp_all)
  have r3: "?s3 = ?s2\<lparr>idt := idt ?s3\<rparr>" unfolding setup_idt_exceptions_def by (rule f3(2)[of 0]) (use l2 in simp_all)
  have r4: "?s4 = ?s3\<lparr>idt := idt ?s4\<rparr>" unfolding e4 by (rule f4(2)[of 0]) (use l3 in simp_all)
  have "init_idt link base s = ?s4\<lparr>idt := ?I\<rparr>" by (simp add: init_idt_def Let_def set_gate_def)
  also have "\<dots> = ?s3\<lparr>idt := ?I\<rparr>" by (rule idt_again[OF r4])
  also have "\<dots> = ?s2\<lparr>idt := ?I\<rparr>" by (rule idt_again[OF r3])
  also have "\<dots> = ?s1\<lparr>idt := ?I\<rparr>" by (rule idt_again[OF r2])
  finally show "init_idt link base s = s\<lparr>idtr := (- 1, base), idt := ?I\<rparr>"
    by (simp add: lidt_def idt_desc_ptr_def)
  assume v: "v < NUM_VEC"
  have "idt ?s2 ! v = intr_gate (if v = SYS_CALL then 3 else 0) (link (if v < 32 then Provisional_Exception else Provisional_Interrupt))"
    using f2(1)[of v] v l1 by (simp add: init_gates_def find_upt init_gate_eq)
  then have "idt ?s3 ! v = intr_gate (if v = SYS_CALL then 3 else 0) (link (if v < 32 then Excpt v else Provisional_Interrupt))"
    using f3(1)[of v] v l2 by (cases "v < 32"; cases "v = SYS_CALL") (simp_all add: setup_idt_exceptions_def find_upt)
  then have "idt ?s4 ! v = intr_gate (if v = SYS_CALL then 3 else 0) (link (if v < 32 then Excpt v
      else if v < 48 \<and> v \<notin> {42, 43, 44} then Irq (v - 32) else Provisional_Interrupt))"
    using f4(1)[of v] v l3 d4 unfolding e4[symmetric] routine_of_irq by (auto split: if_splits)
  then show "idt (init_idt link base s) ! v = intr_gate (if v = SYS_CALL then 3 else 0) (link (routine_of v))"
    using v l4 by (cases "v = SYS_CALL") (simp_all add: init_idt_def Let_def set_gate_def routine_of_def nth_list_update)
qed


text \<open>
  C10: the interrupt descriptor table. After \<open>init_idt\<close> the processor reads each of the 256
  descriptors as a present 32-bit interrupt gate into the code segment of the kernel, whatever the
  table held before: the exceptions 0 to 31 and the lines of the two interrupt controllers go to
  their routines, except for lines 10, 11 and 12, and vector 0x80 goes to the system calls; all the
  others go to the provisional handler. The system call is the only gate that a program may enter
  by a software interrupt; any other one raises exception 13. Nothing else of the state changes.
\<close>

theorem init_idt_types:
  assumes "length (idt s) = NUM_VEC" "v < NUM_VEC"
  shows "gate_at v (init_idt link base s) = Some \<lparr>gate_type = 14, gate_dpl = (if v = SYS_CALL then 3 else 0),
      gate_cs = KERNEL_CS, gate_entry = link (routine_of v)\<rparr> \<and>
    soft_int v (init_idt link base s) = (if v = SYS_CALL then v else 13) \<and>
    (\<exists>gates. init_idt link base s = s\<lparr>idtr := (- 1, base), idt := gates\<rparr> \<and> length gates = NUM_VEC)"
proof -
  note g = init_idt_gates[OF assms(1), where link = link and base = base]
  have "idtr (init_idt link base s) = (- 1, base)" by (subst g(2)) simp
  moreover have "unat (- 1 :: u16) = 65535" by (simp add: unsigned_minus_1_eq_mask mask_eq_exp_minus_1)
  ultimately have "gate_at v (init_idt link base s) = Some \<lparr>gate_type = 14, gate_dpl = (if v = SYS_CALL then 3 else 0),
      gate_cs = KERNEL_CS, gate_entry = link (routine_of v)\<rparr>"
    using g(1)[OF assms(2)] g(3) assms(2) by (simp add: gate_at_def read_intr_gate)
  then show ?thesis using g(2,3) by (auto simp: soft_int_def)
qed


section \<open>Messages\<close>

definition conv_ok :: "ptr \<Rightarrow> 'a console_scheme \<Rightarrow> bool" where
  "conv_ok conv s \<longleftrightarrow> near_screen s \<and> disjnt_rng (video_mem s) 4352 conv 64"

lemma conv_ok_cli [simp]: "conv_ok conv (cli s) = conv_ok conv s"
  by (simp add: conv_ok_def near_screen_def cli_def)

lemma render_plain: "37 \<notin> set msg \<Longrightarrow> render msg args = Some (map Chr msg)"
  by (induction msg) auto

lemma emit_chars: "fold (emit str) (map Chr msg) s = fold putc msg s"
  by (induction msg arbitrary: s) simp_all

lemma printf_plain:
  assumes "conv_ok conv s" "37 \<notin> set msg"
  obtains n t where "printf conv msg [] s = Some (Inr (n, t))" "but_for conv (fold putc msg s) t"
proof -
  have "pieces_ok conv (\<lambda>_. []) (map Chr msg) s" using assms(1) by (auto simp: pieces_ok_def conv_ok_def)
  from printf_loop_render(1)[OF render_plain[OF assms(2), of "[]"] but_for_refl this]
  obtain t where "printf_loop conv msg [] s = Some (Inr t)" "but_for conv (fold putc msg s) t"
    by (auto simp: prints_def emit_chars)
  then show thesis by (intro that[of "of_nat (length msg)" t]) (simp_all add: printf_def fbind_def)
qed

text \<open>Printing accesses no ports but those of the cursor.\<close>

definition cursor_only :: "'a machine_scheme \<Rightarrow> 'a machine_scheme \<Rightarrow> bool" where
  "cursor_only s t \<longleftrightarrow> (\<exists>evs. io_trace t = evs @ io_trace s \<and> (\<forall>e \<in> set evs. \<exists>d. e = Outb VGA1 d \<or> e = Outb VGA2 d))"

lemma cursor_only_putc: "near_screen s \<Longrightarrow> cursor_only s (putc c s)"
  by (auto simp: putc_eq cursor_only_def cursor_writes_def Let_def)

lemma cursor_only_trans: "cursor_only s t \<Longrightarrow> cursor_only t u \<Longrightarrow> cursor_only s u"
  unfolding cursor_only_def by (metis (no_types, lifting) Un_iff append.assoc set_append)

lemma cursor_only_print: "near_screen s \<Longrightarrow> cursor_only s (fold putc msg s)"
proof (induction msg arbitrary: s)
  case (Cons c msg)
  then show ?case using cursor_only_putc[of s c] putc_step(1)[of s c] cursor_only_trans by fastforce
qed (simp add: cursor_only_def)

lemma cursor_only_but_for: "but_for conv s t \<Longrightarrow> cursor_only r s \<Longrightarrow> cursor_only r t"
  by (auto simp: but_for_def cursor_only_def)

text \<open>The message of exception or line \<open>n\<close> begins with its name and its number.\<close>

definition decimal :: "nat \<Rightarrow> bytes" where
  "decimal n = (if n < 10 then [48 + of_nat n] else [48 + of_nat (n div 10), 48 + of_nat (n mod 10)])"

definition labelled :: "string \<Rightarrow> nat \<Rightarrow> bytes \<Rightarrow> bool" where
  "labelled what n msg \<longleftrightarrow> 37 \<notin> set msg \<and> take (length what + length (decimal n) + 1) msg = asc what @ decimal n @ [58]"


lemmas excpt_defs =
  excpt0_handler_def excpt1_handler_def excpt2_handler_def excpt3_handler_def excpt4_handler_def
  excpt5_handler_def excpt6_handler_def excpt7_handler_def excpt8_handler_def excpt9_handler_def
  excpt10_handler_def excpt11_handler_def excpt12_handler_def excpt13_handler_def excpt14_handler_def
  excpt15_handler_def excpt16_handler_def excpt17_handler_def excpt18_handler_def excpt19_handler_def
  excpt20_handler_def excpt21_handler_def excpt22_handler_def excpt23_handler_def excpt24_handler_def
  excpt25_handler_def excpt26_handler_def excpt27_handler_def excpt28_handler_def excpt29_handler_def
  excpt30_handler_def excpt31_handler_def

lemmas irq_defs =
  irq0_handler_def irq1_handler_def irq2_handler_def irq3_handler_def irq4_handler_def irq5_handler_def
  irq6_handler_def irq7_handler_def irq8_handler_def irq9_handler_def irq10_handler_def irq11_handler_def
  irq12_handler_def irq13_handler_def irq14_handler_def irq15_handler_def

lemma excpt_messages:
  assumes "n < 32"
  shows "\<exists>msg. excpt_handlers ! n = (exception_message msg :: ptr \<Rightarrow> 'a kernel_scheme \<Rightarrow> _) \<and> labelled ''EXCEPTION'' n msg"
proof -
  have "list_all (\<lambda>n. \<exists>msg. excpt_handlers ! n = (exception_message msg :: ptr \<Rightarrow> 'a kernel_scheme \<Rightarrow> _) \<and> labelled ''EXCEPTION'' n msg) [0..<32]"
    unfolding excpt_handlers_def excpt_defs
    by (simp add: upt_rec) (intro conjI exI, (rule refl | simp add: labelled_def decimal_def asc_def of_char_def)+)
  with assms show ?thesis by (simp add: list_all_iff)
qed

lemma irq_messages:
  assumes "n \<in> {2, 3, 4, 5, 6, 7, 9, 13, 14, 15}"
  shows "\<exists>msg. irq_link env n = irq_message msg (conv_buf (env_loc env)) \<and> labelled ''Interrupt'' n msg"
  using assms unfolding irq_defs irq_link_def
  by (elim insertE emptyE; simp add: irq_defs) (intro conjI exI, (rule refl | simp add: labelled_def decimal_def asc_def of_char_def)+)+


section \<open>Delivery\<close>

lemma deliver_eq:
  assumes "length (idt s0) = NUM_VEC" "idt s = idt (init_idt link base s0)" "idtr s = (- 1, base)"
    and "inj_on link (set all_routines)" "v < NUM_VEC"
  shows "deliver link env r v s = run_routine env r (routine_of v) (cli s)"
proof -
  note g = init_idt_gates[OF assms(1), where link = link and base = base]
  have "unat (- 1 :: u16) = 65535" by (simp add: unsigned_minus_1_eq_mask mask_eq_exp_minus_1)
  then have ga: "gate_at v s = Some \<lparr>gate_type = 14, gate_dpl = (if v = SYS_CALL then 3 else 0),
      gate_cs = KERNEL_CS, gate_entry = link (routine_of v)\<rparr>"
    using g(1)[OF assms(5)] g(3) assms(2,3,5) by (simp add: gate_at_def read_intr_gate)
  have mem: "routine_of v \<in> set all_routines" by (auto simp: routine_of_def all_routines_def)
  have "find (\<lambda>rt. link rt = link (routine_of v)) all_routines = Some (routine_of v)"
  proof (cases "find (\<lambda>rt. link rt = link (routine_of v)) all_routines")
    case None
    then show ?thesis using mem by (auto simp: find_None_iff)
  next
    case (Some rt)
    then have "rt \<in> set all_routines" "link rt = link (routine_of v)" by (auto simp: find_Some_iff)
    with Some show ?thesis using assms(4) mem by (simp add: inj_onD)
  qed
  then show ?thesis by (simp add: deliver_def ga)
qed

lemma printed_frame:
  assumes "conv_ok conv s" "but_for conv (fold putc msg s) t"
  shows "cursor_only s t" "if_flag t = if_flag s"
proof -
  have n: "near_screen s" using assms(1) by (simp add: conv_ok_def)
  show "cursor_only s t" by (rule cursor_only_but_for[OF assms(2) cursor_only_print[OF n]])
  have "screen_step 4352 s (fold putc msg s)" using fold_putc_step[OF n] by blast
  then have fr: "fold putc msg s = s\<lparr>mem := mem (fold putc msg s), io_trace := io_trace (fold putc msg s),
      screen_x := screen_x (fold putc msg s), screen_y := screen_y (fold putc msg s)\<rparr>"
    unfolding screen_step_def by (rule conjunct1)
  have "if_flag (fold putc msg s) = if_flag s" by (subst fr) simp
  then show "if_flag t = if_flag s" using assms(2) by (auto simp: but_for_def)
qed

lemma exception_message_eq:
  assumes "conv_ok conv s" "37 \<notin> set msg"
  shows "\<exists>t. exception_message msg conv s = Some (Inr (Loops, t)) \<and> but_for conv (fold putc msg s) t"
proof -
  obtain n t where "printf conv msg [] s = Some (Inr (n, t))" "but_for conv (fold putc msg s) t"
    by (rule printf_plain[OF assms])
  then show ?thesis by (simp add: exception_message_def)
qed

lemma irq_message_eq:
  assumes "conv_ok conv s" "37 \<notin> set msg"
  shows "\<exists>t u. irq_message msg conv s = Some (Inr (Iret (Returned 0), u)) \<and> but_for conv (fold putc msg (cli s)) t \<and>
    u = sti (outb 0x20 0x20 t) \<and> cursor_only s t"
proof -
  have c: "conv_ok conv (cli s)" using assms(1) by simp
  obtain n t where t: "printf conv msg [] (cli s) = Some (Inr (n, t))" "but_for conv (fold putc msg (cli s)) t"
    by (rule printf_plain[OF c assms(2)])
  moreover have "cursor_only s t" using printed_frame(1)[OF c t(2)] by (simp add: cursor_only_def cli_def)
  ultimately show ?thesis by (auto simp: irq_message_def Let_def)
qed


lemma provisional_interrupt_eq:
  assumes "conv_ok conv s"
  shows "\<exists>t. provisional_interrupt conv s = Some (Inr (Near_Ret, t)) \<and> cursor_only s t \<and> if_flag t"
proof -
  let ?m = "asc ''provisional interrupt: EMPTY''"
  have np: "37 \<notin> set ?m" by (simp add: asc_def of_char_def)
  have c: "conv_ok conv (cli s)" using assms by simp
  obtain n t where t: "printf conv ?m [] (cli s) = Some (Inr (n, t))" "but_for conv (fold putc ?m (cli s)) t"
    by (rule printf_plain[OF c np])
  have "cursor_only s (sti t)" "if_flag (sti t)"
    using printed_frame(1)[OF c t(2)] by (simp_all add: cli_def sti_def cursor_only_def)
  with t(1) show ?thesis by (simp add: provisional_interrupt_def)
qed

lemma provisional_vectors:
  assumes "\<not> v < 32" "v \<notin> {32, 33, 40, SYS_CALL, 34, 35, 36, 37, 38, 39, 41, 45, 46, 47}"
  shows "routine_of v = Provisional_Interrupt"
proof -
  have "v \<in> {42, 43, 44}" if "v < 48"
  proof -
    have "v - 32 < 16" "v = 32 + (v - 32)" using that assms(1) by auto
    then obtain k where "k < 16" "v = 32 + k" by blast
    with assms(2) show ?thesis by (auto simp: eval_nat_numeral less_Suc_eq)
  qed
  with assms show ?thesis by (auto simp: routine_of_def)
qed

text \<open>
  C11: where an interrupt goes. Once \<open>init_idt\<close> has run, each of the 32 exceptions prints a message
  that begins with its name and number and stops the machine, with interrupts disabled. The timer,
  the keyboard, the real time clock and the system call reach their handlers, entered with
  interrupts disabled. The other connected lines print their message, acknowledge the interrupt,
  and enable interrupts. They write to the master controller only: on lines 9, 13, 14 and 15 the
  slave controller, which raised the interrupt, is never told. Any other vector, those of lines 10, 11
  and 12 included, is acknowledged nowhere and ends in a return that is not that of an interrupt.
\<close>

theorem interrupt_delivery:
  fixes s s0 :: "'a interrupts_scheme"
  assumes "length (idt s0) = NUM_VEC" "idt s = idt (init_idt link base s0)" "idtr s = (- 1, base)"
    and "inj_on link (set all_routines)" "v < NUM_VEC"
    and conv: "conv_ok (conv_buf (env_loc env)) s"
  shows "if v < 32
    then \<exists>msg t. deliver link env r v s = Some (Inr (Loops, t)) \<and> labelled ''EXCEPTION'' v msg \<and>
      but_for (conv_buf (env_loc env)) (fold putc msg (cli s)) t \<and> \<not> if_flag t
    else if v = 32 then deliver link env r v s = iret (pit_handler (env_loc env) (cli s))
    else if v = 33 then deliver link env r v s = iret (keyboard_handler (env_loc env) (prompt_str env) (cli s))
    else if v = 40 then deliver link env r v s = iret (fbind (lift (rtc_handler (cli s))) (\<lambda>s. Some (Inr (Returned 0, s))))
    else if v = SYS_CALL then deliver link env r v s = iret (sys_call env (eax r) (ebx r) (ecx r) (edx r) (cli s))
    else if v \<in> {34, 35, 36, 37, 38, 39, 41, 45, 46, 47}
    then \<exists>msg t u. deliver link env r v s = Some (Inr (Iret (Returned 0), u)) \<and> labelled ''Interrupt'' (v - 32) msg \<and>
      but_for (conv_buf (env_loc env)) (fold putc msg (cli s)) t \<and> u = sti (outb 0x20 MASTER_8259_PORT t) \<and> cursor_only s t
    else \<exists>t. deliver link env r v s = Some (Inr (Near_Ret, t)) \<and> cursor_only s t \<and> if_flag t"
proof -
  let ?c = "conv_buf (env_loc env)"
  note d = deliver_eq[OF assms(1-5), of env r]
  have c: "conv_ok ?c (cli s)" using conv by simp
  consider "v < 32" | "v \<in> {32, 33, 40, SYS_CALL}" | "v \<in> {34, 35, 36, 37, 38, 39, 41, 45, 46, 47}" |
    "\<not> v < 32" "v \<notin> {32, 33, 40, SYS_CALL, 34, 35, 36, 37, 38, 39, 41, 45, 46, 47}" by blast
  then show ?thesis
  proof cases
    case 1
    then obtain msg where m: "excpt_handlers ! v = (exception_message msg :: ptr \<Rightarrow> 'a interrupts_scheme \<Rightarrow> _)"
      "labelled ''EXCEPTION'' v msg" using excpt_messages by blast
    then obtain t where t: "exception_message msg ?c (cli s) = Some (Inr (Loops, t))" "but_for ?c (fold putc msg (cli s)) t"
      using exception_message_eq[OF c, of msg] by (auto simp: labelled_def)
    have "\<not> if_flag t" using printed_frame(2)[OF c t(2)] by (simp add: cli_def)
    then show ?thesis using 1 d m t by (auto simp: run_routine_def routine_of_def)
  next
    case 2
    from this d show ?thesis
      by (elim insertE emptyE) (simp_all add: run_routine_def routine_of_def irq_link_def Let_def)
  next
    case 3
    then have k: "v - 32 \<in> {2, 3, 4, 5, 6, 7, 9, 13, 14, 15}" "routine_of v = Irq (v - 32)"
      by (auto simp: routine_of_def)
    then obtain msg where m: "irq_link env (v - 32) = (irq_message msg ?c :: 'a interrupts_scheme \<Rightarrow> _)"
      "labelled ''Interrupt'' (v - 32) msg" using irq_messages by blast
    then obtain t u where t: "irq_message msg ?c (cli s) = Some (Inr (Iret (Returned 0), u))"
      "but_for ?c (fold putc msg (cli (cli s))) t" "u = sti (outb 0x20 0x20 t)" "cursor_only (cli s) t"
      using irq_message_eq[OF c, of msg] by (auto simp: labelled_def)
    have "cli (cli s) = cli s" "cursor_only s t" using t(4) by (simp_all add: cli_def cursor_only_def)
    with t m have "\<exists>msg t u. deliver link env r v s = Some (Inr (Iret (Returned 0), u)) \<and> labelled ''Interrupt'' (v - 32) msg \<and>
      but_for ?c (fold putc msg (cli s)) t \<and> u = sti (outb 0x20 MASTER_8259_PORT t) \<and> cursor_only s t"
      using d k(2) by (auto simp: run_routine_def)
    with 3 show ?thesis by auto
  next
    case 4
    obtain t where "provisional_interrupt ?c (cli s) = Some (Inr (Near_Ret, t))" "cursor_only s t" "if_flag t"
      using provisional_interrupt_eq[OF c] by (auto simp: cursor_only_def cli_def)
    with 4 d provisional_vectors[OF 4] show ?thesis by (auto simp: run_routine_def)
  qed
qed


section \<open>Witnesses\<close>

text \<open>A machine before the table is set up, and one way to place the routines.\<close>

definition blank_gate :: idt_desc_t where
  "blank_gate = \<lparr>offset_15_00 = 0, seg_selector = 0, reserved4 = 0, reserved3 = 0, reserved2 = 0, reserved1 = 0,
     gate_size = 0, reserved0 = 0, dpl = 0, present = 0, offset_31_16 = 0\<rparr>"

definition demo_booting :: interrupts where
  "demo_booting = kernel.extend demo_kernel (interrupts.fields (replicate NUM_VEC blank_gate) (0, 0))"

fun demo_link :: "routine \<Rightarrow> ptr" where
  "demo_link (Excpt n) = 0x400000 + of_nat n"
| "demo_link (Irq n) = 0x400100 + of_nat n"
| "demo_link Sys_Call = 0x400200"
| "demo_link Provisional_Exception = 0x400300"
| "demo_link Provisional_Interrupt = 0x400400"

definition demo_env :: sys_env where
  "demo_env = \<lparr>env_loc = demo_locals, prompt_str = 0x410060, read_buffer = 0x700300, write_buffer = 0x700400, arrivals = []\<rparr>"

lemma demo_booting_fields: "length (idt demo_booting) = NUM_VEC" "conv_ok (conv_buf demo_locals) demo_booting"
proof -
  show "length (idt demo_booting) = NUM_VEC" by (simp add: demo_booting_def kernel.defs interrupts.defs)
  have "near_screen demo_booting = near_screen demo_kernel" "video_mem demo_booting = video_mem demo_kernel"
    by (simp_all add: near_screen_def demo_booting_def kernel.defs interrupts.defs)
  then show "conv_ok (conv_buf demo_locals) demo_booting"
    by (simp add: conv_ok_def near_screen_def demo_locals_def disjnt_rng_below)
qed

lemma demo_link_inj: "inj_on demo_link (set all_routines)"
proof -
  have "demo_link a \<noteq> demo_link b" if "a \<in> set all_routines" "b \<in> set all_routines" "a \<noteq> b" for a b
    using that by (auto simp: all_routines_def word_unat_eq_iff unat_word_ariths)
  then show ?thesis by (meson inj_onI)
qed

theorem init_idt_types_witness:
  "gate_at 14 (init_idt demo_link 0x430000 demo_booting) =
      Some \<lparr>gate_type = 14, gate_dpl = 0, gate_cs = KERNEL_CS, gate_entry = 0x40000E\<rparr> \<and>
    soft_int 14 (init_idt demo_link 0x430000 demo_booting) = 13 \<and>
    soft_int 0x80 (init_idt demo_link 0x430000 demo_booting) = 0x80"
  using init_idt_types[OF demo_booting_fields(1), of 14 demo_link "0x430000"]
    init_idt_types[OF demo_booting_fields(1), of "0x80" demo_link "0x430000"]
  by (simp add: routine_of_def)

theorem interrupt_delivery_witness:
  "\<exists>t u msg. deliver demo_link demo_env \<lparr>eax = 0, ebx = 0, ecx = 0, edx = 0\<rparr> 41 (init_idt demo_link 0x430000 demo_booting) =
      Some (Inr (Iret (Returned 0), u)) \<and> u = sti (outb 0x20 MASTER_8259_PORT t) \<and>
    cursor_only (init_idt demo_link 0x430000 demo_booting) t \<and> labelled ''Interrupt'' 9 msg"
proof -
  let ?s = "init_idt demo_link 0x430000 demo_booting"
  note g = init_idt_gates[OF demo_booting_fields(1), where link = demo_link and base = "0x430000"]
  have i: "idtr ?s = (- 1, 0x430000)" by (subst g(2)) simp
  have "screen_x ?s = screen_x demo_booting" "screen_y ?s = screen_y demo_booting" "video_mem ?s = video_mem demo_booting"
    by (subst g(2), simp)+
  then have "conv_ok (conv_buf (env_loc demo_env)) ?s"
    using demo_booting_fields(2) by (simp add: conv_ok_def near_screen_def demo_env_def)
  from interrupt_delivery[OF demo_booting_fields(1) refl i demo_link_inj _ this, of 41 "\<lparr>eax = 0, ebx = 0, ecx = 0, edx = 0\<rparr>"]
  show ?thesis by simp blast
qed

end
