(* ===== verification/Boot.thy ===== *)
theory Boot
  imports Interrupts
begin

text \<open>
  The entry point of \<^verbatim>\<open>student-distrib/kernel.c\<close>: the report on what the boot loader left, the segment
  descriptors for the local descriptor table and the task state segment, and the initialisers of
  the other theories in their order. Of the tests only what is compiled in is modelled:
  \<open>launch_tests\<close> clears the screen. Paging is off until \<open>init_paging\<close>, so that the structures of the
  boot loader are read at their physical addresses.

  The theorem is the base of the invariants of the other theories: the state in which the first
  shell is started satisfies them.
\<close>

section \<open>Segment descriptors\<close>

record seg_desc_t =
  seg_lim_15_00 :: u16
  base_15_00 :: u16
  base_23_16 :: u8
  seg_type :: "4 word"
  sys :: "1 word"
  seg_dpl :: "2 word"
  seg_present :: "1 word"
  seg_lim_19_16 :: "4 word"
  avail :: "1 word"
  seg_reserved :: "1 word"
  opsize :: "1 word"
  granularity :: "1 word"
  base_31_24 :: u8

text \<open>The macros \<^verbatim>\<open>SET_LDT_PARAMS\<close> and \<^verbatim>\<open>SET_TSS_PARAMS\<close>, which are the same.\<close>

definition SET_PARAMS :: "u32 \<Rightarrow> u32 \<Rightarrow> seg_desc_t \<Rightarrow> seg_desc_t" where
  "SET_PARAMS addr lim d =
    d\<lparr>base_31_24 := ucast (drop_bit 24 (addr AND 0xFF000000)), base_23_16 := ucast (drop_bit 16 (addr AND 0x00FF0000)),
      base_15_00 := ucast (addr AND 0x0000FFFF), seg_lim_19_16 := ucast (drop_bit 16 (lim AND 0x000F0000)),
      seg_lim_15_00 := ucast (lim AND 0x0000FFFF)\<rparr>"

record boot = interrupts +
  ldt_desc_ptr :: seg_desc_t
  tss_desc_ptr :: seg_desc_t
  ldt_register :: u16
  task_register :: u16
  tss_ldt_segment_selector :: u16

abbreviation (input) KERNEL_TSS :: u16 where "KERNEL_TSS \<equiv> 0x30"
abbreviation (input) KERNEL_LDT :: u16 where "KERNEL_LDT \<equiv> 0x38"
abbreviation (input) TSS_SIZE :: u32 where "TSS_SIZE \<equiv> 104"

definition lldt :: "u16 \<Rightarrow> 'a boot_scheme \<Rightarrow> 'a boot_scheme" where
  "lldt desc s = s\<lparr>ldt_register := desc\<rparr>"

definition ltr :: "u16 \<Rightarrow> 'a boot_scheme \<Rightarrow> 'a boot_scheme" where
  "ltr desc s = s\<lparr>task_register := desc\<rparr>"

text \<open>
  What the linker and the stack provide: the descriptors \<^verbatim>\<open>the_ldt_desc\<close> and \<^verbatim>\<open>the_tss_desc\<close> and the
  entries in \<open>init_paging\<close> are local variables that are not initialised.
\<close>

record boot_env =
  boot_loc :: exec_locals
  boot_link :: "routine \<Rightarrow> ptr"
  idt_base :: ptr
  ldt_addr :: u32
  ldt_size :: u32
  tss_addr :: u32
  tss_size :: u32
  ldt_junk :: seg_desc_t
  tss_junk :: seg_desc_t
  pde_junk :: u32
  pte_junk :: u32

definition init_ldt :: "boot_env \<Rightarrow> 'a boot_scheme \<Rightarrow> 'a boot_scheme" where
  "init_ldt be s =
    (let d = ldt_junk be;
         d = d\<lparr>granularity := 0\<rparr>;
         d = d\<lparr>opsize := 1\<rparr>;
         d = d\<lparr>seg_reserved := 0\<rparr>;
         d = d\<lparr>avail := 0\<rparr>;
         d = d\<lparr>seg_present := 1\<rparr>;
         d = d\<lparr>seg_dpl := 0\<rparr>;
         d = d\<lparr>sys := 0\<rparr>;
         d = d\<lparr>seg_type := 2\<rparr>;
         d = SET_PARAMS (ldt_addr be) (ldt_size be) d;
         s = s\<lparr>ldt_desc_ptr := d\<rparr>
     in lldt KERNEL_LDT s)"

definition init_tss :: "boot_env \<Rightarrow> 'a boot_scheme \<Rightarrow> 'a boot_scheme" where
  "init_tss be s =
    (let d = tss_junk be;
         d = d\<lparr>granularity := 0\<rparr>;
         d = d\<lparr>opsize := 0\<rparr>;
         d = d\<lparr>seg_reserved := 0\<rparr>;
         d = d\<lparr>avail := 0\<rparr>;
         d = d\<lparr>seg_lim_19_16 := ucast (TSS_SIZE AND 0x000F0000)\<rparr>;
         d = d\<lparr>seg_present := 1\<rparr>;
         d = d\<lparr>seg_dpl := 0\<rparr>;
         d = d\<lparr>sys := 0\<rparr>;
         d = d\<lparr>seg_type := 9\<rparr>;
         d = d\<lparr>seg_lim_15_00 := ucast (TSS_SIZE AND 0x0000FFFF)\<rparr>;
         d = SET_PARAMS (tss_addr be) (tss_size be) d;
         s = s\<lparr>tss_desc_ptr := d\<rparr>;
         s = s\<lparr>tss_ldt_segment_selector := KERNEL_LDT\<rparr>;
         s = s\<lparr>tss_ss0 := KERNEL_DS\<rparr>;
         s = s\<lparr>tss_esp0 := 0x800000\<rparr>
     in ltr KERNEL_TSS s)"

section \<open>The report\<close>

abbreviation (input) MULTIBOOT_BOOTLOADER_MAGIC :: u32 where "MULTIBOOT_BOOTLOADER_MAGIC \<equiv> 0x2BADB002"

text \<open>The structures of the boot loader at their offsets.\<close>

definition mbi_flags :: "ptr \<Rightarrow> 'a machine_scheme \<Rightarrow> u32" where "mbi_flags mbi s = ld32 (mem s) mbi"
definition mem_lower :: "ptr \<Rightarrow> 'a machine_scheme \<Rightarrow> u32" where "mem_lower mbi s = ld32 (mem s) (mbi + 4)"
definition mem_upper :: "ptr \<Rightarrow> 'a machine_scheme \<Rightarrow> u32" where "mem_upper mbi s = ld32 (mem s) (mbi + 8)"
definition boot_device :: "ptr \<Rightarrow> 'a machine_scheme \<Rightarrow> u32" where "boot_device mbi s = ld32 (mem s) (mbi + 12)"
definition cmdline :: "ptr \<Rightarrow> 'a machine_scheme \<Rightarrow> u32" where "cmdline mbi s = ld32 (mem s) (mbi + 16)"
definition mods_count :: "ptr \<Rightarrow> 'a machine_scheme \<Rightarrow> u32" where "mods_count mbi s = ld32 (mem s) (mbi + 20)"
definition mods_addr :: "ptr \<Rightarrow> 'a machine_scheme \<Rightarrow> u32" where "mods_addr mbi s = ld32 (mem s) (mbi + 24)"
definition mmap_length :: "ptr \<Rightarrow> 'a machine_scheme \<Rightarrow> u32" where "mmap_length mbi s = ld32 (mem s) (mbi + 44)"
definition mmap_addr :: "ptr \<Rightarrow> 'a machine_scheme \<Rightarrow> u32" where "mmap_addr mbi s = ld32 (mem s) (mbi + 48)"
definition mod_start :: "ptr \<Rightarrow> 'a machine_scheme \<Rightarrow> u32" where "mod_start p s = ld32 (mem s) p"
definition mod_end :: "ptr \<Rightarrow> 'a machine_scheme \<Rightarrow> u32" where "mod_end p s = ld32 (mem s) (p + 4)"

definition CHECK_FLAG :: "u32 \<Rightarrow> nat \<Rightarrow> bool" where
  "CHECK_FLAG flags n \<longleftrightarrow> flags AND push_bit n 1 \<noteq> 0"

type_synonym 's said = "(fault + 's) option"

definition say :: "ptr \<Rightarrow> bytes \<Rightarrow> u32 list \<Rightarrow> 'a console_scheme \<Rightarrow> 'a console_scheme said" where
  "say conv fmt args s = fbind (printf conv fmt args s) (\<lambda>(_, s). Some (Inr s))"

text \<open>The type \<^verbatim>\<open>char\<close> is signed.\<close>

fun first_bytes :: "ptr \<Rightarrow> ptr \<Rightarrow> nat list \<Rightarrow> 'a console_scheme \<Rightarrow> 'a console_scheme said" where
  "first_bytes conv p [] s = Some (Inr s)"
| "first_bytes conv p (i # is) s =
    fbind (say conv (asc ''0x%x '') [scast (mem s (mod_start p s + of_nat i))] s) (first_bytes conv p is)"

partial_function (option) list_modules ::
  "ptr \<Rightarrow> ptr \<Rightarrow> u32 \<Rightarrow> ptr \<Rightarrow> 'a console_scheme \<Rightarrow> 'a console_scheme said" where
  "list_modules conv mbi mod_count p s =
    (if mod_count < mods_count mbi s
     then Option.bind
      (fbind (say conv (asc ''Module %d loaded at address: 0x%#x'' @ [10]) [mod_count, mod_start p s] s) (\<lambda>s.
       fbind (say conv (asc ''Module %d ends at address: 0x%#x'' @ [10]) [mod_count, mod_end p s] s) (\<lambda>s.
       fbind (say conv (asc ''First few bytes of module:'' @ [10]) [] s) (\<lambda>s.
       fbind (first_bytes conv p [0..<16] s) (say conv [10] [])))))
      (\<lambda>r. case r of Inl f \<Rightarrow> Some (Inl f) | Inr s \<Rightarrow> list_modules conv mbi (mod_count + 1) (p + 16) s)
     else Some (Inr s))"

partial_function (option) list_mmap :: "ptr \<Rightarrow> ptr \<Rightarrow> ptr \<Rightarrow> 'a console_scheme \<Rightarrow> 'a console_scheme said" where
  "list_mmap conv mbi p s =
    (if p < mmap_addr mbi s + mmap_length mbi s
     then Option.bind
      (say conv (asc ''    size = 0x%x, base_addr = 0x%#x%#x'' @ [10] @ asc ''    type = 0x%x,  length    = 0x%#x%#x'' @ [10])
        [ld32 (mem s) p, ld32 (mem s) (p + 8), ld32 (mem s) (p + 4), ld32 (mem s) (p + 20), ld32 (mem s) (p + 16),
         ld32 (mem s) (p + 12)] s)
      (\<lambda>r. case r of Inl f \<Rightarrow> Some (Inl f) | Inr s \<Rightarrow> list_mmap conv mbi (p + ld32 (mem s) p + 4) s)
     else Some (Inr s))"

definition when_flag ::
  "ptr \<Rightarrow> nat \<Rightarrow> ('a console_scheme \<Rightarrow> 'a console_scheme said) \<Rightarrow> 'a console_scheme \<Rightarrow> 'a console_scheme said" where
  "when_flag mbi n f s = (if CHECK_FLAG (mbi_flags mbi s) n then f s else Some (Inr s))"

definition report_start :: "ptr \<Rightarrow> ptr \<Rightarrow> 'a console_scheme \<Rightarrow> 'a console_scheme said" where
  "report_start conv mbi s =
    fbind (say conv (asc ''flags = 0x%#x'' @ [10]) [mbi_flags mbi s] s) (\<lambda>s.
    fbind (when_flag mbi 0 (\<lambda>s.
      say conv (asc ''mem_lower = %uKB, mem_upper = %uKB'' @ [10]) [mem_lower mbi s, mem_upper mbi s] s) s) (\<lambda>s.
    fbind (when_flag mbi 1 (\<lambda>s. say conv (asc ''boot_device = 0x%#x'' @ [10]) [boot_device mbi s] s) s) (\<lambda>s.
    fbind (when_flag mbi 2 (\<lambda>s. say conv (asc ''cmdline = %s'' @ [10]) [cmdline mbi s] s) s) (\<lambda>s.
    when_flag mbi 3 (\<lambda>s. list_modules conv mbi 0 (mods_addr mbi s) s) s))))"

definition report_end :: "ptr \<Rightarrow> ptr \<Rightarrow> 'a console_scheme \<Rightarrow> 'a console_scheme said" where
  "report_end conv mbi s =
    fbind (when_flag mbi 5 (\<lambda>s.
      say conv (asc ''elf_sec: num = %u, size = 0x%#x, addr = 0x%#x, shndx = 0x%#x'' @ [10])
        [ld32 (mem s) (mbi + 28), ld32 (mem s) (mbi + 32), ld32 (mem s) (mbi + 36), ld32 (mem s) (mbi + 40)] s) s) (\<lambda>s.
    when_flag mbi 6 (\<lambda>s.
      fbind (say conv (asc ''mmap_addr = 0x%#x, mmap_length = 0x%x'' @ [10]) [mmap_addr mbi s, mmap_length mbi s] s) (\<lambda>s.
      list_mmap conv mbi (mmap_addr mbi s) s)) s)"

section \<open>The initialisation\<close>

definition launch_tests :: "'a console_scheme \<Rightarrow> 'a console_scheme" where
  "launch_tests s = clear s"

definition init_devices :: "boot_env \<Rightarrow> ptr \<Rightarrow> 'a boot_scheme \<Rightarrow> 'a boot_scheme said" where
  "init_devices be mbi s =
    (let s = init_ldt be s;
         s = init_tss be s;
         s = i8259_init s;
         s = init_filesys (mod_start (mods_addr mbi s) s) s;
         s = init_paging (pde_junk be) (pte_junk be) s;
         s = init_idt (boot_link be) (idt_base be) s;
         s = rtc_init s
     in fbind (lift (terminal_init s)) (\<lambda>s.
        fbind (sched_init (conv_buf (boot_loc be)) s) (\<lambda>s.
        Some (Inr (launch_tests s)))))"

text \<open>The entry point ends in its own return, in the shell, or in the loop after a shell that did not start.\<close>

datatype boot_flow = Entry_Returns | Spins | Runs flow

definition start_shell :: "exec_locals \<Rightarrow> 'a kernel_scheme \<Rightarrow> (fault + boot_flow \<times> 'a kernel_scheme) option" where
  "start_shell loc s =
    fbind (execute loc (dechar (shell_str s)) s) (\<lambda>(fl, s).
      Some (Inr (case fl of Ret _ \<Rightarrow> Spins | _ \<Rightarrow> Runs fl, s)))"

definition entry_point ::
  "boot_env \<Rightarrow> u32 \<Rightarrow> ptr \<Rightarrow> 'a boot_scheme \<Rightarrow> (fault + boot_flow \<times> 'a boot_scheme) option" where
  "entry_point be magic addr s =
    (let conv = conv_buf (boot_loc be); s = clear s
     in if magic \<noteq> MULTIBOOT_BOOTLOADER_MAGIC
        then fbind (say conv (asc ''Invalid magic number: 0x%#x'' @ [10]) [magic] s) (\<lambda>s. Some (Inr (Entry_Returns, s)))
        else
          fbind (report_start conv addr s) (\<lambda>s.
            if CHECK_FLAG (mbi_flags addr s) 4 \<and> CHECK_FLAG (mbi_flags addr s) 5
            then fbind (say conv (asc ''Both bits 4 and 5 are set.'' @ [10]) [] s) (\<lambda>s. Some (Inr (Entry_Returns, s)))
            else
              fbind (report_end conv addr s) (\<lambda>s.
              fbind (init_devices be addr s) (\<lambda>s.
              start_shell (boot_loc be) s))))"


section \<open>The pages of the terminals\<close>

lemma map_own_page:
  assumes km: "kernel_mapped s" and v: "small_page v" "v AND mask 12 = 0" "v \<noteq> 0"
  shows "\<exists>pd pt. snd (map_v_p v v 0 1 1 s) = s\<lparr>page_dir := pd, page_table := pt\<rparr> \<and>
    kernel_mapped (s\<lparr>page_dir := pd, page_table := pt\<rparr>) \<and>
    (\<forall>a. walk (s\<lparr>page_dir := pd, page_table := pt\<rparr>) a =
      (if drop_bit 12 a = drop_bit 12 v then Some (a, True, True) else walk s a))"
proof -
  have low: "low_mapped s" and ok: "paging_ok s" using km by (simp_all add: kernel_mapped_def low_mapped_def)
  note w = walk_map_4kb[OF ok v(1,2,3), where rw = 1 and us = 1]
  let ?t = "map_4kb v v 1 1 s"
  have e: "\<exists>pd pt. ?t = s\<lparr>page_dir := pd, page_table := pt\<rparr>"
    using map_4kb_eq[OF v(1,2,3), of 1 1 s] by (auto simp: map_4kb_def)
  have "walk ?t (0x400000 + q) = walk s (0x400000 + q)" if "q < 0x400000" for q
    using w(4) kernel_page_index[OF that] by simp
  then have "kernel_mapped ?t" using km w(3) by (simp add: kernel_mapped_def)
  moreover have "walk ?t a = (if drop_bit 12 a = drop_bit 12 v then Some (a, True, True) else walk s a)" for a
  proof (cases "drop_bit 12 a = drop_bit 12 v")
    case True
    then obtain q where "a = v + q" "q < 2 ^ 12" using small.in_page[of v a] v by auto
    then show ?thesis using w(1)[of q] True v(3) by simp
  qed (use w(2)[OF low] in simp)
  ultimately show ?thesis using e unfolding map_4kb_def by metis
qed

lemma term_page_small:
  assumes "x < 3"
  shows "small_page (term_page x)" "term_page x AND mask 12 = 0" "term_page x \<noteq> 0" "drop_bit 12 (term_page x) = 0xD0 + of_nat x"
proof -
  have "x = 0 \<or> x = 1 \<or> x = 2" using assms by auto
  then show "small_page (term_page x)" "term_page x AND mask 12 = 0" "term_page x \<noteq> 0" "drop_bit 12 (term_page x) = 0xD0 + of_nat x"
    by (auto simp: term_page_def small_page_def mask_eq_exp_minus_1 drop_bit_eq_div)
qed

definition in_terms :: "ptr \<Rightarrow> bool" where
  "in_terms a \<longleftrightarrow> in_rng 0xD0000 12288 a"

lemma term_copy_out:
  assumes "x < 3" "\<not> in_terms a"
  shows "memcpy m (term_page x) VIDEO 4096 a = m a"
proof -
  have u: "unat (term_page x) = 0xD0000 + 4096 * x" by (rule unat_term_page[OF assms(1)])
  have "disjnt_rng VIDEO 4096 (term_page x) 4096" using u assms(1) by (intro disjnt_rng_below) simp_all
  then have d: "disjnt_rng (term_page x) 4096 VIDEO 4096" by (rule disjnt_rng_sym)
  have "\<not> in_rng (term_page x) 4096 a" using assms u by (auto simp: in_terms_def in_rng_unat)
  then show ?thesis using memcpy_eq[of "term_page x" VIDEO 4096 m] disjnt_fwd_ok[OF d] by (simp add: wr_bytes_out)
qed

lemma sched_pages_eq:
  assumes "kernel_mapped s" "set xs \<subseteq> {..<3}"
  shows "\<exists>t. sched_pages conv xs s = Some (Inr t) \<and>
    t = s\<lparr>mem := mem t, running_procs := fold (\<lambda>x r. r[x := - 1]) xs (running_procs s), page_dir := page_dir t, page_table := page_table t\<rparr> \<and>
    kernel_mapped t \<and> (\<forall>a. walk t a = (if drop_bit 12 a \<in> (\<lambda>x. 0xD0 + of_nat x) ` set xs then Some (a, True, True) else walk s a)) \<and>
    (\<forall>a. \<not> in_terms a \<longrightarrow> mem t a = mem s a)"
  using assms
proof (induction xs arbitrary: s)
  case (Cons x xs)
  have x: "x < 3" using Cons.prems(2) by simp
  then have g: "get_term_vid_addr conv (of_nat x) u = Some (Inr (term_page x, u))" for u :: "'a paging_scheme"
    using get_term_vid_addr_eq[of "of_nat x" conv u] by (simp add: word_le_nat_alt unat_of_nat32)
  let ?s1 = "s\<lparr>running_procs := (running_procs s)[x := - 1]\<rparr>"
  have low: "low_mapped s" using Cons.prems(1) by (simp add: kernel_mapped_def)
  have w1: "walk ?s1 = walk s" "kernel_mapped ?s1" using walk_cong(1,3)[OF low, of ?s1] Cons.prems(1) by simp_all
  obtain pd pt where m: "snd (map_v_p (term_page x) (term_page x) 0 1 1 ?s1) = ?s1\<lparr>page_dir := pd, page_table := pt\<rparr>"
    "kernel_mapped (?s1\<lparr>page_dir := pd, page_table := pt\<rparr>)"
    "\<forall>a. walk (?s1\<lparr>page_dir := pd, page_table := pt\<rparr>) a = (if drop_bit 12 a = 0xD0 + of_nat x then Some (a, True, True) else walk s a)"
    using map_own_page[OF w1(2) term_page_small(1-3)[OF x]] unfolding w1(1) term_page_small(4)[OF x] by blast
  let ?s2 = "?s1\<lparr>page_dir := pd, page_table := pt\<rparr>"
  let ?s3 = "?s2\<lparr>mem := memcpy (mem s) (term_page x) VIDEO 4096\<rparr>"
  have low2: "low_mapped ?s2" using m(2) by (simp add: kernel_mapped_def)
  have w3: "walk ?s3 = walk ?s2" "kernel_mapped ?s3" using walk_cong(1,3)[OF low2, of ?s3] m(2) by simp_all
  obtain t where t: "sched_pages conv xs ?s3 = Some (Inr t)"
    "t = ?s3\<lparr>mem := mem t, running_procs := fold (\<lambda>x r. r[x := - 1]) xs (running_procs ?s3), page_dir := page_dir t, page_table := page_table t\<rparr>"
    "kernel_mapped t" "\<forall>a. walk t a = (if drop_bit 12 a \<in> (\<lambda>x. 0xD0 + of_nat x) ` set xs then Some (a, True, True) else walk ?s3 a)"
    "\<forall>a. \<not> in_terms a \<longrightarrow> mem t a = mem ?s3 a"
    using Cons.IH[OF w3(2)] Cons.prems(2) by auto
  have "sched_pages conv (x # xs) s = Some (Inr t)" using t(1) m(1) by (simp add: g Let_def)
  moreover have "t = s\<lparr>mem := mem t, running_procs := fold (\<lambda>x r. r[x := - 1]) (x # xs) (running_procs s), page_dir := page_dir t, page_table := page_table t\<rparr>"
    using t(2) by simp
  moreover have "walk t a = (if drop_bit 12 a \<in> (\<lambda>x. 0xD0 + of_nat x) ` set (x # xs) then Some (a, True, True) else walk s a)" for a
    using t(4) m(3) w3(1) by auto
  moreover have "mem t a = mem s a" if "\<not> in_terms a" for a using t(5) that term_copy_out[OF x that] by simp
  ultimately show ?case using t(3) by blast
qed (auto intro: exI[of _ s])


section \<open>The state after the initialisation\<close>

lemma init_paging_state:
  assumes "page_table_addr s AND 0xFFF = 0"
  shows "kernel_mapped (init_paging j1 j2 s)"
    "walk (init_paging j1 j2 s) a = (if drop_bit 22 a = 1 \<or> drop_bit 12 a = 0xB8 then Some (a, True, True) else None)"
    "init_paging j1 j2 s = s\<lparr>page_dir := page_dir (init_paging j1 j2 s), page_table := page_table (init_paging j1 j2 s),
      cr3 := cr3 (init_paging j1 j2 s), cr4 := cr4 (init_paging j1 j2 s), cr0 := cr0 (init_paging j1 j2 s)\<rparr>"
proof -
  let ?t = "map_4kb VIDEO VIDEO 1 1 (map_4mb 0x400000 0x400000 1 1 (blank_tables j1 j2 s))"
  have e: "walk (init_paging j1 j2 s) b = walk ?t b" "low_mapped (init_paging j1 j2 s) = low_mapped ?t" for b
    by (simp_all add: init_paging_eq enable_paging_def walk_def low_mapped_def paging_ok_def Let_def)
  note w = walk_video_page[OF assms, of j1 j2]
  show "walk (init_paging j1 j2 s) a = (if drop_bit 22 a = 1 \<or> drop_bit 12 a = 0xB8 then Some (a, True, True) else None)"
    using e w(1) by simp
  show "kernel_mapped (init_paging j1 j2 s)" using e w by (simp add: kernel_mapped_def kernel_page_index)
  show "init_paging j1 j2 s = s\<lparr>page_dir := page_dir (init_paging j1 j2 s), page_table := page_table (init_paging j1 j2 s),
      cr3 := cr3 (init_paging j1 j2 s), cr4 := cr4 (init_paging j1 j2 s), cr0 := cr0 (init_paging j1 j2 s)\<rparr>"
    by (simp add: init_paging_def map_v_p_def enable_paging_def Let_def)
qed

lemma rtc_init_state:
  "rtc_init s = s\<lparr>io_trace := io_trace (rtc_init s), if_flag := False, clk := 0, virtual_freq := 2\<rparr>"
proof -
  have "\<exists>tr. enable_irq 8 u = u\<lparr>io_trace := tr\<rparr>" for u :: "'a rtc_scheme" by (rule enable_irq_trace)
  show ?thesis
    by (simp add: rtc_init_def rtc_open_def rtc_set_freq_def enable_irq_def clear_port_bit_def inb_def outb_def cli_def Let_def)
qed

lemma more_fields:
  assumes "console.more t = console.more s"
  shows "page_dir t = page_dir s" "page_table t = page_table s" "page_table_addr t = page_table_addr s"
    "clk t = clk s" "virtual_freq t = virtual_freq s"
  using assms by (cases s; cases t; simp)+

lemma more_tables:
  assumes "console.more t = console.more s"
  shows "idt t = idt s" "idtr t = idtr s" "filesys_addr t = filesys_addr s" "boot_block t = boot_block s"
    "procs t = procs s" "process_count t = process_count s" "elf_str t = elf_str s" "shell_str t = shell_str s"
  using assms by (cases s; cases t; simp)+

lemma clear_state: "clear s = s\<lparr>mem := mem (clear s), screen_x := 0, screen_y := 0, io_trace := io_trace (clear s)\<rparr>"
  "\<not> in_rng (video_mem s) 4000 a \<Longrightarrow> mem (clear s) a = mem s a" "display (clear s) = (replicate 25 (replicate 80 0x20), 0, 0)"
  by (simp_all add: clear_eq update_cursor_eq display_def glyphs_fill) (simp add: cell_fill_def in_rng_def)

text \<open>The image as the boot loader leaves it: the global variables are zero or have their initial values.\<close>

definition loaded :: "'a interrupts_scheme \<Rightarrow> bool" where
  "loaded s \<longleftrightarrow> term_wf s \<and> display_terminal s = 0 \<and> key_index s = [0, 0, 0] \<and> video_mem s = VIDEO \<and>
    procs s = replicate 6 0 \<and> process_count s = 0 \<and> length (term_procs s) = 6 \<and> length (running_procs s) = 3 \<and>
    page_table_addr s AND 0xFFF = 0 \<and> length (idt s) = NUM_VEC"


text \<open>The initialisers up to the real time clock do not touch memory, the terminals or the process table.\<close>

definition init_early :: "boot_env \<Rightarrow> ptr \<Rightarrow> 'a boot_scheme \<Rightarrow> 'a boot_scheme" where
  "init_early be mbi s =
    (let s = i8259_init (init_tss be (init_ldt be s));
         s = init_filesys (mod_start (mods_addr mbi s) s) s;
         s = init_paging (pde_junk be) (pte_junk be) s;
         s = init_idt (boot_link be) (idt_base be) s
     in rtc_init s)"

lemma init_early_state:
  fixes be :: boot_env and mbi :: ptr and s :: "'a boot_scheme"
  assumes "loaded s"
  defines "t \<equiv> init_early be mbi s"
  shows "loaded t" "mem t = mem s" "clk t = 0" "virtual_freq t = 2" "\<not> if_flag t"
    "filesys_addr t = mod_start (mods_addr mbi s) s" "boot_block t = load_boot_block (mem s) (mod_start (mods_addr mbi s) s)"
    "idt t = idt (init_idt (boot_link be) (idt_base be) s)" "idtr t = (- 1, idt_base be)"
    "kernel_mapped t"
    "walk t a = (if drop_bit 22 a = 1 \<or> drop_bit 12 a = 0xB8 then Some (a, True, True) else None)"
    "elf_str t = elf_str s" "shell_str t = shell_str s"
proof -
  define s1 where "s1 = i8259_init (init_tss be (init_ldt be s))"
  define s2 where "s2 = init_filesys (mod_start (mods_addr mbi s1) s1) s1"
  define s3 where "s3 = init_paging (pde_junk be) (pte_junk be) s2"
  define s4 where "s4 = init_idt (boot_link be) (idt_base be) s3"
  have t: "t = rtc_init s4" by (simp add: t_def init_early_def s1_def s2_def s3_def s4_def Let_def)
  note defs = i8259_init_def init_tss_def init_ldt_def lldt_def ltr_def outb_def Let_def
  have same1: "term_wf s1 = term_wf s" "display_terminal s1 = display_terminal s" "key_index s1 = key_index s" "video_mem s1 = video_mem s"
    "procs s1 = procs s" "process_count s1 = process_count s" "term_procs s1 = term_procs s" "running_procs s1 = running_procs s"
    "page_table_addr s1 = page_table_addr s" "idt s1 = idt s" "mem s1 = mem s" "elf_str s1 = elf_str s" "shell_str s1 = shell_str s"
    by (simp_all add: s1_def defs term_wf_def)
  have l2: "loaded s2" "mem s2 = mem s" "filesys_addr s2 = mod_start (mods_addr mbi s) s"
    "boot_block s2 = load_boot_block (mem s) (mod_start (mods_addr mbi s) s)" "idt s2 = idt s" "elf_str s2 = elf_str s" "shell_str s2 = shell_str s"
    using assms(1) same1 by (simp_all add: loaded_def s2_def init_filesys_def term_wf_def mod_start_def mods_addr_def)
  have pa: "page_table_addr s2 AND 0xFFF = 0" and len: "length (idt s) = NUM_VEC"
    using l2(1) assms(1) by (simp_all add: loaded_def)
  note p3 = init_paging_state[OF pa, of "pde_junk be" "pte_junk be", folded s3_def]
  have f3: "loaded s3 = loaded s2" "mem s3 = mem s2" "filesys_addr s3 = filesys_addr s2" "boot_block s3 = boot_block s2" "idt s3 = idt s2"
    "elf_str s3 = elf_str s2" "shell_str s3 = shell_str s2"
    unfolding loaded_def term_wf_def by (subst p3(3), simp)+
  have len3: "length (idt s3) = NUM_VEC" using f3(5) l2(5) len by simp
  note i4 = init_idt_gates[OF len3, where link = "boot_link be" and base = "idt_base be", folded s4_def]
  have f4: "mem s4 = mem s3" "filesys_addr s4 = filesys_addr s3" "boot_block s4 = boot_block s3" "idtr s4 = (- 1, idt_base be)"
    "page_dir s4 = page_dir s3" "page_table s4 = page_table s3" "page_table_addr s4 = page_table_addr s3"
    "elf_str s4 = elf_str s3" "shell_str s4 = shell_str s3"
    by (subst i4(2), simp)+
  have "loaded s4 = loaded s3" using len3 i4(3) unfolding loaded_def term_wf_def i4(3) len3 by (subst i4(2), simp)+
  then have l4: "loaded s4" using l2(1) f3(1) by simp
  have gates: "idt s4 = idt (init_idt (boot_link be) (idt_base be) s)"
    using init_idt_gates(1,3)[OF len, where link = "boot_link be" and base = "idt_base be"] i4(1,3)
    by (intro nth_equalityI) simp_all
  have tf: "t = s4\<lparr>io_trace := io_trace t, if_flag := False, clk := 0, virtual_freq := 2\<rparr>"
    unfolding t by (rule rtc_init_state)
  have "loaded t = loaded s4" "mem t = mem s4" "filesys_addr t = filesys_addr s4" "boot_block t = boot_block s4"
    "idt t = idt s4" "idtr t = idtr s4" "elf_str t = elf_str s4" "shell_str t = shell_str s4"
    unfolding loaded_def term_wf_def by (subst tf, simp)+
  then show "loaded t" "mem t = mem s" "filesys_addr t = mod_start (mods_addr mbi s) s" "idtr t = (- 1, idt_base be)"
    "boot_block t = load_boot_block (mem s) (mod_start (mods_addr mbi s) s)" "idt t = idt (init_idt (boot_link be) (idt_base be) s)"
    "elf_str t = elf_str s" "shell_str t = shell_str s"
    using l4 f4 f3 l2 gates by simp_all
  show "clk t = 0" "virtual_freq t = 2" "\<not> if_flag t" by (subst tf, simp)+
  have "page_dir t = page_dir s3" "page_table t = page_table s3" "page_table_addr t = page_table_addr s3"
    using f4(5-7) by (subst tf, simp)+
  then have w: "walk t = walk s3" "kernel_mapped t" using walk_cong(1,3)[of s3 t] p3(1) by (simp_all add: kernel_mapped_def)
  show "kernel_mapped t" by (rule w(2))
  show "walk t a = (if drop_bit 22 a = 1 \<or> drop_bit 12 a = 0xB8 then Some (a, True, True) else None)"
    using w(1) p3(2) by simp
qed


lemma sched_init_eq:
  assumes "kernel_mapped s" "length (term_procs s) = 6" "length (running_procs s) = 3"
  shows "\<exists>t. sched_init conv s = Some (Inr t) \<and>
    t = s\<lparr>display_terminal := 0, running_terminal := 0, term_procs := replicate 6 (- 1), mem := mem t,
      running_procs := [- 1, - 1, - 1], page_dir := page_dir t, page_table := page_table t\<rparr> \<and>
    kernel_mapped t \<and> (\<forall>a. walk t a = (if drop_bit 12 a \<in> {0xD0, 0xD1, 0xD2} then Some (a, True, True) else walk s a)) \<and>
    (\<forall>a. \<not> in_terms a \<longrightarrow> mem t a = mem s a)"
proof -
  have f: "fold (\<lambda>x s. s\<lparr>term_procs := (term_procs s)[x := - 1]\<rparr>) xs u = u\<lparr>term_procs := fold (\<lambda>x r. r[x := - 1]) xs (term_procs u)\<rparr>"
    for xs and u :: "'a paging_scheme"
    by (induction xs arbitrary: u) simp_all
  have up: "[0..<6] = [0, 1, 2, 3, 4, 5 :: nat]" "[0..<3] = [0, 1, 2 :: nat]" by (simp_all add: upt_rec)
  have tp: "fold (\<lambda>x r. r[x := - 1]) [0..<6] xs = replicate 6 (- 1)" if "length xs = 6" for xs :: "int list"
    using that unfolding up by (auto simp: length_Suc_conv eval_nat_numeral)
  have rp: "fold (\<lambda>x r. r[x := - 1]) [0..<3] xs = [- 1, - 1, - 1]" if "length xs = 3" for xs :: "int list"
    using that unfolding up by (auto simp: length_Suc_conv eval_nat_numeral)
  let ?u = "s\<lparr>display_terminal := 0, running_terminal := 0, term_procs := replicate 6 (- 1)\<rparr>"
  have e: "sched_init conv s = sched_pages conv [0..<3] ?u"
    using tp[OF assms(2)] by (simp add: sched_init_def f Let_def)
  have low: "low_mapped s" using assms(1) by (simp add: kernel_mapped_def)
  have w: "walk ?u = walk s" "kernel_mapped ?u" using walk_cong(1,3)[OF low, of ?u] assms(1) by simp_all
  have sub: "set [0..<3] \<subseteq> {..<3 :: nat}" by auto
  have im: "(\<lambda>x. 0xD0 + of_nat x :: u32) ` set [0..<3] = {0xD0, 0xD1, 0xD2}" unfolding up by simp
  show ?thesis using sched_pages_eq[OF w(2) sub, of conv] unfolding e im w(1) by (simp add: rp[OF assms(3)])
qed

lemma terminals_state:
  assumes ld: "loaded e" and km: "kernel_mapped e" and off: "\<not> if_flag e"
  shows "\<exists>u v. terminal_init e = Inr u \<and> sched_init conv u = Some (Inr v) \<and> kernel_mapped v \<and>
    (\<forall>a. walk v a = (if drop_bit 12 a \<in> {0xD0, 0xD1, 0xD2} then Some (a, True, True) else walk e a)) \<and>
    (\<forall>a. \<not> in_rng VIDEO 4000 a \<and> \<not> in_terms a \<longrightarrow> mem v a = mem e a) \<and>
    video_mem v = VIDEO \<and> procs v = replicate 6 0 \<and> process_count v = 0 \<and> idt v = idt e \<and> idtr v = idtr e \<and>
    filesys_addr v = filesys_addr e \<and> boot_block v = boot_block e \<and> clk v = clk e \<and> virtual_freq v = virtual_freq e \<and>
    \<not> if_flag v \<and> key_buffer v = replicate 384 0 \<and> key_index v = [0, 0, 0] \<and> clear_offset v = [0, 0, 0] \<and>
    term_procs v = replicate 6 (- 1) \<and> running_procs v = [- 1, - 1, - 1] \<and> display_terminal v = 0 \<and> running_terminal v = 0 \<and>
    elf_str v = elf_str e \<and> shell_str v = shell_str e"
proof -
  have le: "term_wf e" "display_terminal e = 0" "key_index e = [0, 0, 0]" "video_mem e = VIDEO" "procs e = replicate 6 0"
    "process_count e = 0" "length (term_procs e) = 6" "length (running_procs e) = 3"
    using ld by (simp_all add: loaded_def)
  obtain u where u: "terminal_init e = Inr u" "key_buffer u = replicate 384 0" "key_index u = [0, 0, 0]" "clear_offset u = [0, 0, 0]"
    "\<forall>a. \<not> in_rng VIDEO 4000 a \<longrightarrow> mem u a = mem e a" "console.more u = console.more e" "video_mem u = VIDEO"
    "length (running_procs u) = 3" "length (term_procs u) = 6" "\<not> if_flag u"
    using terminal_init_state[OF le(1)] le off by auto
  note mf = more_fields[OF u(6)] more_tables[OF u(6)]
  have ku: "kernel_mapped u" "walk u = walk e"
    using walk_cong(1,3)[of e u] mf km by (simp_all add: kernel_mapped_def)
  obtain v where v: "sched_init conv u = Some (Inr v)"
    "v = u\<lparr>display_terminal := 0, running_terminal := 0, term_procs := replicate 6 (- 1), mem := mem v,
      running_procs := [- 1, - 1, - 1], page_dir := page_dir v, page_table := page_table v\<rparr>"
    "kernel_mapped v" "\<forall>a. walk v a = (if drop_bit 12 a \<in> {0xD0, 0xD1, 0xD2} then Some (a, True, True) else walk u a)"
    "\<forall>a. \<not> in_terms a \<longrightarrow> mem v a = mem u a"
    by (rule exE[OF sched_init_eq[OF ku(1) u(9,8), of conv]]) (elim conjE, rule that)
  have "video_mem v = VIDEO" "procs v = replicate 6 0" "process_count v = 0" "idt v = idt e" "idtr v = idtr e"
    "filesys_addr v = filesys_addr e" "boot_block v = boot_block e" "clk v = clk e" "virtual_freq v = virtual_freq e" "\<not> if_flag v"
    "key_buffer v = replicate 384 0" "key_index v = [0, 0, 0]" "clear_offset v = [0, 0, 0]"
    "term_procs v = replicate 6 (- 1)" "running_procs v = [- 1, - 1, - 1]" "display_terminal v = 0" "running_terminal v = 0"
    "elf_str v = elf_str e" "shell_str v = shell_str e"
    using u(2-4,7,10) mf le(5,6) by (subst v(2), simp)+
  then show ?thesis using u(1,5) v(1,3-5) ku(2) by (intro exI[of _ u] exI[of _ v]) auto
qed

lemma init_devices_state:
  assumes "loaded s"
  shows "\<exists>t. init_devices be mbi s = Some (Inr t) \<and> kernel_mapped t \<and>
    (\<forall>a. walk t a = (if drop_bit 22 a = 1 \<or> drop_bit 12 a \<in> {0xB8, 0xD0, 0xD1, 0xD2} then Some (a, True, True) else None)) \<and>
    table_ok t \<and> procs t = replicate 6 0 \<and> display_terminal t = 0 \<and> running_terminal t = 0 \<and> cur_pid t = - 1 \<and>
    keys_wf t \<and> row t = replicate 128 0 \<and> on_screen t \<and> display t = (replicate 25 (replicate 80 0x20), 0, 0) \<and> rtc_ok t \<and>
    idt t = idt (init_idt (boot_link be) (idt_base be) s) \<and> idtr t = (- 1, idt_base be) \<and>
    filesys_addr t = mod_start (mods_addr mbi s) s \<and>
    boot_block t = load_boot_block (mem s) (mod_start (mods_addr mbi s) s) \<and> \<not> if_flag t \<and>
    (\<forall>a. \<not> in_rng VIDEO 4000 a \<and> \<not> in_terms a \<longrightarrow> mem t a = mem s a) \<and>
    term_procs t = replicate 6 (- 1) \<and> running_procs t = [- 1, - 1, - 1] \<and> elf_str t = elf_str s \<and> shell_str t = shell_str s"
proof -
  note e = init_early_state[OF assms, of be mbi]
  let ?e = "init_early be mbi s"
  obtain u v where uv: "terminal_init ?e = Inr u" "sched_init (conv_buf (boot_loc be)) u = Some (Inr v)" "kernel_mapped v"
    "\<forall>a. walk v a = (if drop_bit 12 a \<in> {0xD0, 0xD1, 0xD2} then Some (a, True, True) else walk ?e a)"
    "\<forall>a. \<not> in_rng VIDEO 4000 a \<and> \<not> in_terms a \<longrightarrow> mem v a = mem ?e a"
    and fv: "video_mem v = VIDEO" "procs v = replicate 6 0" "process_count v = 0" "idt v = idt ?e" "idtr v = idtr ?e"
    "filesys_addr v = filesys_addr ?e" "boot_block v = boot_block ?e" "clk v = clk ?e" "virtual_freq v = virtual_freq ?e"
    "\<not> if_flag v" "key_buffer v = replicate 384 0" "key_index v = [0, 0, 0]" "clear_offset v = [0, 0, 0]"
    "term_procs v = replicate 6 (- 1)" "running_procs v = [- 1, - 1, - 1]" "display_terminal v = 0" "running_terminal v = 0"
    "elf_str v = elf_str ?e" "shell_str v = shell_str ?e"
    using terminals_state[OF e(1,10,5), of "conv_buf (boot_loc be)"] by blast
  define t where "t = launch_tests v"
  have ts: "init_devices be mbi s = Some (Inr t)"
    using uv(1,2) by (simp add: init_devices_def init_early_def t_def Let_def lift_def)
  have tv: "t = v\<lparr>mem := mem t, screen_x := 0, screen_y := 0, io_trace := io_trace t\<rparr>"
    unfolding t_def launch_tests_def by (rule clear_state(1))
  have ft: "procs t = procs v" "process_count t = process_count v" "idt t = idt v" "idtr t = idtr v" "filesys_addr t = filesys_addr v"
    "boot_block t = boot_block v" "clk t = clk v" "virtual_freq t = virtual_freq v" "if_flag t = if_flag v"
    "key_buffer t = key_buffer v" "key_index t = key_index v" "clear_offset t = clear_offset v" "term_procs t = term_procs v"
    "running_procs t = running_procs v" "display_terminal t = display_terminal v" "running_terminal t = running_terminal v"
    "screen_x t = 0" "screen_y t = 0" "page_dir t = page_dir v" "page_table t = page_table v" "page_table_addr t = page_table_addr v"
    "elf_str t = elf_str v" "shell_str t = shell_str v"
    by (subst tv, simp)+
  have kt: "kernel_mapped t" "walk t = walk v"
    using walk_cong(1,3)[of v t] ft(19-21) uv(3) by (simp_all add: kernel_mapped_def)
  have "table_init t" by (simp add: table_init_def ft fv)
  then have "table_ok t" by (rule table_init_ok)
  moreover have "keys_wf t" "row t = replicate 128 0" "cur_pid t = - 1" "on_screen t" "rtc_ok t"
    by (simp_all add: keys_wf_def row_def cur_index_def cur_pid_def on_screen_def rtc_ok_def good_freq_def ft fv e bexI[of _ 1])
  moreover have "walk t a = (if drop_bit 22 a = 1 \<or> drop_bit 12 a \<in> {0xB8, 0xD0, 0xD1, 0xD2} then Some (a, True, True) else None)" for a
    using uv(4) e(11) kt(2) by auto
  moreover have "mem t a = mem s a" if "\<not> in_rng VIDEO 4000 a" "\<not> in_terms a" for a
    using that clear_state(2)[of v a] uv(5) e(2) by (simp add: t_def launch_tests_def fv)
  moreover have "display t = (replicate 25 (replicate 80 0x20), 0, 0)" by (simp add: t_def launch_tests_def clear_state(3))
  ultimately show ?thesis using ts kt(1) e(6-9,12,13) by (intro exI[of _ t]) (simp add: ft fv)
qed

text \<open>
  C2: the kernel after its initialisation. From the image that the boot loader leaves, the
  initialisers run to their end, and the state in which the shell is started satisfies what the
  other components rely on: the kernel page and exactly the pages of the screen and of the three
  terminals are mapped, each to itself; the process table is consistent and empty and the first terminal is
  shown and runs; the key buffers are empty; the clock is in its range; the gates are in place; the
  file system is the one of the first module; interrupts are disabled. Of memory only the screen
  and the pages of the terminals have changed.
\<close>

theorem boot_establishes_invariants:
  assumes "loaded s"
  shows "\<exists>t. init_devices be mbi s = Some (Inr t) \<and> kernel_mapped t \<and>
    (\<forall>a. walk t a = (if drop_bit 22 a = 1 \<or> drop_bit 12 a \<in> {0xB8, 0xD0, 0xD1, 0xD2} then Some (a, True, True) else None)) \<and>
    table_ok t \<and> procs t = replicate 6 0 \<and> display_terminal t = 0 \<and> running_terminal t = 0 \<and> cur_pid t = - 1 \<and>
    keys_wf t \<and> row t = replicate 128 0 \<and> on_screen t \<and> display t = (replicate 25 (replicate 80 0x20), 0, 0) \<and> rtc_ok t \<and>
    idt t = idt (init_idt (boot_link be) (idt_base be) s) \<and> idtr t = (- 1, idt_base be) \<and>
    filesys_addr t = mod_start (mods_addr mbi s) s \<and>
    boot_block t = load_boot_block (mem s) (mod_start (mods_addr mbi s) s) \<and> \<not> if_flag t \<and>
    (\<forall>a. \<not> in_rng VIDEO 4000 a \<and> \<not> in_terms a \<longrightarrow> mem t a = mem s a)"
  using init_devices_state[OF assms, of be mbi] by (elim exE conjE) (intro exI conjI; assumption)


text \<open>A boot loader that does not identify itself: the magic number is printed and nothing is initialised.\<close>

lemma entry_refuses:
  assumes magic: "magic \<noteq> MULTIBOOT_BOOTLOADER_MAGIC" and conv: "disjnt_rng (video_mem s) 4352 (conv_buf (boot_loc be)) 64"
  shows "\<exists>t. entry_point be magic addr s = Some (Inr (Entry_Returns, t)) \<and>
    but_for (conv_buf (boot_loc be))
      (putc 10 (put_str (hex_text True magic) (fold putc (asc ''Invalid magic number: 0x'') (clear s)))) t"
proof -
  let ?c = "conv_buf (boot_loc be)" and ?f = "asc ''Invalid magic number: 0x%#x'' @ [10]"
  let ?qs = "map Chr (asc ''Invalid magic number: 0x'') @ [Txt (hex_text True magic), Chr 10]"
  have r: "render ?f [magic] = Some ?qs" by (simp add: asc_def of_char_def render_arg_def)
  have "near_screen (clear s)" "video_mem (clear s) = video_mem s" unfolding near_screen_def by (subst clear_state(1), simp)+
  then have ok: "pieces_ok ?c (\<lambda>_. []) ?qs (clear s)" using conv by (auto simp: pieces_ok_def)
  have "fold (emit (\<lambda>_. [])) ?qs (clear s) = putc 10 (put_str (hex_text True magic) (fold putc (asc ''Invalid magic number: 0x'') (clear s)))"
    by (simp add: emit_chars)
  with printf_loop_render(1)[OF r but_for_refl ok]
  obtain t where "printf_loop ?c ?f [magic] (clear s) = Some (Inr t)"
    "but_for ?c (putc 10 (put_str (hex_text True magic) (fold putc (asc ''Invalid magic number: 0x'') (clear s)))) t"
    by (auto simp: prints_def)
  then show ?thesis using magic by (simp add: entry_point_def say_def printf_def fbind_def Let_def)
qed

section \<open>Witnesses\<close>

definition blank_seg :: seg_desc_t where
  "blank_seg = \<lparr>seg_lim_15_00 = 0, base_15_00 = 0, base_23_16 = 0, seg_type = 0, sys = 0, seg_dpl = 0, seg_present = 0,
     seg_lim_19_16 = 0, avail = 0, seg_reserved = 0, opsize = 0, granularity = 0, base_31_24 = 0\<rparr>"

definition demo_loaded :: boot where
  "demo_loaded = interrupts.extend (demo_booting\<lparr>procs := replicate 6 0, process_count := 0\<rparr>) (boot.fields blank_seg blank_seg 0 0 0)"

definition demo_boot_env :: boot_env where
  "demo_boot_env = \<lparr>boot_loc = demo_locals, boot_link = demo_link, idt_base = 0x430000, ldt_addr = 0x440000, ldt_size = 31,
     tss_addr = 0x441000, tss_size = 103, ldt_junk = blank_seg, tss_junk = blank_seg, pde_junk = 0, pte_junk = 0\<rparr>"

lemma demo_image_fields: "term_wf demo_kernel" "page_table_addr demo_kernel = 0x402000"
proof -
  have "term_wf demo_paging" "page_table_addr demo_paging = 0x402000"
    by (simp_all add: term_wf_def demo_paging_def init_paging_def map_v_p_def enable_paging_def demo_boot_def demo_rtc_def
        rtc.defs paging.defs console.defs demo_console_def Let_def numeral_3_eq_3 rtc_init_def rtc_open_def
        rtc_set_freq_def enable_irq_def clear_port_bit_def inb_def outb_def cli_def)
  then show "term_wf demo_kernel" "page_table_addr demo_kernel = 0x402000"
    by (simp_all add: term_wf_def demo_kernel_def demo_fs_def filesys.defs kernel.defs paging.defs)
qed

lemma demo_loaded_ok: "loaded demo_loaded"
  using demo_image_fields
  by (simp add: loaded_def term_wf_def demo_loaded_def demo_booting_def interrupts.defs boot.defs kernel.defs)

theorem boot_establishes_invariants_witness:
  "\<exists>t. init_devices demo_boot_env 0x9000 demo_loaded = Some (Inr t) \<and> kernel_mapped t \<and> table_ok t \<and>
    walk t 0xD1004 = Some (0xD1004, True, True) \<and> walk t 0 = None"
proof -
  obtain t where t: "init_devices demo_boot_env 0x9000 demo_loaded = Some (Inr t)" "kernel_mapped t" "table_ok t"
    "\<forall>a. walk t a = (if drop_bit 22 a = 1 \<or> drop_bit 12 a \<in> {0xB8, 0xD0, 0xD1, 0xD2} then Some (a, True, True) else None)"
    using boot_establishes_invariants[OF demo_loaded_ok, of demo_boot_env "0x9000"] by blast
  then show ?thesis by (intro exI[of _ t]) (simp add: drop_bit_eq_div)
qed

end
