(* ===== verification/User_Lib.thy ===== *)
theory User_Lib
  imports Syscalls
begin

text \<open>
  What the programs under \<^verbatim>\<open>syscalls/\<close> are linked with: the wrappers of \<^verbatim>\<open>ece391syscall.S\<close>, which
  load registers and raise interrupt 0x80, and the library \<^verbatim>\<open>ece391support.c\<close>.

  A program sees its own address space and the gate to the kernel, nothing else. Both are a \<open>user_if\<close>:
  \<open>int80\<close> is the interrupt with the four registers, \<open>umem\<close> the bytes of the address space and
  \<open>set_umem\<close> their replacement after stores. The result of a call is \<open>None\<close> when control does not come
  back to the program. The string routines work on the bytes alone. Programs access their own page
  only, so that no access of their own faults.
\<close>

section \<open>The interface of a program\<close>

record 's user_if =
  int80 :: "u32 \<Rightarrow> u32 \<Rightarrow> u32 \<Rightarrow> u32 \<Rightarrow> 's \<Rightarrow> (fault + int \<times> 's) option"
  umem :: "'s \<Rightarrow> mem"
  set_umem :: "mem \<Rightarrow> 's \<Rightarrow> 's"

text \<open>
  Registers without an argument hold what happens to be on the stack, and the kernel does not read
  them; they are 0 here. \<open>sys_call\<close> gives the result as an integer.
\<close>

type_synonym ('s, 'r) effect = "'s \<Rightarrow> (fault + 'r \<times> 's) option"

definition DO_CALL :: "'s user_if \<Rightarrow> u32 \<Rightarrow> u32 \<Rightarrow> u32 \<Rightarrow> u32 \<Rightarrow> ('s, int) effect" where
  "DO_CALL U number a b c s = int80 U number a b c s"

definition ece391_halt :: "'s user_if \<Rightarrow> u32 \<Rightarrow> ('s, int) effect" where
  "ece391_halt U status s = DO_CALL U 1 status 0 0 s"

definition ece391_execute :: "'s user_if \<Rightarrow> ptr \<Rightarrow> ('s, int) effect" where
  "ece391_execute U command s = DO_CALL U 2 command 0 0 s"

definition ece391_read :: "'s user_if \<Rightarrow> int \<Rightarrow> ptr \<Rightarrow> int \<Rightarrow> ('s, int) effect" where
  "ece391_read U fd buf nbytes s = DO_CALL U 3 (word_of_int fd) buf (word_of_int nbytes) s"

definition ece391_write :: "'s user_if \<Rightarrow> int \<Rightarrow> ptr \<Rightarrow> int \<Rightarrow> ('s, int) effect" where
  "ece391_write U fd buf nbytes s = DO_CALL U 4 (word_of_int fd) buf (word_of_int nbytes) s"

definition ece391_open :: "'s user_if \<Rightarrow> ptr \<Rightarrow> ('s, int) effect" where
  "ece391_open U filename s = DO_CALL U 5 filename 0 0 s"

definition ece391_close :: "'s user_if \<Rightarrow> int \<Rightarrow> ('s, int) effect" where
  "ece391_close U fd s = DO_CALL U 6 (word_of_int fd) 0 0 s"

definition ece391_getargs :: "'s user_if \<Rightarrow> ptr \<Rightarrow> int \<Rightarrow> ('s, int) effect" where
  "ece391_getargs U buf nbytes s = DO_CALL U 7 buf (word_of_int nbytes) 0 s"

definition ece391_vidmap :: "'s user_if \<Rightarrow> ptr \<Rightarrow> ('s, int) effect" where
  "ece391_vidmap U screen_start s = DO_CALL U 8 screen_start 0 0 s"

definition store :: "'s user_if \<Rightarrow> ptr \<Rightarrow> u8 \<Rightarrow> 's \<Rightarrow> 's" where
  "store U p b s = set_umem U ((umem U s)(p := b)) s"

text \<open>A program: \<^verbatim>\<open>_start\<close> calls \<^verbatim>\<open>main\<close> and halts with its result, of which the kernel takes the low byte.\<close>

definition start_program :: "'s user_if \<Rightarrow> ('s, int) effect \<Rightarrow> ('s, int) effect" where
  "start_program U main s = fbind (main s) (\<lambda>(r, s). ece391_halt U (word_of_int r) s)"

lemma fbind_mono [partial_function_mono]:
  assumes "mono_option B" "\<And>y. mono_option (\<lambda>f. C y f)"
  shows "mono_option (\<lambda>f. fbind (B f) (\<lambda>y. C y f))"
  unfolding fbind_def
proof (rule bind_mono[OF assms(1)])
  fix y
  show "mono_option (\<lambda>f. case y of Inl e \<Rightarrow> Some (Inl e) | Inr s \<Rightarrow> C s f)"
    using assms(2) by (cases y) (simp_all add: option.const_mono)
qed

section \<open>The library\<close>

partial_function (option) ece391_strlen_loop :: "mem \<Rightarrow> ptr \<Rightarrow> u32 \<Rightarrow> u32 option" where
  "ece391_strlen_loop m s len = (if m s \<noteq> 0 then ece391_strlen_loop m (s + 1) (len + 1) else Some len)"

definition ece391_strlen :: "mem \<Rightarrow> ptr \<Rightarrow> u32 option" where
  "ece391_strlen m s = ece391_strlen_loop m s 0"

partial_function (option) ece391_strcpy :: "mem \<Rightarrow> ptr \<Rightarrow> ptr \<Rightarrow> mem option" where
  "ece391_strcpy m dst src =
    (let m' = m(dst := m src) in if m' dst \<noteq> 0 then ece391_strcpy m' (dst + 1) (src + 1) else Some m')"

definition ece391_fdputs :: "'s user_if \<Rightarrow> int \<Rightarrow> ptr \<Rightarrow> 's \<Rightarrow> (fault + 's) option" where
  "ece391_fdputs U fd p s =
    Option.bind (ece391_strlen (umem U s) p) (\<lambda>n.
      fbind (ece391_write U fd p (sint n) s) (\<lambda>(_, s). Some (Inr s)))"

partial_function (option) ece391_strcmp :: "mem \<Rightarrow> ptr \<Rightarrow> ptr \<Rightarrow> int option" where
  "ece391_strcmp m s1 s2 =
    (if m s1 = m s2
     then if m s1 = 0 then Some 0 else ece391_strcmp m (s1 + 1) (s2 + 1)
     else Some (uint (m s1) - uint (m s2)))"

fun ece391_strncmp_loop :: "mem \<Rightarrow> ptr \<Rightarrow> ptr \<Rightarrow> nat \<Rightarrow> int" where
  "ece391_strncmp_loop m s1 s2 n =
    (if m s1 = m s2
     then if m s1 = 0 \<or> n \<le> 1 then 0 else ece391_strncmp_loop m (s1 + 1) (s2 + 1) (n - 1)
     else uint (m s1) - uint (m s2))"

declare ece391_strncmp_loop.simps [simp del]

definition ece391_strncmp :: "mem \<Rightarrow> ptr \<Rightarrow> ptr \<Rightarrow> u32 \<Rightarrow> int" where
  "ece391_strncmp m s1 s2 n = (if n = 0 then 0 else ece391_strncmp_loop m s1 s2 (unat n))"

function ece391_strrev_loop :: "mem \<Rightarrow> ptr \<Rightarrow> int \<Rightarrow> int \<Rightarrow> mem" where
  "ece391_strrev_loop m s beg stop =
    (if beg < stop
     then let tmp = m (s + word_of_int stop);
              m = m(s + word_of_int stop := m (s + word_of_int beg));
              m = m(s + word_of_int beg := tmp)
          in ece391_strrev_loop m s (beg + 1) (stop - 1)
     else m)"
  by pat_completeness auto
termination
  by (relation "measure (\<lambda>(m, s, beg, stop). nat (stop - beg))") auto

declare ece391_strrev_loop.simps [simp del]

definition ece391_strrev :: "mem \<Rightarrow> ptr \<Rightarrow> mem option" where
  "ece391_strrev m s =
    Option.bind (ece391_strlen m s) (\<lambda>len.
      let stop = sint (len - 1)
      in if stop \<le> 0 then Some m else Some (ece391_strrev_loop m s 0 stop))"

text \<open>The digits come from a table with the same characters as the one of the kernel.\<close>

partial_function (option) ece391_itoa_loop ::
  "mem \<Rightarrow> u32 \<Rightarrow> ptr \<Rightarrow> u32 \<Rightarrow> (fault + mem \<times> ptr) option" where
  "ece391_itoa_loop m newval newbuf radix =
    (if newval > 0
     then if radix = 0 then Some (Inl Divide_Error)
          else let i = newval mod radix
               in if unat i \<ge> length lookup then Some (Inl Out_Of_Bounds)
                  else ece391_itoa_loop (m(newbuf := lookup ! unat i)) (newval div radix) (newbuf + 1) radix
     else Some (Inr (m, newbuf)))"

definition ece391_itoa :: "mem \<Rightarrow> u32 \<Rightarrow> ptr \<Rightarrow> u32 \<Rightarrow> (fault + mem) option" where
  "ece391_itoa m v buf radix =
    (if v = 0 then Some (Inr (m(buf := 48, buf + 1 := 0)))
     else fbind (ece391_itoa_loop m v buf radix) (\<lambda>(m, newbuf).
       Option.bind (ece391_strrev (m(newbuf := 0)) buf) (\<lambda>m. Some (Inr m))))"

section \<open>The library and the kernel's\<close>

lemma user_strlen_loop: "cstr m s str \<Longrightarrow> ece391_strlen_loop m s k = Some (k + of_nat (length str))"
  by (induction str arbitrary: s k) (subst ece391_strlen_loop.simps, simp add: algebra_simps)+

lemma user_strlen: "cstr m s str \<Longrightarrow> ece391_strlen m s = Some (of_nat (length str))"
  by (simp add: ece391_strlen_def user_strlen_loop)

lemma user_strcmp: "cstr m s a \<Longrightarrow> cstr m t b \<Longrightarrow> \<exists>r. ece391_strcmp m s t = Some r \<and> (r = 0 \<longleftrightarrow> a = b)"
proof (induction a arbitrary: s t b)
  case Nil
  then show ?case by (cases b) (subst ece391_strcmp.simps, auto simp: uint_0_iff)+
next
  case (Cons c cs)
  show ?case
  proof (cases b)
    case (Cons d ds)
    with Cons.prems Cons.IH[of "s + 1" "t + 1" ds] show ?thesis by (subst ece391_strcmp.simps) (auto simp: word_uint_eq_iff)
  qed (use Cons.prems in \<open>subst ece391_strcmp.simps, auto simp: uint_0_iff\<close>)
qed

lemma user_strncmp_loop:
  "cstr m s a \<Longrightarrow> cstr m t b \<Longrightarrow> 0 < n \<Longrightarrow> ece391_strncmp_loop m s t n = 0 \<longleftrightarrow> take n a = take n b"
proof (induction a arbitrary: s t b n)
  case Nil
  then have "ece391_strncmp_loop m s t n = 0 \<longleftrightarrow> m t = 0"
    by (subst ece391_strncmp_loop.simps) (auto simp: uint_0_iff)
  with Nil show ?case by (cases b) auto
next
  case (Cons c cs)
  then obtain k where n: "n = Suc k" by (cases n) auto
  show ?case
  proof (cases b)
    case (Cons d ds)
    with Cons.prems n Cons.IH[of "s + 1" "t + 1" ds k] show ?thesis
      by (subst ece391_strncmp_loop.simps) (cases k; auto simp: word_uint_eq_iff)
  qed (use Cons.prems n in \<open>subst ece391_strncmp_loop.simps, auto simp: uint_0_iff\<close>)
qed

lemma user_strncmp:
  "cstr m s a \<Longrightarrow> cstr m t b \<Longrightarrow> ece391_strncmp m s t n = 0 \<longleftrightarrow> take (unat n) a = take (unat n) b"
  using user_strncmp_loop[of m s a t b "unat n"] by (simp add: ece391_strncmp_def unat_gt_0)

lemma user_strrev_loop: "ece391_strrev_loop m s b e = strrev_loop m s b e"
  by (induction m s b e rule: strrev_loop.induct)
    (subst ece391_strrev_loop.simps, subst strrev_loop.simps, simp add: Let_def del: fun_upd_apply)

lemma user_strrev:
  assumes "cstr m s str"
  shows "ece391_strrev m s = strrev m s"
proof (cases "sint (of_nat (length str) - 1 :: u32) \<le> 0")
  case True
  then have "strrev_loop m s 0 (sint (of_nat (length str) - 1 :: u32)) = m" by (subst strrev_loop.simps) simp
  with True show ?thesis
    by (simp add: ece391_strrev_def strrev_def user_strlen[OF assms] strlen_cstr[OF assms] Let_def)
qed (simp add: ece391_strrev_def strrev_def user_strlen[OF assms] strlen_cstr[OF assms] user_strrev_loop Let_def)

lemma user_strcpy:
  "cstr m src str \<Longrightarrow> disjnt_rng dst (Suc (length str)) src (Suc (length str)) \<Longrightarrow> length str < 4294967295 \<Longrightarrow>
    ece391_strcpy m dst src = Some (wr_bytes m dst (str @ [0]))"
proof (induction str arbitrary: m dst src)
  case Nil
  then show ?case by (subst ece391_strcpy.simps) (simp add: wr_bytes_Cons Let_def)
next
  case (Cons c cs)
  let ?m = "m(dst := m src)"
  have dis: "disjnt_rng (dst + 1) (Suc (length cs)) (src + 1) (Suc (length cs))"
    using Cons.prems(2) by (intro disjnt_rng_tail) simp
  have "\<not> in_rng src (Suc (Suc (length cs))) dst"
    using Cons.prems(2) by (intro disjnt_rngD1[OF Cons.prems(2), simplified]) simp
  then have "\<not> in_rng (src + 1) (Suc (length cs)) dst" by (auto dest: in_rng_tail)
  then have "cstr ?m (src + 1) cs \<longleftrightarrow> cstr m (src + 1) cs" using Cons.prems(3) by (intro cstr_cong) auto
  then have "ece391_strcpy ?m (dst + 1) (src + 1) = Some (wr_bytes ?m (dst + 1) (cs @ [0]))"
    using Cons.prems dis by (intro Cons.IH) (simp_all del: fun_upd_apply)
  with Cons.prems show ?case by (subst ece391_strcpy.simps) (simp add: wr_bytes_Cons Let_def)
qed

lemma user_itoa_loop:
  assumes "2 \<le> unat r"
  shows "ece391_itoa_loop m v p r = itoa_loop m v p r"
proof (induction "unat v" arbitrary: v m p rule: less_induct)
  case less
  have "unat (v div r) < unat v" if "0 < v"
    using assms that by (simp add: unat_div word_gt_0 unat_gt_0)
  with less show ?case
    by (subst ece391_itoa_loop.simps, subst itoa_loop.simps) (simp add: Let_def)
qed

lemma user_itoa:
  assumes "2 \<le> unat r" "unat r \<le> 36"
  shows "ece391_itoa m v buf r = itoa m v buf r"
proof (cases "v = 0")
  case False
  let ?ds = "digits (unat r) (unat v)"
  let ?m = "(wr_bytes m buf (map ((!) lookup) ?ds))(buf + of_nat (length ?ds) := 0)"
  have len: "length ?ds \<le> 32" using assms by (intro length_digits) auto
  have "0 \<notin> set (map ((!) lookup) ?ds)" using assms lookup_nonzero by (fastforce dest!: digits_less)
  moreover have "?m = wr_bytes m buf (map ((!) lookup) ?ds @ [0])" using len by (simp add: wr_bytes_snoc)
  ultimately have "cstr ?m buf (map ((!) lookup) ?ds)" using len by (simp only:) (rule cstr_wr_bytes; auto)
  then have "ece391_strrev ?m buf = strrev ?m buf" by (rule user_strrev)
  moreover have "itoa_loop m v buf r = Some (Inr (wr_bytes m buf (map ((!) lookup) ?ds), buf + of_nat (length ?ds)))"
    using itoa_loop_digits[OF assms] len by simp
  ultimately show ?thesis using False by (simp add: ece391_itoa_def itoa_def user_itoa_loop[OF assms(1)] fbind_def)
qed (simp add: ece391_itoa_def itoa_def)

text \<open>
  The bounded comparisons subtract the first bytes that differ, the kernel as signed and the programs
  as unsigned numbers.
\<close>

lemma sint_ascii:
  fixes c :: u8
  assumes "c < 128"
  shows "sint c = uint c"
proof -
  have "uint c < 128" using assms by (simp add: word_less_def)
  moreover have "- 128 \<le> uint c" using uint_ge_0[of c] by linarith
  ultimately show ?thesis by (simp add: sint_uint signed_take_bit_int_eq_self_iff)
qed

lemma user_strncmp_ascii:
  "cstr m (p + of_nat i) a \<Longrightarrow> cstr m (q + of_nat i) b \<Longrightarrow> i < n \<Longrightarrow> \<forall>c \<in> set a \<union> set b. c < 128 \<Longrightarrow>
    ece391_strncmp_loop m (p + of_nat i) (q + of_nat i) (n - i) = strncmp_loop m p q n i"
proof (induction "n - i" arbitrary: i a b)
  case (Suc k)
  let ?c = "m (p + of_nat i)" and ?d = "m (q + of_nat i)"
  have lt: "?c < 128" "?d < 128" using Suc.prems by (cases a; cases b; simp)+
  show ?case
  proof (cases "?c \<noteq> ?d \<or> ?c = 0 \<or> n - i \<le> 1")
    case True
    have "strncmp_loop m p q n (Suc i) = 0" if "n - i \<le> 1"
    proof -
      have "\<not> Suc i < n" using that by linarith
      then show ?thesis by (subst strncmp_loop.simps) simp
    qed
    with True Suc.prems(3) lt show ?thesis
      by (subst ece391_strncmp_loop.simps, subst strncmp_loop.simps) (auto simp: sint_ascii Let_def)
  next
    case False
    then have "a \<noteq> []" "b \<noteq> []" using Suc.prems(1,2) by auto
    then obtain x xs y ys where ab: "a = x # xs" "b = y # ys" by (meson neq_Nil_conv)
    have "ece391_strncmp_loop m (p + of_nat (Suc i)) (q + of_nat (Suc i)) (n - Suc i) = strncmp_loop m p q n (Suc i)"
    proof (rule Suc.hyps(1))
      show "cstr m (p + of_nat (Suc i)) xs" "cstr m (q + of_nat (Suc i)) ys"
        using Suc.prems(1,2) ab by (simp_all add: algebra_simps)
      show "\<forall>c \<in> set xs \<union> set ys. c < 128" using Suc.prems(4) ab by simp
      show "k = n - Suc i" "Suc i < n" using Suc.hyps(2) False by linarith+
    qed
    with False Suc.prems(3) show ?thesis
      by (subst ece391_strncmp_loop.simps, subst strncmp_loop.simps) (simp add: Let_def algebra_simps)
  qed
qed simp

text \<open>
  C35: the two libraries. On terminated strings, and for the bases of the digit table, the library of
  the programs terminates and agrees with the kernel's: the same length and the same memory after
  copying, reversing and printing a number. The bounded comparison gives 0 exactly when the kernel's
  does, and the same number if all bytes are below 128; the unbounded comparison, which the kernel
  does not have, gives 0 exactly on equal strings.
\<close>

theorem user_library_agrees:
  assumes s: "cstr m p a" "cstr m q b" and "2 \<le> unat r" "unat r \<le> 36" and len: "length a < 4294967295"
    and "disjnt_rng dst (Suc (length a)) p (Suc (length a))"
  shows "ece391_strlen m p = Some (of_nat (length a)) \<and> strlen m p = Some (of_nat (length a)) \<and>
    ece391_strcpy m dst p = strcpy m dst p \<and> ece391_strcpy m dst p \<noteq> None \<and>
    ece391_strrev m p = strrev m p \<and> ece391_strrev m p \<noteq> None \<and>
    ece391_itoa m v buf r = itoa m v buf r \<and> (\<exists>m'. ece391_itoa m v buf r = Some (Inr m')) \<and>
    (ece391_strncmp m p q n = 0) = (strncmp m p q n = 0) \<and>
    ((\<forall>c \<in> set a \<union> set b. c < 128) \<longrightarrow> ece391_strncmp m p q n = strncmp m p q n) \<and>
    (\<exists>c. ece391_strcmp m p q = Some c \<and> (c = 0) = (a = b))"
proof -
  have "disjnt_rng dst (length a) p (Suc (length a))" using assms(6) by (auto simp: disjnt_rng_def in_rng_def)
  then have "strcpy m dst p = Some (wr_bytes m dst (a @ [0]))" using s(1) len by (intro strcpy_cstr) simp_all
  moreover have "strncmp m p q n = 0 \<longleftrightarrow> take (unat n) a = take (unat n) b"
    using strncmp_loop_zero[of m p 0 a q b "unat n"] s by (simp add: strncmp_def)
  moreover have "ece391_strncmp m p q n = strncmp m p q n" if "\<forall>c \<in> set a \<union> set b. c < 128"
    using user_strncmp_ascii[of m p 0 a q b "unat n"] s that
    by (cases "n = 0") (simp_all add: ece391_strncmp_def strncmp_def strncmp_loop.simps[of _ _ _ 0] unat_gt_0)
  moreover have "ece391_strrev m p \<noteq> None" using user_strlen[OF s(1)] by (simp add: ece391_strrev_def Let_def)
  ultimately show ?thesis
    using user_strlen[OF s(1)] strlen_cstr[OF s(1)] user_strcpy[OF s(1) assms(6) len] user_strrev[OF s(1)]
      user_itoa[OF assms(3,4), of m v buf] itoa_eq[OF assms(3,4)] user_strncmp[OF s] user_strcmp[OF s]
    by simp
qed

theorem user_library_agrees_witness:
  "ece391_strlen demo_mem 4096 = Some 15 \<and> ece391_strrev demo_mem 4096 = strrev demo_mem 4096 \<and>
    ece391_strcpy demo_mem 8192 4096 = strcpy demo_mem 8192 4096 \<and> ece391_itoa demo_mem 687 16384 16 = itoa demo_mem 687 16384 16 \<and>
    ece391_strncmp demo_mem 4096 4097 2 = strncmp demo_mem 4096 4097 2"
proof -
  have "disjnt_rng 8192 (Suc (length demo_line)) 4096 (Suc (length demo_line))"
    by (rule disjnt_rng_sym, rule disjnt_rng_below) (simp_all add: demo_line_eq)
  moreover have "cstr demo_mem 4097 (tl demo_line)" using demo_cstr by (simp add: demo_line_eq)
  ultimately show ?thesis
    using user_library_agrees[OF demo_cstr, of 4097 "tl demo_line" 16 8192 687 16384 2] by (simp add: demo_line_eq)
qed

end
