(* ===== verification/User_Prog.thy ===== *)
theory User_Prog
  imports User_Lib
begin

text \<open>
  The programs under \<^verbatim>\<open>syscalls/\<close>: \<^verbatim>\<open>ece391cat.c\<close>, \<^verbatim>\<open>ece391ls.c\<close>, \<^verbatim>\<open>ece391grep.c\<close>,
  \<^verbatim>\<open>ece391hello.c\<close>, \<^verbatim>\<open>ece391counter.c\<close>, \<^verbatim>\<open>ece391testprint.c\<close>, \<^verbatim>\<open>ece391pingpong.c\<close>, \<^verbatim>\<open>ece391shell.c\<close> and
  \<^verbatim>\<open>ece391syserr.c\<close>, which tests that the kernel refuses bad requests. Each \<^verbatim>\<open>main\<close> is a function of
  the interface \<open>user_if\<close>. The address of a literal is \<open>lit\<close> of its bytes, and the addresses of
  local arrays are arguments.

  The locale \<open>program_calls\<close> states what the programs rely on: each system call changes the bytes of
  the program and an abstract \<open>world\<close>, the screen and the open files, in the documented way. What the
  programs do is proved from it; the kernel is an instance in \<open>User_Run\<close>.
\<close>

section \<open>Printing and simple programs\<close>

definition puts_return :: "'s user_if \<Rightarrow> ptr \<Rightarrow> 'r \<Rightarrow> ('s, 'r) effect" where
  "puts_return U msg r s = fbind (ece391_fdputs U 1 msg s) (\<lambda>s. Some (Inr (r, s)))"

definition testprint_main :: "'s user_if \<Rightarrow> (bytes \<Rightarrow> ptr) \<Rightarrow> ('s, int) effect" where
  "testprint_main U lit s =
    puts_return U (lit (asc ''Hello, if this ran, the program was correct. Yay!'' @ [10])) 0 s"

definition hello_main :: "'s user_if \<Rightarrow> (bytes \<Rightarrow> ptr) \<Rightarrow> ptr \<Rightarrow> ('s, int) effect" where
  "hello_main U lit buf s =
    fbind (ece391_fdputs U 1 (lit (asc ''Hi, what's your name? '')) s) (\<lambda>s.
    fbind (ece391_read U 0 buf 1023 s) (\<lambda>(cnt, s).
      if cnt = - 1 then puts_return U (lit (asc ''Can't read name from keyboard.'' @ [10])) 3 s
      else let s = store U (buf + word_of_int cnt) 0 s
           in fbind (ece391_fdputs U 1 (lit (asc ''Hello, '')) s) (\<lambda>s. puts_return U buf 0 s)))"

function counter_loop :: "'s user_if \<Rightarrow> (bytes \<Rightarrow> ptr) \<Rightarrow> ptr \<Rightarrow> nat \<Rightarrow> nat \<Rightarrow> ('s, int) effect" where
  "counter_loop U lit buf i max_i s =
    (if i < max_i
     then fbind (ece391_itoa (umem U s) (of_nat i + 1) buf 10) (\<lambda>m.
       let s = set_umem U m s
       in fbind (ece391_fdputs U 1 buf s) (\<lambda>s.
          fbind (ece391_fdputs U 1 (lit [10]) s) (\<lambda>s. counter_loop U lit buf (i + 1) max_i s)))
     else Some (Inr (0, s)))"
  by pat_completeness auto
termination
  by (relation "measure (\<lambda>(U, lit, buf, i, max_i, s). max_i - i)") auto

declare counter_loop.simps [simp del]

definition counter_main :: "'s user_if \<Rightarrow> (bytes \<Rightarrow> ptr) \<Rightarrow> ptr \<Rightarrow> ('s, int) effect" where
  "counter_main U lit buf s =
    fbind (ece391_fdputs U 1 (lit (asc ''Enter the Test Number: (0): 100, (1): 10000, (2): 100000'' @ [10])) s) (\<lambda>s.
    fbind (ece391_read U 0 buf 1023 s) (\<lambda>(cnt, s).
      if cnt = - 1 then puts_return U (lit (asc ''Can't read the number from keyboard.'' @ [10])) 3 s
      else let s = store U (buf + word_of_int cnt) 0 s
           in Option.bind (ece391_strlen (umem U s) buf) (\<lambda>len.
              let c = umem U s buf
              in if len > 2 \<or> len = 2 \<and> (c < 48 \<or> c > 50)
                 then puts_return U (lit (asc ''Wrong Choice!'' @ [10])) 0 s
                 else counter_loop U lit buf 0
                   (if c = 48 then 100 else if c = 49 then 10000 else if c = 50 then 100000 else 0) s)))"

section \<open>The bouncing letter\<close>

fun clear_cells :: "mem \<Rightarrow> ptr \<Rightarrow> nat \<Rightarrow> nat \<Rightarrow> mem" where
  "clear_cells m buf i 0 = m"
| "clear_cells m buf i (Suc n) = clear_cells (m(buf + of_nat i := 32)) buf (Suc i) n"

definition pingpong_walls :: "mem \<Rightarrow> ptr \<Rightarrow> mem" where
  "pingpong_walls m buf = (clear_cells m buf 0 81)(buf + 80 := 0, buf + 79 := 10, buf + 78 := 124, buf + 1 := 124)"

definition pingpong_draw :: "mem \<Rightarrow> ptr \<Rightarrow> u8 \<Rightarrow> nat \<Rightarrow> mem" where
  "pingpong_draw m buf curchar j = (clear_cells m buf 2 76)(buf + of_nat j := curchar)"

fun pingpong_frames :: "'s user_if \<Rightarrow> ptr \<Rightarrow> ptr \<Rightarrow> int \<Rightarrow> u8 \<Rightarrow> nat list \<Rightarrow> 's \<Rightarrow> (fault + 's) option" where
  "pingpong_frames U buf garbage rtc_fd curchar [] s = Some (Inr s)"
| "pingpong_frames U buf garbage rtc_fd curchar (j # js) s =
    fbind (ece391_fdputs U 1 buf (set_umem U (pingpong_draw (umem U s) buf curchar j) s)) (\<lambda>s.
    fbind (ece391_read U rtc_fd garbage 4 s) (\<lambda>(_, s).
      pingpong_frames U buf garbage rtc_fd curchar js s))"

partial_function (option) pingpong_loop :: "'s user_if \<Rightarrow> ptr \<Rightarrow> ptr \<Rightarrow> int \<Rightarrow> u8 \<Rightarrow> ('s, int) effect" where
  "pingpong_loop U buf garbage rtc_fd curchar s =
    fbind (pingpong_frames U buf garbage rtc_fd curchar [2..<78] s) (\<lambda>s.
    fbind (pingpong_frames U buf garbage rtc_fd curchar (rev [2..<78]) s) (\<lambda>s.
      pingpong_loop U buf garbage rtc_fd (if curchar = 90 then 65 else curchar + 1) s))"

definition pingpong_main :: "'s user_if \<Rightarrow> (bytes \<Rightarrow> ptr) \<Rightarrow> ptr \<Rightarrow> ptr \<Rightarrow> ptr \<Rightarrow> ('s, int) effect" where
  "pingpong_main U lit buf ret_val garbage s =
    (let s = set_umem U (pingpong_walls (umem U s) buf) s
     in fbind (ece391_open U (lit (asc ''rtc'')) s) (\<lambda>(rtc_fd, s).
        fbind (ece391_write U rtc_fd ret_val 4 (set_umem U (st32 (umem U s) ret_val 32) s)) (\<lambda>(r, s).
          pingpong_loop U buf garbage rtc_fd 65 (set_umem U (st32 (umem U s) ret_val (word_of_int r)) s))))"

text \<open>Each line that is printed has the walls in the same places and the letter at the position of the step.\<close>

lemma clear_cells_at: "i + n \<le> 4294967296 \<Longrightarrow>
    clear_cells m buf i n a = (if i \<le> unat (a - buf) \<and> unat (a - buf) < i + n then 32 else m a)"
proof (induction n arbitrary: m i)
  case (Suc n)
  have "unat (a - buf) = i \<longleftrightarrow> a = buf + of_nat i"
    using Suc.prems unat_of_nat32[of i] by (auto simp: algebra_simps dest!: arg_cong[of _ _ "of_nat :: nat \<Rightarrow> u32"])
  with Suc show ?case by (auto simp: not_less_eq_eq)
qed auto

definition frame_walls :: "mem \<Rightarrow> ptr \<Rightarrow> bool" where
  "frame_walls m buf \<longleftrightarrow> m buf = 32 \<and> m (buf + 1) = 124 \<and> m (buf + 78) = 124 \<and> m (buf + 79) = 10 \<and> m (buf + 80) = 0"

lemma pingpong_walls_ok: "frame_walls (pingpong_walls m buf) buf"
  by (simp add: frame_walls_def pingpong_walls_def clear_cells_at)

lemma pingpong_draw_ok:
  assumes "frame_walls m buf" "2 \<le> j" "j < 78"
  shows "frame_walls (pingpong_draw m buf c j) buf"
    and "k < 78 \<Longrightarrow> 2 \<le> k \<Longrightarrow> pingpong_draw m buf c j (buf + of_nat k) = (if k = j then c else 32)"
proof -
  have e: "of_nat k = (of_nat j :: u32) \<longleftrightarrow> k = j" if "k < 81" for k
    using that assms(3) by (auto simp: word_unat_eq_iff)
  from e[of 0] e[of 1] e[of 78] e[of 79] e[of 80] assms
  show "frame_walls (pingpong_draw m buf c j) buf" by (auto simp: frame_walls_def pingpong_draw_def clear_cells_at)
  show "pingpong_draw m buf c j (buf + of_nat k) = (if k = j then c else 32)" if "k < 78" "2 \<le> k"
    using that e[of k] by (simp add: pingpong_draw_def clear_cells_at)
qed

section \<open>Files and the directory\<close>

partial_function (option) cat_loop :: "'s user_if \<Rightarrow> (bytes \<Rightarrow> ptr) \<Rightarrow> ptr \<Rightarrow> int \<Rightarrow> ('s, int) effect" where
  "cat_loop U lit buf fd s =
    fbind (ece391_read U fd buf 1024 s) (\<lambda>(cnt, s).
      if cnt = 0 then Some (Inr (0, s))
      else if cnt = - 1 then puts_return U (lit (asc ''file read failed'' @ [10])) 3 s
      else fbind (ece391_write U 1 buf cnt s) (\<lambda>(r, s).
        if r = - 1 then Some (Inr (3, s)) else cat_loop U lit buf fd s))"

definition cat_main :: "'s user_if \<Rightarrow> (bytes \<Rightarrow> ptr) \<Rightarrow> ptr \<Rightarrow> ('s, int) effect" where
  "cat_main U lit buf s =
    fbind (ece391_getargs U buf 1024 s) (\<lambda>(r, s).
      if r \<noteq> 0 then puts_return U (lit (asc ''could not read arguments'' @ [10])) 3 s
      else fbind (ece391_open U buf s) (\<lambda>(fd, s).
        if fd = - 1 then puts_return U (lit (asc ''file not found'' @ [10])) 2 s
        else cat_loop U lit buf fd s))"

partial_function (option) ls_loop :: "'s user_if \<Rightarrow> (bytes \<Rightarrow> ptr) \<Rightarrow> ptr \<Rightarrow> int \<Rightarrow> ('s, int) effect" where
  "ls_loop U lit buf fd s =
    fbind (ece391_read U fd buf 32 s) (\<lambda>(cnt, s).
      if cnt = 0 then Some (Inr (0, s))
      else if cnt = - 1 then puts_return U (lit (asc ''directory entry read failed'' @ [10])) 3 s
      else let s = store U (buf + word_of_int cnt) 10 s
           in fbind (ece391_write U 1 buf (cnt + 1) s) (\<lambda>(r, s).
              if r = - 1 then Some (Inr (3, s)) else ls_loop U lit buf fd s))"

definition ls_main :: "'s user_if \<Rightarrow> (bytes \<Rightarrow> ptr) \<Rightarrow> ptr \<Rightarrow> ('s, int) effect" where
  "ls_main U lit buf s =
    fbind (ece391_open U (lit (asc ''.'')) s) (\<lambda>(fd, s).
      if fd = - 1 then puts_return U (lit (asc ''directory open failed'' @ [10])) 2 s
      else ls_loop U lit buf fd s)"

section \<open>Searching\<close>

text \<open>
  The string that is searched for has type \<^verbatim>\<open>const char*\<close> and the data \<^verbatim>\<open>uint8_t\<close>: the first
  characters are compared as a signed and an unsigned number.
\<close>

function find_line_end :: "mem \<Rightarrow> ptr \<Rightarrow> int \<Rightarrow> int \<Rightarrow> int" where
  "find_line_end m data filled line_end =
    (if line_end < filled \<and> m (data + word_of_int line_end) \<noteq> 10
     then find_line_end m data filled (line_end + 1) else line_end)"
  by pat_completeness auto
termination
  by (relation "measure (\<lambda>(m, data, filled, line_end). nat (filled - line_end))") auto

declare find_line_end.simps [simp del]

function search_line ::
  "'s user_if \<Rightarrow> (bytes \<Rightarrow> ptr) \<Rightarrow> ptr \<Rightarrow> ptr \<Rightarrow> ptr \<Rightarrow> u32 \<Rightarrow> int \<Rightarrow> int \<Rightarrow> int \<Rightarrow> 's \<Rightarrow> (fault + 's) option" where
  "search_line U lit str fname data s_len line_start line_end check s =
    (if check < line_end
     then if sint (umem U s str) = uint (umem U s (data + word_of_int check)) \<and>
             ece391_strncmp (umem U s) (data + word_of_int check) str s_len = 0
          then fbind (ece391_fdputs U 1 fname s) (\<lambda>s.
               fbind (ece391_fdputs U 1 (lit (asc '':'')) s) (\<lambda>s.
               fbind (ece391_fdputs U 1 (data + word_of_int line_start) s) (\<lambda>s.
               ece391_fdputs U 1 (lit [10]) s)))
          else search_line U lit str fname data s_len line_start line_end (check + 1) s
     else Some (Inr s))"
  by pat_completeness auto
termination
  by (relation "measure (\<lambda>(U, lit, str, fname, data, s_len, line_start, line_end, check, s). nat (line_end - check))") auto

declare search_line.simps [simp del]

text \<open>The loop over the lines in the buffer: the new value of \<open>filled\<close>, which is \<^verbatim>\<open>last\<close> in the code.\<close>

partial_function (option) grep_lines ::
  "'s user_if \<Rightarrow> (bytes \<Rightarrow> ptr) \<Rightarrow> ptr \<Rightarrow> ptr \<Rightarrow> ptr \<Rightarrow> u32 \<Rightarrow> int \<Rightarrow> int \<Rightarrow> int \<Rightarrow> ('s, int) effect" where
  "grep_lines U lit str fname data s_len cnt filled line_start s =
    (let line_end = find_line_end (umem U s) data filled line_start;
         partial = umem U s (data + word_of_int line_end) \<noteq> 10 \<and> cnt \<noteq> 0 \<and> line_start \<noteq> 0;
         s = store U (data + word_of_int line_end) 0 s
     in if partial
        then Option.bind (ece391_strcpy (umem U s) data (data + word_of_int line_start)) (\<lambda>m.
          Some (Inr (filled - line_start, set_umem U m s)))
        else fbind (search_line U lit str fname data s_len line_start line_end line_start s) (\<lambda>s.
          if line_end + 1 \<ge> filled then Some (Inr (0, s))
          else grep_lines U lit str fname data s_len cnt filled (line_end + 1) s))"

partial_function (option) grep_reads ::
  "'s user_if \<Rightarrow> (bytes \<Rightarrow> ptr) \<Rightarrow> ptr \<Rightarrow> ptr \<Rightarrow> ptr \<Rightarrow> u32 \<Rightarrow> int \<Rightarrow> int \<Rightarrow> ('s, int) effect" where
  "grep_reads U lit str fname data s_len fd filled s =
    fbind (ece391_read U fd (data + word_of_int filled) (1024 - filled) s) (\<lambda>(cnt, s).
      if cnt = - 1 then puts_return U (lit (asc ''file read failed'' @ [10])) (- 1) s
      else fbind (grep_lines U lit str fname data s_len cnt (filled + cnt) 0 s) (\<lambda>(filled, s).
        if cnt = 0 then Some (Inr (0, s))
        else grep_reads U lit str fname data s_len fd filled s))"

definition do_one_file ::
  "'s user_if \<Rightarrow> (bytes \<Rightarrow> ptr) \<Rightarrow> ptr \<Rightarrow> ptr \<Rightarrow> ptr \<Rightarrow> ('s, int) effect" where
  "do_one_file U lit data str fname s =
    Option.bind (ece391_strlen (umem U s) str) (\<lambda>s_len.
      fbind (ece391_open U fname s) (\<lambda>(fd, s).
        if fd = - 1 then puts_return U (lit (asc ''file open failed'' @ [10])) (- 1) s
        else fbind (grep_reads U lit str fname data s_len fd 0 s) (\<lambda>(r, s).
          if r = - 1 then Some (Inr (- 1, s))
          else fbind (ece391_close U fd s) (\<lambda>(r, s).
            if r = - 1 then puts_return U (lit (asc ''file close failed'' @ [10])) (- 1) s
            else Some (Inr (0, s))))))"

partial_function (option) grep_loop ::
  "'s user_if \<Rightarrow> (bytes \<Rightarrow> ptr) \<Rightarrow> ptr \<Rightarrow> ptr \<Rightarrow> ptr \<Rightarrow> int \<Rightarrow> ('s, int) effect" where
  "grep_loop U lit data buf search fd s =
    fbind (ece391_read U fd buf 32 s) (\<lambda>(cnt, s).
      if cnt = 0 then Some (Inr (0, s))
      else if cnt = - 1 then puts_return U (lit (asc ''directory entry read failed'' @ [10])) 3 s
      else if umem U s buf = 46 then grep_loop U lit data buf search fd s
      else let s = store U (buf + word_of_int cnt) 0 s
           in fbind (do_one_file U lit data search buf s) (\<lambda>(r, s).
              if r \<noteq> 0 then Some (Inr (3, s)) else grep_loop U lit data buf search fd s))"

definition grep_main :: "'s user_if \<Rightarrow> (bytes \<Rightarrow> ptr) \<Rightarrow> ptr \<Rightarrow> ptr \<Rightarrow> ptr \<Rightarrow> ('s, int) effect" where
  "grep_main U lit data buf search s =
    fbind (ece391_getargs U search 1024 s) (\<lambda>(r, s).
      if r \<noteq> 0 then puts_return U (lit (asc ''could not read argument'' @ [10])) 3 s
      else fbind (ece391_open U (lit (asc ''.'')) s) (\<lambda>(fd, s).
        if fd = - 1 then puts_return U (lit (asc ''directory open failed'' @ [10])) 2 s
        else grep_loop U lit data buf search fd s))"

section \<open>The shell\<close>

partial_function (option) shell_loop :: "'s user_if \<Rightarrow> (bytes \<Rightarrow> ptr) \<Rightarrow> ptr \<Rightarrow> ('s, int) effect" where
  "shell_loop U lit buf s =
    fbind (ece391_fdputs U 1 (lit (asc ''391OS> '')) s) (\<lambda>s.
    fbind (ece391_read U 0 buf 1023 s) (\<lambda>(cnt, s).
      if cnt = - 1 then puts_return U (lit (asc ''read from keyboard failed'' @ [10])) 3 s
      else let cnt = (if cnt > 0 \<and> umem U s (buf + word_of_int (cnt - 1)) = 10 then cnt - 1 else cnt);
               s = store U (buf + word_of_int cnt) 0 s
           in Option.bind (ece391_strcmp (umem U s) buf (lit (asc ''exit''))) (\<lambda>r.
              if r = 0 then Some (Inr (0, s))
              else if umem U s buf = 0 then shell_loop U lit buf s
              else fbind (ece391_execute U buf s) (\<lambda>(rval, s).
                if rval = - 1
                then fbind (ece391_fdputs U 1 (lit (asc ''no such command'' @ [10])) s) (shell_loop U lit buf)
                else if rval = 256
                then fbind (ece391_fdputs U 1 (lit (asc ''program terminated by exception'' @ [10])) s) (shell_loop U lit buf)
                else if rval \<noteq> 0
                then fbind (ece391_fdputs U 1 (lit (asc ''program terminated abnormally'' @ [10])) s) (shell_loop U lit buf)
                else shell_loop U lit buf s))))"

definition shell_main :: "'s user_if \<Rightarrow> (bytes \<Rightarrow> ptr) \<Rightarrow> ptr \<Rightarrow> ('s, int) effect" where
  "shell_main U lit buf s =
    fbind (ece391_fdputs U 1 (lit (asc ''Starting 391 Shell'' @ [10])) s) (shell_loop U lit buf)"

section \<open>The tests of refused requests\<close>

definition call_sys :: "'s user_if \<Rightarrow> int \<Rightarrow> ('s, int) effect" where
  "call_sys U num s = int80 U (word_of_int num) 0 0 0 s"

text \<open>The recurring test: a call that does not return -1 is reported and makes the result 2.\<close>

definition expect_error ::
  "'s user_if \<Rightarrow> ('s, int) effect \<Rightarrow> ptr \<Rightarrow> ('s, int) effect \<Rightarrow> ('s, int) effect" where
  "expect_error U call msg before s =
    fbind (before s) (\<lambda>(fail, s). fbind (call s) (\<lambda>(r, s).
      if r \<noteq> - 1 then puts_return U msg 2 s else Some (Inr (fail, s))))"

definition report :: "'s user_if \<Rightarrow> (bytes \<Rightarrow> ptr) \<Rightarrow> string \<Rightarrow> ('s, int) effect \<Rightarrow> ('s, int) effect" where
  "report U lit test body s =
    fbind (body s) (\<lambda>(fail, s).
      if fail \<noteq> 0 then puts_return U (lit (asc (test @ '': FAIL'') @ [10])) fail s
      else puts_return U (lit (asc (test @ '': PASS'') @ [10])) fail s)"

definition pass :: "('s, int) effect" where
  "pass s = Some (Inr (0, s))"

definition err_fd :: "'s user_if \<Rightarrow> (bytes \<Rightarrow> ptr) \<Rightarrow> ptr \<Rightarrow> int \<Rightarrow> ('s, int) effect" where
  "err_fd U lit buf fd =
    expect_error U (ece391_close U fd) (lit (asc ''close fail'' @ [10]))
    (expect_error U (ece391_write U fd buf 31) (lit (asc ''write fail'' @ [10]))
    (expect_error U (ece391_read U fd buf 31) (lit (asc ''read fail'' @ [10])) pass))"

definition err_neg_fd :: "'s user_if \<Rightarrow> (bytes \<Rightarrow> ptr) \<Rightarrow> ptr \<Rightarrow> ('s, int) effect" where
  "err_neg_fd U lit buf = report U lit ''err_neg_fd'' (err_fd U lit buf (- 1073741823))"

definition err_big_fd :: "'s user_if \<Rightarrow> (bytes \<Rightarrow> ptr) \<Rightarrow> ptr \<Rightarrow> ('s, int) effect" where
  "err_big_fd U lit buf = report U lit ''err_big_fd'' (err_fd U lit buf 1073741823)"

fun open_lots :: "'s user_if \<Rightarrow> ptr \<Rightarrow> nat \<Rightarrow> int \<Rightarrow> ('s, int) effect" where
  "open_lots U dot 0 cnt s = Some (Inr (cnt, s))"
| "open_lots U dot (Suc i) cnt s =
    fbind (ece391_open U dot s) (\<lambda>(r, s). open_lots U dot i (if r = - 1 then cnt + 1 else cnt) s)"

fun close_all :: "'s user_if \<Rightarrow> int list \<Rightarrow> 's \<Rightarrow> (fault + 's) option" where
  "close_all U [] s = Some (Inr s)"
| "close_all U (i # is) s = fbind (ece391_close U i s) (\<lambda>(_, s). close_all U is s)"

definition err_open_lots :: "'s user_if \<Rightarrow> (bytes \<Rightarrow> ptr) \<Rightarrow> ('s, int) effect" where
  "err_open_lots U lit s =
    fbind (open_lots U (lit (asc ''.'')) 7 0 s) (\<lambda>(cnt, s).
    fbind (close_all U [2, 3, 4, 5, 6, 7] s) (\<lambda>s.
      if cnt = 1 then puts_return U (lit (asc ''err_open_lots: PASS'' @ [10])) 0 s
      else puts_return U (lit (asc ''err_open_lots: FAIL'' @ [10])) 2 s))"

definition err_open :: "'s user_if \<Rightarrow> (bytes \<Rightarrow> ptr) \<Rightarrow> ('s, int) effect" where
  "err_open U lit = report U lit ''err_open''
    (expect_error U (ece391_open U (lit [])) (lit (asc ''empty string fail'' @ [10]))
    (expect_error U (ece391_open U (lit (asc ''shel''))) (lit (asc '''shel' fail'' @ [10]))
    (expect_error U (ece391_open U (lit (asc ''helloo''))) (lit (asc '''helloo' fail'' @ [10])) pass)))"

text \<open>A loop of such tests, the body for each \<open>i\<close> in order.\<close>

fun expect_errors :: "'s user_if \<Rightarrow> (int \<Rightarrow> ('s, int) effect) \<Rightarrow> ptr \<Rightarrow> int list \<Rightarrow> ('s, int) effect \<Rightarrow> ('s, int) effect" where
  "expect_errors U call msg [] before = before"
| "expect_errors U call msg (i # is) before = expect_errors U call msg is (expect_error U (call i) msg before)"

definition err_unopened :: "'s user_if \<Rightarrow> (bytes \<Rightarrow> ptr) \<Rightarrow> ptr \<Rightarrow> ('s, int) effect" where
  "err_unopened U lit buf = report U lit ''err_unopened''
    (expect_errors U (\<lambda>i. ece391_write U i buf 31) (lit (asc ''write to unopened fd fail'' @ [10])) [2, 3, 4, 5, 6, 7]
    (expect_errors U (\<lambda>i. ece391_read U i buf 31) (lit (asc ''read from unopened fd fail'' @ [10])) [2, 3, 4, 5, 6, 7]
    (expect_errors U (ece391_close U) (lit (asc ''close unopened or invalid fd fail'' @ [10])) [0, 1, 2, 3, 4, 5, 6, 7] pass)))"

definition err_vidmap :: "'s user_if \<Rightarrow> (bytes \<Rightarrow> ptr) \<Rightarrow> ('s, int) effect" where
  "err_vidmap U lit = report U lit ''err_vidmap''
    (expect_error U (ece391_vidmap U 0x400000) (lit (asc ''Kernel pointer fail fail'' @ [10]))
    (expect_error U (ece391_vidmap U 0) (lit (asc ''Null pointer fail'' @ [10])) pass))"

definition err_stdin_out :: "'s user_if \<Rightarrow> (bytes \<Rightarrow> ptr) \<Rightarrow> ptr \<Rightarrow> ('s, int) effect" where
  "err_stdin_out U lit buf = report U lit ''err_stdin_out''
    (expect_error U (ece391_read U 1 buf 31) (lit (asc ''read from stdout fail'' @ [10]))
    (expect_error U (ece391_write U 0 buf 31) (lit (asc ''write to stdin fail'' @ [10])) pass))"

definition err_syscall_num :: "'s user_if \<Rightarrow> (bytes \<Rightarrow> ptr) \<Rightarrow> ('s, int) effect" where
  "err_syscall_num U lit = report U lit ''err_syscall_num''
    (expect_error U (call_sys U 0) (lit (asc ''neg num syscall fail'' @ [10]))
    (expect_error U (call_sys U (- 1073741823)) (lit (asc ''big num syscall fail'' @ [10]))
    (expect_error U (call_sys U 1073741823) (lit (asc ''syscall 0 fail'' @ [10])) pass)))"

text \<open>\<open>locals\<close> gives the address of the buffer of each of the four tests that have one.\<close>

definition syserr_tests :: "'s user_if \<Rightarrow> (bytes \<Rightarrow> ptr) \<Rightarrow> (nat \<Rightarrow> ptr) \<Rightarrow> ('s, int) effect list" where
  "syserr_tests U lit locals =
    [err_neg_fd U lit (locals 1), err_big_fd U lit (locals 2), err_open_lots U lit, err_open U lit,
     err_unopened U lit (locals 5), err_vidmap U lit, err_stdin_out U lit (locals 7), err_syscall_num U lit]"

fun run_tests :: "('s, int) effect list \<Rightarrow> int \<Rightarrow> ('s, int) effect" where
  "run_tests [] fail s = Some (Inr (fail, s))"
| "run_tests (t # ts) fail s = fbind (t s) (\<lambda>(r, s). run_tests ts (fail + r) s)"

definition syserr_select :: "'s user_if \<Rightarrow> (bytes \<Rightarrow> ptr) \<Rightarrow> (nat \<Rightarrow> ptr) \<Rightarrow> int \<Rightarrow> ('s, int) effect" where
  "syserr_select U lit locals select s =
    (if select = 0
     then fbind (run_tests (syserr_tests U lit locals) 0 s) (\<lambda>(fail, s).
       if fail \<noteq> 0 then puts_return U (lit ([10] @ asc ''Overall Tests: FAIL'' @ [10])) fail s
       else puts_return U (lit ([10] @ asc ''Overall Tests: PASS'' @ [10])) fail s)
     else if 1 \<le> select \<and> select \<le> 8 then (syserr_tests U lit locals ! nat (select - 1)) s
     else puts_return U (lit (asc ''Invalid test number. Choose from tests 1-8 or 0'')) 0 s)"

definition syserr_main :: "'s user_if \<Rightarrow> (bytes \<Rightarrow> ptr) \<Rightarrow> (nat \<Rightarrow> ptr) \<Rightarrow> ptr \<Rightarrow> ('s, int) effect" where
  "syserr_main U lit locals buf s =
    fbind (ece391_fdputs U 1 (lit (asc ''Choose from tests 1-8. 0 to run all: '')) s) (\<lambda>s.
    fbind (ece391_read U 0 buf 127 s) (\<lambda>(cnt, s).
      if cnt = - 1 then puts_return U (lit (asc ''Can't read test #'' @ [10])) 2 s
      else syserr_select U lit locals (uint (umem U s buf) - 48) s))"

section \<open>What programs rely on\<close>

text \<open>
  The world as programs see it: the screen, their descriptors, what a name in the directory opens,
  the name fields of the directory with the position of the next one to be read, and the arguments.
\<close>

datatype handle = Console_File | Clock_File | Directory | Stream bytes

record world =
  shown :: display
  handles :: "nat \<Rightarrow> handle option"
  entry :: "bytes \<Rightarrow> handle option"
  listing :: "bytes list"
  next_entry :: nat
  args :: bytes

definition in_page :: "ptr \<Rightarrow> nat \<Rightarrow> bool" where
  "in_page p n \<longleftrightarrow> 0x8000000 \<le> unat p \<and> unat p + n \<le> 0x8400000"

definition put_bytes :: "bytes \<Rightarrow> display \<Rightarrow> display" where
  "put_bytes bs d = fold (\<lambda>x. grid_write x (bs ! x)) [0..<length bs] d"

text \<open>Opening a name takes the lowest free descriptor from 2 to 7.\<close>

definition fresh :: "world \<Rightarrow> nat option" where
  "fresh w = find (\<lambda>j. handles w j = None) [2..<8]"

lemma fresh_range: "fresh w = Some fd \<Longrightarrow> 2 \<le> fd \<and> fd < 8"
proof -
  assume "fresh w = Some fd"
  then obtain i where "i < length [2..<8]" "fd = [2..<8] ! i" unfolding fresh_def find_Some_iff by blast
  then have "fd \<in> set [2..<8]" using nth_mem by blast
  then show ?thesis by auto
qed

definition w_open :: "bytes \<Rightarrow> world \<Rightarrow> int \<times> world" where
  "w_open nm w =
    (case (entry w nm, fresh w) of
       (Some h, Some fd) \<Rightarrow> (int fd, w\<lparr>handles := (handles w)(fd := Some h)\<rparr>)
     | _ \<Rightarrow> (- 1, w))"

definition w_read_dir :: "world \<Rightarrow> bytes \<times> world" where
  "w_read_dir w =
    (if next_entry w < length (listing w)
     then (listing w ! next_entry w, w\<lparr>next_entry := next_entry w + 1\<rparr>)
     else ([], w\<lparr>next_entry := 0\<rparr>))"

definition no_handle :: "world \<Rightarrow> int \<Rightarrow> bool" where
  "no_handle w fd \<longleftrightarrow> fd < 0 \<or> fd > 7 \<or> handles w (nat fd) = None"

definition w_refuses :: "u32 \<Rightarrow> u32 \<Rightarrow> u32 \<Rightarrow> u32 \<Rightarrow> world \<Rightarrow> bool" where
  "w_refuses a b c d w \<longleftrightarrow>
    a = 0 \<or> a > 10 \<or>
    a = 3 \<and> (sint b = 1 \<or> sint d < 0 \<or> no_handle w (sint b)) \<or>
    a = 4 \<and> (sint b = 0 \<or> sint d < 0 \<or> no_handle w (sint b)) \<or>
    a = 6 \<and> (sint b < 2 \<or> no_handle w (sint b)) \<or>
    a = 7 \<and> args w = [] \<or>
    a = 8 \<and> (b < 0x8048000 \<or> b \<ge> 0x8400000)"

text \<open>The pieces in which \<open>cat\<close> copies a file.\<close>

function chunks :: "bytes \<Rightarrow> bytes list" where
  "chunks bs = (if bs = [] then [] else take 1024 bs # chunks (drop 1024 bs))"
  by pat_completeness auto
termination
  by (relation "measure length") auto

declare chunks.simps [simp del]

lemma concat_chunks: "concat (chunks bs) = bs"
  by (induction bs rule: chunks.induct) (subst chunks.simps, simp)

text \<open>A short piece without line breaks is printed character by character, without its NULs.\<close>

lemma put_bytes_short: "length bs \<le> 80 \<Longrightarrow> put_bytes bs d = fold grid_putc (filter (\<lambda>c. c \<noteq> 0) bs) d"
proof (induction bs arbitrary: d rule: rev_induct)
  case (snoc b bs)
  have "fold (\<lambda>x. grid_write x ((bs @ [b]) ! x)) [0..<length bs] d = put_bytes bs d"
    unfolding put_bytes_def by (rule fold_cong) (simp_all add: nth_append)
  then have "put_bytes (bs @ [b]) d = grid_write (length bs) b (put_bytes bs d)" by (simp add: put_bytes_def)
  moreover have "grid_write (length bs) b e = (if b \<noteq> 0 then grid_putc b e else e)" for e
    using snoc.prems by (cases bs) (simp_all add: grid_write_def)
  ultimately show ?case using snoc by simp
qed (simp add: put_bytes_def)

text \<open>A literal or other string of the program.\<close>

definition says :: "'s user_if \<Rightarrow> ptr \<Rightarrow> bytes \<Rightarrow> 's \<Rightarrow> bool" where
  "says U p bs s \<longleftrightarrow> cstr (umem U s) p bs \<and> in_page p (length bs) \<and> 0 < length bs \<and> length bs \<le> 1024"

text \<open>What the tests of refused requests print when all pass, and what they need to find.\<close>

definition pass_message :: "string \<Rightarrow> bytes" where
  "pass_message test = asc (test @ '': PASS'') @ [10]"

definition syserr_names :: "string list" where
  "syserr_names = [''err_neg_fd'', ''err_big_fd'', ''err_open_lots'', ''err_open'', ''err_unopened'', ''err_vidmap'',
    ''err_stdin_out'', ''err_syscall_num'']"

definition pass_overall :: bytes where
  "pass_overall = [10] @ asc ''Overall Tests: PASS'' @ [10]"

definition syserr_ready :: "'s user_if \<Rightarrow> (bytes \<Rightarrow> ptr) \<Rightarrow> world \<Rightarrow> 's \<Rightarrow> bool" where
  "syserr_ready U lit w s \<longleftrightarrow> (\<forall>j. 2 \<le> j \<and> j < 8 \<longrightarrow> handles w j = None) \<and>
    entry w (asc ''.'') = Some Directory \<and> entry w (asc ''helloo'') = None \<and> entry w (asc ''shel'') = None \<and> entry w [] = None \<and>
    (\<forall>m \<in> set (map pass_message syserr_names @ [pass_overall]). says U (lit m) m s) \<and>
    (\<forall>n \<in> {asc ''.'', asc ''helloo'', asc ''shel'', []}. cstr (umem U s) (lit n) n \<and> in_page (lit n) 32)"

locale program_calls =
  fixes U :: "'s user_if" and W :: "'s \<Rightarrow> world" and ok :: "'s \<Rightarrow> bool"
  assumes stores: "ok s \<Longrightarrow> (\<And>a. \<not> in_page a 1 \<Longrightarrow> m a = umem U s a) \<Longrightarrow>
      umem U (set_umem U m s) = m \<and> W (set_umem U m s) = W s \<and> ok (set_umem U m s)"
    and writes: "ok s \<Longrightarrow> in_page buf n \<Longrightarrow> 0 < n \<Longrightarrow> n \<le> 1024 \<Longrightarrow>
      \<exists>t. int80 U 4 1 buf (of_nat n) s =
          Some (Inr (int (length (filter (\<lambda>c. c \<noteq> 0) (rd_bytes (umem U s) buf n))), t)) \<and>
        ok t \<and> umem U t = umem U s \<and> W t = (W s)\<lparr>shown := put_bytes (rd_bytes (umem U s) buf n) (shown (W s))\<rparr>"
    and reads_stream: "ok s \<Longrightarrow> in_page buf n \<Longrightarrow> 0 < n \<Longrightarrow> n \<le> 1024 \<Longrightarrow> fd < 8 \<Longrightarrow> handles (W s) fd = Some (Stream bs) \<Longrightarrow>
      \<exists>t. int80 U 3 (of_nat fd) buf (of_nat n) s = Some (Inr (int (length (take n bs)), t)) \<and>
        ok t \<and> umem U t = wr_bytes (umem U s) buf (take n bs) \<and>
        W t = (W s)\<lparr>handles := (handles (W s))(fd := Some (Stream (drop n bs)))\<rparr>"
    and reads_directory: "ok s \<Longrightarrow> in_page buf 32 \<Longrightarrow> fd < 8 \<Longrightarrow> handles (W s) fd = Some Directory \<Longrightarrow>
      w_read_dir (W s) = (bs, w) \<Longrightarrow>
      \<exists>t. int80 U 3 (of_nat fd) buf 32 s = Some (Inr (int (length bs), t)) \<and>
        ok t \<and> umem U t = wr_bytes (umem U s) buf bs \<and> W t = w"
    and opens: "ok s \<Longrightarrow> cstr (umem U s) p nm \<Longrightarrow> length nm \<le> 31 \<Longrightarrow> in_page p 32 \<Longrightarrow> w_open nm (W s) = (r, w) \<Longrightarrow>
      \<exists>t. int80 U 5 p 0 0 s = Some (Inr (r, t)) \<and> ok t \<and> umem U t = umem U s \<and> W t = w"
    and closes: "ok s \<Longrightarrow> 2 \<le> fd \<Longrightarrow> fd < 8 \<Longrightarrow> handles (W s) fd \<noteq> None \<Longrightarrow>
      \<exists>t. int80 U 6 (of_nat fd) 0 0 s = Some (Inr (0, t)) \<and> ok t \<and> umem U t = umem U s \<and>
        W t = (W s)\<lparr>handles := (handles (W s))(fd := None)\<rparr>"
    and gets_args: "ok s \<Longrightarrow> in_page buf n \<Longrightarrow> args (W s) \<noteq> [] \<Longrightarrow> length (args (W s)) < n \<Longrightarrow> n \<le> 1024 \<Longrightarrow>
      \<exists>t. int80 U 7 buf (of_nat n) 0 s = Some (Inr (0, t)) \<and> ok t \<and>
        umem U t = wr_bytes (umem U s) buf (args (W s) @ [0]) \<and>
        W t = (W s)\<lparr>shown := fold grid_putc (asc ''getargs buf: '' @ args (W s) @ [10]) (shown (W s))\<rparr>"
    and refuses: "ok s \<Longrightarrow> w_refuses a b c d (W s) \<Longrightarrow>
      \<exists>t. int80 U a b c d s = Some (Inr (- 1, t)) \<and> ok t \<and> umem U t = umem U s \<and> W t = W s"
    and names_full: "ok s \<Longrightarrow> bs \<in> set (listing (W s)) \<Longrightarrow> length bs = 32"
begin

lemma store_shows:
  assumes "ok s" "in_page p 1"
  shows "umem U (store U p b s) = (umem U s)(p := b)" "W (store U p b s) = W s" "ok (store U p b s)"
proof -
  have "((umem U s)(p := b)) a = umem U s a" if "\<not> in_page a 1" for a using that assms(2) by auto
  from stores[OF assms(1), of "(umem U s)(p := b)", OF this]
  show "umem U (store U p b s) = (umem U s)(p := b)" "W (store U p b s) = W s" "ok (store U p b s)"
    by (simp_all add: store_def del: fun_upd_apply)
qed

lemma writes_bytes:
  assumes "ok s" "in_page buf n" "0 < n" "n \<le> 1024" "rd_bytes (umem U s) buf n = bs"
  shows "\<exists>k t. int80 U 4 1 buf (of_nat n) s = Some (Inr (int k, t)) \<and> ok t \<and> umem U t = umem U s \<and>
    W t = (W s)\<lparr>shown := put_bytes bs (shown (W s))\<rparr>"
  using writes[OF assms(1-4)] assms(5) by blast

lemma fdputs_shows:
  assumes "ok s" "says U p bs s"
  shows "\<exists>t. ece391_fdputs U 1 p s = Some (Inr t) \<and> ok t \<and> umem U t = umem U s \<and>
    W t = (W s)\<lparr>shown := put_bytes bs (shown (W s))\<rparr>"
proof -
  have p: "cstr (umem U s) p bs" "in_page p (length bs)" "0 < length bs" "length bs \<le> 1024"
    using assms(2) by (simp_all add: says_def)
  have "rd_bytes (umem U s) p (length bs) = bs" using cstr_rd_bytes[OF p(1)] .
  then show ?thesis using writes[OF assms(1) p(2-4)] p(4)
    by (auto simp: ece391_fdputs_def user_strlen[OF p(1)] ece391_write_def DO_CALL_def fbind_def)
qed

lemma puts_return_shows:
  assumes "ok s" "says U p bs s"
  shows "\<exists>t. puts_return U p r s = Some (Inr (r, t)) \<and> ok t \<and> umem U t = umem U s \<and>
    W t = (W s)\<lparr>shown := put_bytes bs (shown (W s))\<rparr>"
  using fdputs_shows[OF assms] by (auto simp: puts_return_def fbind_def)

lemmas call_defs = ece391_read_def ece391_write_def ece391_open_def ece391_close_def ece391_getargs_def
  ece391_vidmap_def DO_CALL_def fbind_def

lemma cat_loop_shows:
  "ok s \<Longrightarrow> in_page buf 1024 \<Longrightarrow> fd < 8 \<Longrightarrow> handles (W s) fd = Some (Stream bs) \<Longrightarrow>
    \<exists>t. cat_loop U lit buf (int fd) s = Some (Inr (0, t)) \<and> ok t \<and>
      W t = (W s)\<lparr>handles := (handles (W s))(fd := Some (Stream [])), shown := fold put_bytes (chunks bs) (shown (W s))\<rparr>"
proof (induction bs arbitrary: s rule: chunks.induct)
  case (1 bs)
  let ?c = "take 1024 bs"
  obtain t where t: "int80 U 3 (of_nat fd) buf 1024 s = Some (Inr (int (length ?c), t))" "ok t"
    "umem U t = wr_bytes (umem U s) buf ?c" "W t = (W s)\<lparr>handles := (handles (W s))(fd := Some (Stream (drop 1024 bs)))\<rparr>"
    using reads_stream[of s buf 1024 fd bs] 1(2-5) by auto
  show ?case
  proof (cases "bs = []")
    case True
    with t show ?thesis by (subst cat_loop.simps) (auto simp: call_defs chunks.simps intro: world.equality)
  next
    case False
    have "in_page buf (length ?c)" using 1(3) by (simp add: in_page_def min_def)
    moreover have "rd_bytes (umem U t) buf (length ?c) = ?c" using rd_wr_bytes[of ?c "umem U s" buf] t(3) by simp
    ultimately obtain k u where u: "int80 U 4 1 buf (of_nat (length ?c)) t = Some (Inr (int k, u))" "ok u"
      "W u = (W t)\<lparr>shown := put_bytes ?c (shown (W t))\<rparr>"
      using writes_bytes[OF t(2), of buf "length ?c" ?c] False by auto
    have "handles (W u) fd = Some (Stream (drop 1024 bs))" using t(4) u(3) by simp
    from 1(1)[OF False u(2) 1(3,4) this] obtain v where
      v: "cat_loop U lit buf (int fd) u = Some (Inr (0, v))" "ok v"
        "W v = (W u)\<lparr>handles := (handles (W u))(fd := Some (Stream [])), shown := fold put_bytes (chunks (drop 1024 bs)) (shown (W u))\<rparr>"
      by blast
    have "cat_loop U lit buf (int fd) s = Some (Inr (0, v))"
      using t(1) u(1) v(1) False by (subst cat_loop.simps) (auto simp: call_defs min_def)
    moreover have "chunks bs = ?c # chunks (drop 1024 bs)" using False by (subst chunks.simps) simp
    ultimately show ?thesis using v u(3) t(4) by (simp del: fun_upd_apply)
  qed
qed

lemma ls_loop_shows:
  "ok s \<Longrightarrow> in_page buf 33 \<Longrightarrow> fd < 8 \<Longrightarrow> handles (W s) fd = Some Directory \<Longrightarrow>
    \<exists>t. ls_loop U lit buf (int fd) s = Some (Inr (0, t)) \<and> ok t \<and>
      W t = (W s)\<lparr>next_entry := 0, shown := fold (\<lambda>nm. put_bytes (nm @ [10])) (drop (next_entry (W s)) (listing (W s))) (shown (W s))\<rparr>"
proof (induction "length (listing (W s)) - next_entry (W s)" arbitrary: s)
  case 0
  then have "w_read_dir (W s) = ([], (W s)\<lparr>next_entry := 0\<rparr>)" by (simp add: w_read_dir_def)
  with reads_directory[of s buf fd] 0 obtain t where
    "int80 U 3 (of_nat fd) buf 32 s = Some (Inr (0, t))" "ok t" "W t = (W s)\<lparr>next_entry := 0\<rparr>"
    by (fastforce simp: in_page_def)
  with 0 show ?case by (subst ls_loop.simps) (auto simp: call_defs intro: world.equality)
next
  case (Suc k)
  let ?i = "next_entry (W s)" and ?nm = "listing (W s) ! next_entry (W s)"
  have i: "?i < length (listing (W s))" using Suc(2) by simp
  have l: "length ?nm = 32" using names_full[OF Suc(3)] i by simp
  have "w_read_dir (W s) = (?nm, (W s)\<lparr>next_entry := ?i + 1\<rparr>)" using i by (simp add: w_read_dir_def)
  with reads_directory[of s buf fd] Suc(3-6) l obtain t where t:
    "int80 U 3 (of_nat fd) buf 32 s = Some (Inr (32, t))" "ok t"
    "umem U t = wr_bytes (umem U s) buf ?nm" "W t = (W s)\<lparr>next_entry := ?i + 1\<rparr>"
    by (fastforce simp: in_page_def)
  let ?m = "(umem U t)(buf + 32 := 10)" and ?u = "store U (buf + 32) 10 t"
  have "in_page (buf + 32) 1" using Suc(4) by (simp add: in_page_def unat_word_ariths)
  then have u: "umem U ?u = ?m" "W ?u = W t" "ok ?u"
    using store_shows[OF t(2)] by blast+
  have "?m = wr_bytes (umem U s) buf (?nm @ [10])" using t(3) l by (simp add: wr_bytes_snoc)
  then have "rd_bytes (umem U ?u) buf 33 = ?nm @ [10]"
    using rd_wr_bytes[of "?nm @ [10]" "umem U s" buf] l u(1) by simp
  then obtain k' v where v: "int80 U 4 1 buf 33 ?u = Some (Inr (int k', v))" "ok v"
    "W v = (W t)\<lparr>shown := put_bytes (?nm @ [10]) (shown (W t))\<rparr>"
    using writes_bytes[OF u(3), of buf 33 "?nm @ [10]"] Suc(4) u(2) by auto
  have "k = length (listing (W v)) - next_entry (W v)" "handles (W v) fd = Some Directory" using Suc(2,6) v(3) t(4) by simp_all
  from Suc(1)[OF this(1) v(2) Suc(4,5) this(2)] obtain w where
    w: "ls_loop U lit buf (int fd) v = Some (Inr (0, w))" "ok w"
      "W w = (W v)\<lparr>next_entry := 0, shown := fold (\<lambda>nm. put_bytes (nm @ [10])) (drop (next_entry (W v)) (listing (W v))) (shown (W v))\<rparr>"
    by blast
  have "ls_loop U lit buf (int fd) s = Some (Inr (0, w))"
    using t(1) v(1) w(1) by (subst ls_loop.simps) (simp add: call_defs)
  moreover have "drop ?i (listing (W s)) = ?nm # drop (Suc ?i) (listing (W s))" using i by (simp add: Cons_nth_drop_Suc)
  ultimately show ?case using w v(3) t(4) by simp
qed

lemma getargs_shows:
  assumes "ok s" "in_page buf 1024" "args (W s) = nm" "nm \<noteq> []" "length nm \<le> 31"
  shows "\<exists>t. ece391_getargs U buf 1024 s = Some (Inr (0, t)) \<and> ok t \<and> umem U t = wr_bytes (umem U s) buf (nm @ [0]) \<and>
    W t = (W s)\<lparr>shown := fold grid_putc (asc ''getargs buf: '' @ nm @ [10]) (shown (W s))\<rparr>"
  using gets_args[OF assms(1,2)] assms(3-5) by (auto simp: call_defs)

lemma open_shows:
  assumes "ok s" "cstr (umem U s) p nm" "length nm \<le> 31" "in_page p 32"
  shows "\<exists>t. ece391_open U p s = Some (Inr (fst (w_open nm (W s)), t)) \<and> ok t \<and> umem U t = umem U s \<and> W t = snd (w_open nm (W s))"
  using opens[OF assms] by (cases "w_open nm (W s)") (auto simp: call_defs)

lemma cat_main_shows:
  assumes s: "ok s" "in_page buf 1024" "args (W s) = nm" "nm \<noteq> []" "length nm \<le> 31" "0 \<notin> set nm"
    and fd: "fresh (W s) = Some fd" "entry (W s) nm = Some (Stream bs)"
  shows "\<exists>t. cat_main U lit buf s = Some (Inr (0, t)) \<and> ok t \<and>
    shown (W t) = fold put_bytes (chunks bs) (fold grid_putc (asc ''getargs buf: '' @ nm @ [10]) (shown (W s)))"
proof -
  obtain t where t: "ece391_getargs U buf 1024 s = Some (Inr (0, t))" "ok t" "umem U t = wr_bytes (umem U s) buf (nm @ [0])"
    "W t = (W s)\<lparr>shown := fold grid_putc (asc ''getargs buf: '' @ nm @ [10]) (shown (W s))\<rparr>"
    using getargs_shows[OF s(1-5)] by blast
  have "cstr (umem U t) buf nm" unfolding t(3) using s(5,6) by (intro cstr_wr_bytes) auto
  moreover have "in_page buf 32" using s(2) by (simp add: in_page_def)
  moreover have "w_open nm (W t) = (int fd, (W t)\<lparr>handles := (handles (W t))(fd := Some (Stream bs))\<rparr>)"
    using fd t(4) by (simp add: w_open_def fresh_def)
  ultimately obtain u where u: "ece391_open U buf t = Some (Inr (int fd, u))" "ok u"
    "W u = (W t)\<lparr>handles := (handles (W t))(fd := Some (Stream bs))\<rparr>"
    using open_shows[OF t(2) _ s(5), of buf] by (metis fst_conv snd_conv)
  have "fd < 8" using fresh_range[OF fd(1)] by simp
  moreover have "handles (W u) fd = Some (Stream bs)" using u(3) by simp
  ultimately obtain v where "cat_loop U lit buf (int fd) u = Some (Inr (0, v))" "ok v"
    "shown (W v) = fold put_bytes (chunks bs) (shown (W u))"
    using cat_loop_shows[OF u(2) s(2), of fd bs lit] by auto
  with t(1,4) u(1,3) show ?thesis by (simp add: cat_main_def fbind_def)
qed

lemma says_apart:
  assumes "says U p bs s" "umem U t = wr_bytes (umem U s) buf cs" "length cs \<le> n" "disjnt_rng buf n p (Suc (length bs))"
  shows "says U p bs t"
proof -
  have "\<not> in_rng buf (length cs) a" if "in_rng p (Suc (length bs)) a" for a
    using that assms(3,4) by (auto simp: disjnt_rng_def dest: in_rng_mono)
  then have "cstr (umem U t) p bs = cstr (umem U s) p bs"
    unfolding assms(2) using assms(1) by (intro cstr_cong) (auto simp: wr_bytes_out says_def)
  with assms(1) show ?thesis by (simp add: says_def)
qed

lemma cat_main_missing:
  assumes s: "ok s" "in_page buf 1024" "args (W s) = nm" "nm \<noteq> []" "length nm \<le> 31" "0 \<notin> set nm"
    and no: "entry (W s) nm = None" and msg: "says U (lit (asc ''file not found'' @ [10])) (asc ''file not found'' @ [10]) s"
      "disjnt_rng buf 1024 (lit (asc ''file not found'' @ [10])) 16"
  shows "\<exists>t. cat_main U lit buf s = Some (Inr (2, t)) \<and> ok t \<and>
    shown (W t) = put_bytes (asc ''file not found'' @ [10]) (fold grid_putc (asc ''getargs buf: '' @ nm @ [10]) (shown (W s)))"
proof -
  let ?m = "asc ''file not found'' @ [10]"
  obtain t where t: "ece391_getargs U buf 1024 s = Some (Inr (0, t))" "ok t" "umem U t = wr_bytes (umem U s) buf (nm @ [0])"
    "W t = (W s)\<lparr>shown := fold grid_putc (asc ''getargs buf: '' @ nm @ [10]) (shown (W s))\<rparr>"
    using getargs_shows[OF s(1-5)] by blast
  have "cstr (umem U t) buf nm" unfolding t(3) using s(5,6) by (intro cstr_wr_bytes) auto
  moreover have "in_page buf 32" using s(2) by (simp add: in_page_def)
  moreover have "w_open nm (W t) = (- 1, W t)" using no t(4) by (simp add: w_open_def)
  ultimately obtain u where u: "ece391_open U buf t = Some (Inr (- 1, u))" "ok u" "umem U u = umem U t" "W u = W t"
    using open_shows[OF t(2) _ s(5), of buf] by (metis fst_conv snd_conv)
  have l: "length ?m = 15" by (simp add: asc_def)
  have "says U (lit ?m) ?m t" using s(5) msg(2) l by (intro says_apart[OF msg(1) t(3), of 1024]) auto
  then have "says U (lit ?m) ?m u" using u(3) by (simp add: says_def)
  from puts_return_shows[OF u(2) this, of "2 :: int"] obtain v where "puts_return U (lit ?m) 2 u = Some (Inr (2 :: int, v))" "ok v"
    "W v = (W u)\<lparr>shown := put_bytes ?m (shown (W u))\<rparr>" by blast
  with t(1,4) u(1,4) show ?thesis by (simp add: cat_main_def fbind_def)
qed

lemma ls_main_shows:
  assumes s: "ok s" "in_page buf 33" "cstr (umem U s) (lit (asc ''.'')) (asc ''.'')" "in_page (lit (asc ''.'')) 32"
    and fd: "fresh (W s) = Some fd" "entry (W s) (asc ''.'') = Some Directory"
  shows "\<exists>t. ls_main U lit buf s = Some (Inr (0, t)) \<and> ok t \<and> next_entry (W t) = 0 \<and>
    shown (W t) = fold (\<lambda>nm. put_bytes (nm @ [10])) (drop (next_entry (W s)) (listing (W s))) (shown (W s))"
proof -
  have "w_open (asc ''.'') (W s) = (int fd, (W s)\<lparr>handles := (handles (W s))(fd := Some Directory)\<rparr>)"
    using fd by (simp add: w_open_def)
  then obtain u where u: "ece391_open U (lit (asc ''.'')) s = Some (Inr (int fd, u))" "ok u"
    "W u = (W s)\<lparr>handles := (handles (W s))(fd := Some Directory)\<rparr>"
    using open_shows[OF s(1,3) _ s(4)] by (auto simp: asc_def)
  have "fd < 8" using fresh_range[OF fd(1)] by simp
  moreover have "handles (W u) fd = Some Directory" using u(3) by simp
  ultimately obtain v where "ls_loop U lit buf (int fd) u = Some (Inr (0, v))" "ok v"
    "W v = (W u)\<lparr>next_entry := 0, shown := fold (\<lambda>nm. put_bytes (nm @ [10])) (drop (next_entry (W u)) (listing (W u))) (shown (W u))\<rparr>"
    using ls_loop_shows[OF u(2) s(2)] by blast
  with u(1,3) show ?thesis by (simp add: ls_main_def fbind_def)
qed

text \<open>
  The tests: \<open>passes\<close> says that an effect yields 0 and changes nothing a program can see, \<open>fails\<close> that
  a call is answered with -1 in every state like \<open>s\<close>.
\<close>

definition same_view :: "'s \<Rightarrow> 's \<Rightarrow> bool" where
  "same_view s t \<longleftrightarrow> ok t \<and> umem U t = umem U s \<and> W t = W s"

definition passes :: "('s, int) effect \<Rightarrow> 's \<Rightarrow> bool" where
  "passes e s \<longleftrightarrow> (\<exists>t. e s = Some (Inr (0, t)) \<and> same_view s t)"

definition fails :: "('s, int) effect \<Rightarrow> 's \<Rightarrow> bool" where
  "fails e s \<longleftrightarrow> (\<forall>t. same_view s t \<longrightarrow> (\<exists>u. e t = Some (Inr (- 1, u)) \<and> same_view s u))"

lemma pass_passes: "ok s \<Longrightarrow> passes pass s"
  by (simp add: passes_def pass_def same_view_def)

lemma expect_error_passes: "passes before s \<Longrightarrow> fails call s \<Longrightarrow> passes (expect_error U call msg before) s"
  unfolding passes_def fails_def by (auto simp: expect_error_def fbind_def)

lemma expect_errors_passes:
  "passes before s \<Longrightarrow> (\<And>i. i \<in> set is \<Longrightarrow> fails (call i) s) \<Longrightarrow> passes (expect_errors U call msg is before) s"
  by (induction "is" arbitrary: before) (auto intro: expect_error_passes)

lemma fails_refused: "w_refuses a b c d (W s) \<Longrightarrow> fails (int80 U a b c d) s"
  unfolding fails_def same_view_def using refuses by metis

lemma fails_missing:
  assumes "entry (W s) nm = None" "cstr (umem U s) p nm" "length nm \<le> 31" "in_page p 32"
  shows "fails (ece391_open U p) s"
proof -
  have "\<exists>u. ece391_open U p t = Some (Inr (- 1, u)) \<and> same_view s u" if "same_view s t" for t
    using that open_shows[of t p nm] assms by (auto simp: same_view_def w_open_def)
  then show ?thesis by (simp add: fails_def)
qed

lemma fails_calls:
  "sint (word_of_int fd :: u32) = 1 \<or> no_handle (W s) (sint (word_of_int fd :: u32)) \<Longrightarrow> fails (ece391_read U fd buf n) s"
  "sint (word_of_int fd :: u32) = 0 \<or> no_handle (W s) (sint (word_of_int fd :: u32)) \<Longrightarrow> fails (ece391_write U fd buf n) s"
  "sint (word_of_int fd :: u32) < 2 \<or> no_handle (W s) (sint (word_of_int fd :: u32)) \<Longrightarrow> fails (ece391_close U fd) s"
  "p < 0x8048000 \<Longrightarrow> fails (ece391_vidmap U p) s"
  "word_of_int k = (0 :: u32) \<or> word_of_int k > (10 :: u32) \<Longrightarrow> fails (call_sys U k) s"
  unfolding ece391_read_def[abs_def] ece391_write_def[abs_def] ece391_close_def[abs_def] ece391_vidmap_def[abs_def] call_sys_def[abs_def] DO_CALL_def[abs_def]
  by (rule fails_refused; force simp: w_refuses_def)+

text \<open>A test that passes prints its line and leaves everything else.\<close>

definition test_ok :: "('s, int) effect \<Rightarrow> bytes \<Rightarrow> 's \<Rightarrow> bool" where
  "test_ok e msg s \<longleftrightarrow> (\<exists>t. e s = Some (Inr (0, t)) \<and> ok t \<and> umem U t = umem U s \<and>
    W t = (W s)\<lparr>shown := put_bytes msg (shown (W s))\<rparr>)"

lemma report_ok:
  assumes "passes body s" "says U (lit (pass_message test)) (pass_message test) s"
  shows "test_ok (report U lit test body) (pass_message test) s"
proof -
  obtain t where t: "body s = Some (Inr (0, t))" "ok t" "umem U t = umem U s" "W t = W s"
    using assms(1) by (auto simp: passes_def same_view_def)
  then have "says U (lit (pass_message test)) (pass_message test) t" using assms(2) by (simp add: says_def)
  from puts_return_shows[OF t(2) this, of "0 :: int"] t show ?thesis
    by (auto simp: test_ok_def report_def fbind_def pass_message_def)
qed

lemma err_fd_passes:
  assumes "ok s" "fd < 0 \<or> fd > 7" "sint (word_of_int fd :: u32) = fd"
  shows "passes (err_fd U lit buf fd) s"
  unfolding err_fd_def
  by (intro expect_error_passes pass_passes assms(1) fails_calls) (use assms in \<open>auto simp: no_handle_def\<close>)

lemma open_lots_fills:
  assumes "entry w (asc ''.'') = Some Directory" "\<forall>j. 2 \<le> j \<and> j < 8 \<longrightarrow> handles w j = None"
    and "cstr (umem U s) p (asc ''.'')" "in_page p 32"
  defines "w_after k \<equiv> w\<lparr>handles := \<lambda>j. if 2 \<le> j \<and> j < 2 + k then Some Directory else handles w j\<rparr>"
  shows "ok s \<Longrightarrow> W s = w_after k \<Longrightarrow> k \<le> 6 \<Longrightarrow>
    \<exists>t. open_lots U p n cnt s = Some (Inr (cnt + (if n + k > 6 then int (n + k) - 6 else 0), t)) \<and>
      ok t \<and> umem U t = umem U s \<and> W t = w_after (min 6 (n + k))"
  using assms(3)
proof (induction n arbitrary: s k cnt)
  case (Suc n)
  have k: "k = 0 \<or> k = 1 \<or> k = 2 \<or> k = 3 \<or> k = 4 \<or> k = 5 \<or> k = 6" using Suc(4) by auto
  have upd: "(handles (w_after k))(2 + k := Some Directory) = handles (w_after (k + 1))"
    by (auto simp: w_after_def fun_eq_iff)
  have f: "fresh (w_after k) = (if k < 6 then Some (2 + k) else None)"
    using k assms(2) by (auto simp: fresh_def w_after_def upt_conv_Cons)
  have o: "w_open (asc ''.'') (w_after k) = (if k < 6 then (int (2 + k), w_after (k + 1)) else (- 1, w_after k))"
    using assms(1) f upd by (auto simp: w_open_def w_after_def)
  obtain t where t: "ece391_open U p s = Some (Inr (fst (w_open (asc ''.'') (W s)), t))" "ok t" "umem U t = umem U s"
    "W t = snd (w_open (asc ''.'') (W s))"
    using open_shows[OF Suc(2,5) _ assms(4)] by (auto simp: asc_def)
  show ?case
  proof (cases "k < 6")
    case True
    from Suc(1)[of t "k + 1" cnt] True t o Suc(3,5) obtain u where
      "open_lots U p n cnt t = Some (Inr (cnt + (if n + (k + 1) > 6 then int (n + (k + 1)) - 6 else 0), u))" "ok u"
      "umem U u = umem U t" "W u = w_after (min 6 (n + (k + 1)))" by auto
    with True t o Suc(3) show ?thesis by (auto simp: fbind_def)
  next
    case False
    then have k: "k = 6" using Suc(4) by simp
    from Suc(1)[of t 6 "cnt + 1"] k t o Suc(3,5) obtain u where
      "open_lots U p n (cnt + 1) t = Some (Inr (cnt + 1 + (if n > 0 then int n else 0), u))" "ok u"
      "umem U u = umem U t" "W u = w_after 6" by auto
    with k t o Suc(3) show ?thesis by (auto simp: fbind_def)
  qed
qed (auto simp: min_def)

lemma close_all_closes:
  "ok s \<Longrightarrow> distinct is \<Longrightarrow> (\<And>i. i \<in> set is \<Longrightarrow> 2 \<le> i \<and> i < 8 \<and> handles (W s) i \<noteq> None) \<Longrightarrow>
    \<exists>t. close_all U (map int is) s = Some (Inr t) \<and> ok t \<and> umem U t = umem U s \<and>
      W t = (W s)\<lparr>handles := \<lambda>j. if j \<in> set is then None else handles (W s) j\<rparr>"
proof (induction "is" arbitrary: s)
  case (Cons i "is")
  obtain t where t: "int80 U 6 (of_nat i) 0 0 s = Some (Inr (0, t))" "ok t" "umem U t = umem U s"
    "W t = (W s)\<lparr>handles := (handles (W s))(i := None)\<rparr>"
    using closes[OF Cons(2), of i] Cons(4)[of i] by auto
  have "2 \<le> k \<and> k < 8 \<and> handles (W t) k \<noteq> None" if "k \<in> set is" for k
    using Cons(3,4) that t(4) by auto
  from Cons(1)[OF t(2) _ this] Cons(3) obtain u where u: "close_all U (map int is) t = Some (Inr u)" "ok u"
    "umem U u = umem U t" "W u = (W t)\<lparr>handles := \<lambda>j. if j \<in> set is then None else handles (W t) j\<rparr>" by auto
  have "(\<lambda>j. if j \<in> set is then None else handles (W t) j) = (\<lambda>j. if j \<in> set (i # is) then None else handles (W s) j)"
    using t(4) by (auto simp: fun_eq_iff)
  with t u show ?case by (simp add: call_defs)
qed simp

lemma err_open_lots_ok:
  assumes "ok s" "syserr_ready U lit (W s) s"
  shows "test_ok (err_open_lots U lit) (pass_message ''err_open_lots'') s"
proof -
  let ?w = "W s" and ?m = "pass_message ''err_open_lots''"
  let ?full = "?w\<lparr>handles := \<lambda>j. if 2 \<le> j \<and> j < 8 then Some Directory else handles ?w j\<rparr>"
  note r = assms(2)[unfolded syserr_ready_def]
  have none: "\<forall>j. 2 \<le> j \<and> j < 8 \<longrightarrow> handles ?w j = None" and dot: "entry ?w (asc ''.'') = Some Directory"
    "cstr (umem U s) (lit (asc ''.'')) (asc ''.'')" "in_page (lit (asc ''.'')) 32" and msg: "says U (lit ?m) ?m s"
    using r by (simp_all add: syserr_names_def)
  have "?w = ?w\<lparr>handles := \<lambda>j. if 2 \<le> j \<and> j < 2 + 0 then Some Directory else handles ?w j\<rparr>"
    by (intro world.equality) (auto simp: fun_eq_iff)
  with open_lots_fills[OF dot(1) none dot(2,3) assms(1), of 0 7 0] obtain t where
    t: "open_lots U (lit (asc ''.'')) 7 0 s = Some (Inr (1, t))" "ok t" "umem U t = umem U s" "W t = ?full"
    by auto
  have h: "2 \<le> i \<and> i < 8 \<and> handles (W t) i \<noteq> None" if "i \<in> set [2, 3, 4, 5, 6, 7]" for i
    using that t(4) by auto
  have "distinct [2, 3, 4, 5, 6, 7 :: nat]" by simp
  from close_all_closes[OF t(2) this h] obtain u where
    u: "close_all U [2, 3, 4, 5, 6, 7] t = Some (Inr u)" "ok u" "umem U u = umem U t"
      "W u = (W t)\<lparr>handles := \<lambda>j. if j \<in> set [2, 3, 4, 5, 6, 7] then None else handles (W t) j\<rparr>" by auto
  have "W u = ?w"
    using none by (intro world.equality) (auto simp: u(4) t(4) fun_eq_iff)
  moreover have "says U (lit ?m) ?m u" using msg t(3) u(3) by (simp add: says_def)
  ultimately show ?thesis
    using puts_return_shows[OF u(2), of "lit ?m" ?m "0 :: int"] t u
    by (auto simp: test_ok_def err_open_lots_def fbind_def pass_message_def simp del: close_all.simps)
qed

lemma syserr_each_ok:
  assumes "ok s" "syserr_ready U lit (W s) s" "i < 8"
  shows "test_ok (syserr_tests U lit locals ! i) (pass_message (syserr_names ! i)) s"
proof -
  note r = assms(2)[unfolded syserr_ready_def]
  have says: "says U (lit (pass_message n)) (pass_message n) s" if "n \<in> set syserr_names" for n
    using r that by simp
  have closed: "no_handle (W s) (sint (word_of_int j :: u32))" if "j \<in> set [2, 3, 4, 5, 6, 7]" for j
    using r that by (auto simp: no_handle_def)
  have low: "sint (word_of_int j :: u32) < 2 \<or> no_handle (W s) (sint (word_of_int j :: u32))" if "j \<in> set [0, 1, 2, 3, 4, 5, 6, 7]" for j
  proof (cases "j \<in> set [2, 3, 4, 5, 6, 7]")
    case True
    with closed show ?thesis by blast
  qed (use that in auto)
  have closed_calls: "fails (ece391_read U j b 31) s" "fails (ece391_write U j b 31) s" if "j \<in> set [2, 3, 4, 5, 6, 7]" for j b
    using closed[OF that] fails_calls(1,2) by blast+
  have closed_close: "fails (ece391_close U j) s" if "j \<in> set [0, 1, 2, 3, 4, 5, 6, 7]" for j
    using low[OF that] fails_calls(3) by blast
  have missing: "fails (ece391_open U (lit n)) s" if "n \<in> {asc ''helloo'', asc ''shel'', []}" for n
    using r that by (intro fails_missing[of s n]) (auto simp: asc_def)
  note tests = report_ok expect_error_passes expect_errors_passes pass_passes[OF assms(1)] err_fd_passes[OF assms(1)] fails_calls
  have "test_ok (err_neg_fd U lit b) (pass_message ''err_neg_fd'') s" for b
    unfolding err_neg_fd_def by (intro tests says) (simp_all add: syserr_names_def)
  moreover have "test_ok (err_big_fd U lit b) (pass_message ''err_big_fd'') s" for b
    unfolding err_big_fd_def by (intro tests says) (simp_all add: syserr_names_def)
  moreover have "test_ok (err_open U lit) (pass_message ''err_open'') s"
    unfolding err_open_def by (intro tests says missing) (simp_all add: syserr_names_def)
  moreover have "test_ok (err_unopened U lit b) (pass_message ''err_unopened'') s" for b
    unfolding err_unopened_def
    by (intro report_ok expect_errors_passes pass_passes[OF assms(1)] says closed_calls closed_close; (assumption | simp add: syserr_names_def))
  moreover have "test_ok (err_vidmap U lit) (pass_message ''err_vidmap'') s"
    unfolding err_vidmap_def by (intro tests says) (simp_all add: syserr_names_def)
  moreover have "test_ok (err_stdin_out U lit b) (pass_message ''err_stdin_out'') s" for b
    unfolding err_stdin_out_def by (intro tests says) (simp_all add: syserr_names_def)
  moreover have "test_ok (err_syscall_num U lit) (pass_message ''err_syscall_num'') s"
    unfolding err_syscall_num_def by (intro tests says) (simp_all add: syserr_names_def)
  moreover have "i \<in> set [0, 1, 2, 3, 4, 5, 6, 7]" using assms(3) by auto
  ultimately show ?thesis
    using err_open_lots_ok[OF assms(1,2)] by (auto simp: syserr_tests_def syserr_names_def)
qed

lemma run_tests_ok:
  assumes "\<And>s. ok s \<Longrightarrow> P s \<Longrightarrow> \<forall>i < length es. test_ok (es ! i) (ms ! i) s" "length ms = length es"
    and "\<And>s t d. P s \<Longrightarrow> umem U t = umem U s \<Longrightarrow> W t = (W s)\<lparr>shown := d\<rparr> \<Longrightarrow> P t"
  shows "ok s \<Longrightarrow> P s \<Longrightarrow> \<exists>t. run_tests es 0 s = Some (Inr (0, t)) \<and> ok t \<and> umem U t = umem U s \<and>
    W t = (W s)\<lparr>shown := fold put_bytes ms (shown (W s))\<rparr>"
  using assms(1,2)
proof (induction es arbitrary: ms s)
  case (Cons e es)
  then obtain m ms' where ms: "ms = m # ms'" by (cases ms) auto
  have "test_ok e m s" using Cons(4)[OF Cons(2,3)] ms by auto
  then obtain t where t: "e s = Some (Inr (0, t))" "ok t" "umem U t = umem U s" "W t = (W s)\<lparr>shown := put_bytes m (shown (W s))\<rparr>"
    by (auto simp: test_ok_def)
  have "\<forall>i < length es. test_ok (es ! i) (ms' ! i) s" if "ok s" "P s" for s
    using Cons(4)[OF that] ms by auto
  from Cons(1)[OF t(2) assms(3)[OF Cons(3) t(3,4)] this] Cons(5) ms t show ?case by (auto simp: fbind_def)
qed (auto intro: world.equality)

lemma syserr_passes:
  assumes "ok s" "syserr_ready U lit (W s) s"
  shows "\<exists>t. syserr_select U lit locals 0 s = Some (Inr (0, t)) \<and> ok t \<and>
    W t = (W s)\<lparr>shown := fold put_bytes (map pass_message syserr_names @ [pass_overall]) (shown (W s))\<rparr>"
proof -
  let ?P = "\<lambda>s. syserr_ready U lit (W s) s"
  have len: "length (syserr_tests U lit locals) = 8" "length syserr_names = 8" by (simp_all add: syserr_tests_def syserr_names_def)
  have "\<forall>i < length (syserr_tests U lit locals). test_ok (syserr_tests U lit locals ! i) (map pass_message syserr_names ! i) t"
    if "ok t" "?P t" for t
    using syserr_each_ok[OF that] by (simp add: len)
  moreover have keep: "?P t" if "?P s" "umem U t = umem U s" "W t = (W s)\<lparr>shown := d\<rparr>" for s t d
    using that by (simp add: syserr_ready_def says_def)
  ultimately obtain t where t: "run_tests (syserr_tests U lit locals) 0 s = Some (Inr (0, t))" "ok t" "umem U t = umem U s"
    "W t = (W s)\<lparr>shown := fold put_bytes (map pass_message syserr_names) (shown (W s))\<rparr>"
    using run_tests_ok[of ?P "syserr_tests U lit locals" "map pass_message syserr_names", OF _ _ _ assms] len by auto
  have "says U (lit pass_overall) pass_overall t" using keep[OF assms(2) t(3,4)] by (simp add: syserr_ready_def)
  from puts_return_shows[OF t(2) this, of "0 :: int"] t show ?thesis
    by (auto simp: syserr_select_def fbind_def pass_overall_def)
qed

end

end
