(* ===== verification/User_Run.thy ===== *)
theory User_Run
  imports User_Prog
begin

text \<open>
  Programs on the kernel: the interface \<open>user_if\<close> of a process, with \<open>sys_call\<close> behind the gate and
  its page of memory as the address space, satisfies the laws of \<open>program_calls\<close>. So what the
  programs do according to the world of files and screen, they do on the kernel of this
  development, down to the bytes of the video memory.
\<close>

section \<open>The instance\<close>

definition phys :: "'a kernel_scheme \<Rightarrow> ptr \<Rightarrow> ptr" where
  "phys s v = user_frame (cur_pid s) + (v - 0x8000000)"

definition user_view :: "'a kernel_scheme \<Rightarrow> mem" where
  "user_view s v = (if in_page v 1 then mem s (phys s v) else 0)"

definition user_store :: "mem \<Rightarrow> 'a kernel_scheme \<Rightarrow> 'a kernel_scheme" where
  "user_store m s = s\<lparr>mem := \<lambda>p. if in_rng (user_frame (cur_pid s)) 0x400000 p
     then m (0x8000000 + (p - user_frame (cur_pid s))) else mem s p\<rparr>"

text \<open>Interrupt 0x80 as a program experiences it: when another process is resumed or entered, it does not come back.\<close>

definition gate :: "sys_env \<Rightarrow> u32 \<Rightarrow> u32 \<Rightarrow> u32 \<Rightarrow> u32 \<Rightarrow> 'a kernel_scheme \<Rightarrow> (fault + int \<times> 'a kernel_scheme) option" where
  "gate env a b c d s =
    Option.bind (sys_call env a b c d s) (\<lambda>r. case r of
        Inl f \<Rightarrow> Some (Inl f)
      | Inr (Returned v, t) \<Rightarrow> Some (Inr (v, t))
      | Inr _ \<Rightarrow> None)"

definition kernel_if :: "sys_env \<Rightarrow> 'a kernel_scheme user_if" where
  "kernel_if env = \<lparr>int80 = gate env, umem = user_view, set_umem = user_store\<rparr>"

lemma kernel_if_simps [simp]:
  "int80 (kernel_if env) = gate env" "umem (kernel_if env) = user_view" "set_umem (kernel_if env) = user_store"
  by (simp_all add: kernel_if_def)

section \<open>The world of a process\<close>

definition handle_of :: "'a kernel_scheme \<Rightarrow> (ptr \<times> u32 \<times> u32) option \<Rightarrow> handle option" where
  "handle_of s v = (case v of None \<Rightarrow> None | Some (fops, i, pos) \<Rightarrow>
     Some (if fops = terminal_funcs s then Console_File else if fops = rtc_funcs s then Clock_File
       else if fops = fsys_funcs s then Stream (drop (unat pos) (file_contents i s)) else Directory))"

definition entry_of :: "'a kernel_scheme \<Rightarrow> bytes \<Rightarrow> handle option" where
  "entry_of s nm = (case lookup_name nm s of None \<Rightarrow> None | Some d \<Rightarrow>
     if file_type d = 0 then Some Clock_File else if file_type d = 1 then Some Directory
     else if file_type d = 2 then Some (Stream (file_contents (inode_index d) s)) else None)"

abbreviation cur_pcb :: "'a kernel_scheme \<Rightarrow> ptr" where
  "cur_pcb s \<equiv> find_PCB (cur_pid s)"

definition world_of :: "'a kernel_scheme \<Rightarrow> world" where
  "world_of s = \<lparr>shown = display s,
     handles = \<lambda>j. if j < 8 then handle_of s (fd_view (cur_pcb s) j s) else None,
     entry = entry_of s,
     listing = map name (take (unat (dentry_count (boot_block s))) (dentries (boot_block s))),
     next_entry = unat (dr_index s),
     args = takeWhile (\<lambda>c. c \<noteq> 0) (rd_bytes (mem s) (cur_pcb s + 384) 128)\<rparr>"

text \<open>
  The states in which a program runs: its page is mapped, the cursor is on the screen, the local
  variables of the kernel, the file system and the control block do not overlap, and the descriptors refer to
  files of a well-formed file system.
\<close>

definition user_layout :: "sys_env \<Rightarrow> 'a kernel_scheme \<Rightarrow> bool" where
  "user_layout env s \<longleftrightarrow>
    (\<forall>a. in_rng (video_mem s) 4352 a \<longrightarrow> unat a < 0x400000) \<and> write_buffer env \<noteq> NULL \<and>
    (\<forall>a. in_rng (write_buffer env) 1024 a \<or> in_rng (conv_buf (env_loc env)) 64 a \<longrightarrow>
      0x400000 \<le> unat a \<and> unat a < 0x800000 \<and> \<not> in_image s a \<and> \<not> in_rng (cur_pcb s) 528 a) \<and>
    (\<forall>a. in_image s a \<longrightarrow> 0x400000 \<le> unat a \<and> unat a < 0x800000 \<and> \<not> in_rng (cur_pcb s) 8192 a)"

definition files_ok :: "'a kernel_scheme \<Rightarrow> bool" where
  "files_ok s \<longleftrightarrow> fs_wf s \<and> unat (inode_count (boot_block s)) \<le> 63 \<and> unat (dentry_count (boot_block s)) \<le> 63 \<and>
    (\<forall>nm d. lookup_name nm s = Some d \<and> file_type d = 2 \<longrightarrow> inode_wf (inode_index d) s) \<and>
    distinct [terminal_funcs s, rtc_funcs s, fsys_funcs s, dir_funcs s]"

definition fd_ok :: "'a kernel_scheme \<Rightarrow> (ptr \<times> u32 \<times> u32) option \<Rightarrow> bool" where
  "fd_ok s v \<longleftrightarrow> (case v of None \<Rightarrow> True | Some (fops, i, pos) \<Rightarrow>
     fops \<in> {terminal_funcs s, rtc_funcs s, fsys_funcs s, dir_funcs s} \<and>
     (fops = fsys_funcs s \<longrightarrow> inode_wf i s \<and> unat pos \<le> length (file_contents i s)))"

definition fds_ok :: "'a kernel_scheme \<Rightarrow> bool" where
  "fds_ok s \<longleftrightarrow> (\<forall>j < 2. \<exists>i pos. fd_view (cur_pcb s) j s = Some (terminal_funcs s, i, pos)) \<and>
    (\<forall>j < 8. fd_ok s (fd_view (cur_pcb s) j s))"

definition user_ok :: "sys_env \<Rightarrow> 'a kernel_scheme \<Rightarrow> bool" where
  "user_ok env s \<longleftrightarrow> proc_runs s \<and> own_frame (cur_pid s) s \<and> on_screen s \<and> get_key_index s < 128 \<and>
    user_layout env s \<and> files_ok s \<and> fds_ok s \<and>
    (\<exists>str. cstr (mem s) (cur_pcb s + 384) str \<and> length str < 128)"

section \<open>Steps that keep a process running\<close>

definition only_fields :: "'a kernel_scheme \<Rightarrow> 'a kernel_scheme \<Rightarrow> bool" where
  "only_fields s t \<longleftrightarrow> (\<exists>m tr f x y d. t = s\<lparr>mem := m, io_trace := tr, if_flag := f,
     screen_x := x, screen_y := y, dr_index := d\<rparr>)"

lemma only_fieldsD:
  assumes "only_fields s t"
  shows "cur_pid t = cur_pid s" "running_terminal t = running_terminal s" "page_dir t = page_dir s" "page_table t = page_table s"
    "page_table_addr t = page_table_addr s" "video_mem t = video_mem s" "get_key_index t = get_key_index s"
    "boot_block t = boot_block s" "filesys_addr t = filesys_addr s" "terminal_funcs t = terminal_funcs s"
    "rtc_funcs t = rtc_funcs s" "fsys_funcs t = fsys_funcs s" "dir_funcs t = dir_funcs s"
  using assms by (auto simp: only_fields_def cur_pid_def get_key_index_def)

lemma only_fields_trans: "only_fields s t \<Longrightarrow> only_fields t u \<Longrightarrow> only_fields s u"
  unfolding only_fields_def by fastforce

definition scratch :: "sys_env \<Rightarrow> 'a kernel_scheme \<Rightarrow> ptr \<Rightarrow> bool" where
  "scratch env s a \<longleftrightarrow> in_rng (video_mem s) 4352 a \<or> in_rng (write_buffer env) 1024 a \<or>
    in_rng (conv_buf (env_loc env)) 64 a \<or> 0x800000 \<le> unat a"

lemma pcb_range:
  assumes "proc_runs s" "in_rng (cur_pcb s) 8192 a"
  shows "0x7F4000 \<le> unat a \<and> unat a < 0x800000"
proof -
  have "0 \<le> cur_pid s" "cur_pid s < 6" using assms(1) by (simp_all add: proc_runs_def)
  with assms(2) unat_find_PCB[of "cur_pid s"] show ?thesis by (auto simp: in_rng_unat nat_less_iff)
qed

lemma scratch_apart:
  assumes "user_ok env s" "scratch env s a"
  shows "\<not> in_image s a" "\<not> in_rng (cur_pcb s) 528 a"
proof -
  have l: "user_layout env s" and r: "proc_runs s" using assms(1) by (simp_all add: user_ok_def)
  have "in_rng (cur_pcb s) 528 a \<Longrightarrow> 0x7F4000 \<le> unat a \<and> unat a < 0x800000"
    using pcb_range[OF r] in_rng_mono[of _ 528 a 8192] by auto
  with assms(2) l show "\<not> in_image s a" "\<not> in_rng (cur_pcb s) 528 a"
    unfolding scratch_def user_layout_def by force+
qed

text \<open>
  The general step: besides scratch memory only descriptor \<open>fd\<close> changes, to \<open>v\<close>.
\<close>

lemma fd_step:
  assumes ok: "user_ok env s" and f: "only_fields s t" and scr: "on_screen t"
    and m: "\<And>a. \<not> scratch env s a \<Longrightarrow> \<not> in_rng (cur_pcb s) 384 a \<Longrightarrow> mem t a = mem s a"
    and v: "\<And>j. j < 8 \<Longrightarrow> fd_view (cur_pcb s) j t = (if j = fd then v else fd_view (cur_pcb s) j s)"
    and fd: "2 \<le> fd" "fd < 8" "fd_ok s v"
  shows "user_ok env t" "world_of t = (world_of s)\<lparr>shown := display t,
    handles := (handles (world_of s))(fd := handle_of s v), next_entry := unat (dr_index t)\<rparr>"
proof -
  note F = only_fieldsD[OF f]
  have o: "proc_runs s" "own_frame (cur_pid s) s" "user_layout env s" "files_ok s" "fds_ok s" "get_key_index s < 128"
    using ok by (simp_all add: user_ok_def)
  have low: "low_mapped s" using o(1) by (simp add: proc_runs_def kernel_mapped_def)
  note w = walk_cong[OF low F(3-5)]
  have img: "in_image t = in_image s" using F(8,9) by (simp add: in_image_def image_size_def fun_eq_iff)
  have mi: "mem t a = mem s a" if "in_image s a" for a
  proof (rule m)
    show "\<not> scratch env s a" using scratch_apart(1)[OF ok] that by blast
    show "\<not> in_rng (cur_pcb s) 384 a" using o(3) that in_rng_mono[of _ 384 a 8192] by (auto simp: user_layout_def)
  qed
  have same: "same_fs s t" using F mi by (simp add: same_fs_def)
  have fs: "fs_wf s" using o(4) by (simp add: files_ok_def)
  note c = same_fs_contents[OF same fs]
  have lk: "lookup_name nm t = lookup_name nm s" for nm using F(8) by (simp add: lookup_name_def)
  have fd_same: "fd_ok t x" "handle_of t x = handle_of s x" if "fd_ok s x" for x
    using that c F by (auto simp: fd_ok_def handle_of_def split: option.splits)
  have fdo: "fd_ok s (if j = fd then v else fd_view (cur_pcb s) j s)" if "j < 8" for j
    using that fd(3) o(5) by (simp add: fds_ok_def)
  have args: "mem t a = mem s a" if "in_rng (cur_pcb s + 384) 128 a" for a
  proof (rule m)
    have 1: "in_rng (cur_pcb s) 528 a" using that by (intro in_rng_offset[of "cur_pcb s" 384 128]) simp_all
    then show "\<not> scratch env s a" using scratch_apart(2)[OF ok] by blast
    have "disjnt_rng (cur_pcb s + of_nat 0) 384 (cur_pcb s + of_nat 384) 128" by (rule disjnt_rng_offsets) simp_all
    then show "\<not> in_rng (cur_pcb s) 384 a" using that by (auto dest: disjnt_rngD2)
  qed
  obtain str where str: "cstr (mem s) (cur_pcb s + 384) str" "length str < 128" using ok by (auto simp: user_ok_def)
  have "cstr (mem t) (cur_pcb s + 384) str"
    using str cstr_cong[of "cur_pcb s + 384" str "mem t" "mem s"] args in_rng_mono[of "cur_pcb s + 384" "Suc (length str)" _ 128] by auto
  moreover have "proc_runs t" using o(1) w(3) F by (simp add: proc_runs_def)
  moreover have "own_frame (cur_pid t) t" using o(2) F(1) w(1) by (simp add: own_frame_def)
  moreover have "user_layout env t" using o(3) F(1,6) img by (simp add: user_layout_def)
  moreover have "files_ok t" using o(4) c F lk by (auto simp: files_ok_def fs_wf_def image_size_def)
  moreover have "fds_ok t"
    using o(5) fd(1) v fd_same(1)[OF fdo] F unfolding fds_ok_def by auto
  ultimately show "user_ok env t" using scr F str(2) o(6) unfolding user_ok_def by auto
  have "entry_of t = entry_of s"
    using o(4) c lk by (auto simp: entry_of_def files_ok_def fun_eq_iff split: option.splits)
  moreover have "rd_bytes (mem t) (cur_pcb s + 384) 128 = rd_bytes (mem s) (cur_pcb s + 384) 128"
    using args by (intro rd_bytes_cong) simp_all
  moreover have "(\<lambda>j. if j < 8 then handle_of t (fd_view (cur_pcb s) j t) else None) = (handles (world_of s))(fd := handle_of s v)"
    using v fd_same(2)[OF fd(3)] fd_same(2) o(5) fd(2) by (auto simp: world_of_def fun_eq_iff fds_ok_def)
  ultimately show "world_of t = (world_of s)\<lparr>shown := display t,
    handles := (handles (world_of s))(fd := handle_of s v), next_entry := unat (dr_index t)\<rparr>"
    using F(1,8) by (simp add: world_of_def cong: if_cong)
qed

lemma fd_view_mem:
  assumes "\<And>a. in_rng pcb 384 a \<Longrightarrow> mem t a = mem s a" "j < 8"
  shows "fd_view pcb j t = fd_view pcb j s"
proof -
  have "ld_field pcb (fd_off j k) t = ld_field pcb (fd_off j k) s" if "k \<le> 12" for k
    using assms that
    by (intro ld_field_cong assms(1) in_rng_offset[of pcb "fd_off j k" 4 _ 384]) (auto simp: fd_off_def)
  then show ?thesis by (simp add: fd_view_def)
qed

lemma quiet_step:
  assumes ok: "user_ok env s" and f: "only_fields s t" and scr: "on_screen t"
    and m: "\<And>a. \<not> scratch env s a \<Longrightarrow> mem t a = mem s a"
  shows "user_ok env t" "world_of t = (world_of s)\<lparr>shown := display t, next_entry := unat (dr_index t)\<rparr>"
proof -
  let ?v = "fd_view (cur_pcb s) 2 s"
  have v: "fd_view (cur_pcb s) j t = (if j = 2 then ?v else fd_view (cur_pcb s) j s)" if "j < 8" for j
  proof -
    have "fd_view (cur_pcb s) j t = fd_view (cur_pcb s) j s"
      using m scratch_apart(2)[OF ok] in_rng_mono[of "cur_pcb s" 384 _ 528] that by (intro fd_view_mem) auto
    then show ?thesis by simp
  qed
  have "fd_ok s ?v" using ok by (simp add: user_ok_def fds_ok_def)
  note st = fd_step[OF ok f scr m v _ _ this]
  show "user_ok env t" by (rule st(1)) simp_all
  have "world_of t = (world_of s)\<lparr>shown := display t,
      handles := (handles (world_of s))(2 := handle_of s ?v), next_entry := unat (dr_index t)\<rparr>" by (rule st(2)) simp_all
  moreover have "(handles (world_of s))(2 := handle_of s ?v) = handles (world_of s)" by (auto simp: world_of_def fun_eq_iff)
  ultimately show "world_of t = (world_of s)\<lparr>shown := display t, next_entry := unat (dr_index t)\<rparr>"
    by (simp add: world_of_def)
qed

section \<open>Addresses of programs\<close>

lemma page_addr:
  assumes "user_ok env s" "in_page buf n" "0 < n"
  shows "lin buf s = Inr (phys s buf)" "buf \<noteq> NULL" "phys s buf \<noteq> NULL"
    and "in_rng (phys s buf) n a \<Longrightarrow> 0x800000 \<le> unat a"
    and "in_rng (user_frame (cur_pid s)) 0x400000 (phys s buf)"
proof -
  let ?q = "buf - 0x8000000" and ?f = "user_frame (cur_pid s)"
  have r: "0 \<le> cur_pid s" "cur_pid s < 6" "own_frame (cur_pid s) s" using assms(1) by (simp_all add: user_ok_def proc_runs_def)
  have b: "0x8000000 \<le> unat buf" "unat buf + n \<le> 0x8400000" using assms(2) by (simp_all add: in_page_def)
  have q: "unat ?q = unat buf - 0x8000000" using b(1) by (subst unat_sub) (simp_all add: word_le_nat_alt)
  have qn: "unat ?q + n \<le> 0x400000" "?q < 0x400000" using q b assms(3) by (simp_all add: word_less_nat_alt)
  have f: "unat ?f = 0x800000 + 0x400000 * nat (cur_pid s)" using user_frame_facts(3)[OF r(1,2)] .
  have "nat (cur_pid s) < 6" using r by simp
  then have p: "unat (phys s buf) = unat ?f + unat ?q" "unat (phys s buf) + n \<le> 4294967296"
    using f qn by (simp_all add: phys_def unat_word_ariths)
  show "buf \<noteq> NULL" using b(1) by auto
  moreover have "walk s (0x8000000 + ?q) = Some (?f + ?q, True, True)" using r(3) qn(2) unfolding own_frame_def by blast
  ultimately show "lin buf s = Inr (phys s buf)" by (simp add: lin_def deref_def phys_def)
  show "phys s buf \<noteq> NULL" using p(1) f by auto
  show "0x800000 \<le> unat a" if "in_rng (phys s buf) n a" using that p f by (simp add: in_rng_unat)
  show "in_rng ?f 0x400000 (phys s buf)" using qn(2) by (simp add: in_rng_def phys_def word_less_nat_alt)
qed

lemma page_byte: "in_page buf n \<Longrightarrow> i < n \<Longrightarrow> in_page (buf + of_nat i) 1"
proof -
  assume "in_page buf n" "i < n"
  moreover then have "unat (buf + of_nat i) = unat buf + i" by (simp add: in_page_def unat_word_ariths)
  ultimately show ?thesis by (simp add: in_page_def)
qed

lemma phys_add: "phys s (buf + k) = phys s buf + k"
  by (simp add: phys_def)

lemma view_rd: "in_page buf n \<Longrightarrow> rd_bytes (user_view s) buf n = rd_bytes (mem s) (phys s buf) n"
  using page_byte[of buf n] by (intro nth_equalityI) (simp_all add: user_view_def phys_add)

lemma view_cstr:
  assumes "in_page p n" "length str < n"
  shows "cstr (user_view s) p str \<longleftrightarrow> cstr (mem s) (phys s p) str"
proof -
  have "in_page p (length str)" using assms by (simp add: in_page_def)
  then show ?thesis
    using view_rd[of p "length str" s] page_byte[OF assms] by (simp add: cstr_iff user_view_def phys_add)
qed

lemma view_same:
  assumes "user_ok env s" "cur_pid t = cur_pid s" "\<And>a. 0x800000 \<le> unat a \<Longrightarrow> mem t a = mem s a"
  shows "user_view t = user_view s"
proof
  fix v
  show "user_view t v = user_view s v"
  proof (cases "in_page v 1")
    case True
    then have "in_rng (phys s v) 1 (phys s v)" by (simp add: in_rng_def)
    then have "0x800000 \<le> unat (phys s v)" using page_addr(4)[OF assms(1) True] by simp
    with assms(2,3) True show ?thesis by (simp add: user_view_def phys_def)
  qed (simp add: user_view_def)
qed

lemma view_wr:
  assumes "user_ok env s" "cur_pid t = cur_pid s" "in_page buf (length bs)"
    and "\<And>a. 0x800000 \<le> unat a \<Longrightarrow> mem t a = wr_bytes (mem s) (phys s buf) bs a"
  shows "user_view t = wr_bytes (user_view s) buf bs"
proof -
  have "user_view t = user_view (s\<lparr>mem := wr_bytes (mem s) (phys s buf) bs\<rparr>)"
  proof
    fix v
    show "user_view t v = user_view (s\<lparr>mem := wr_bytes (mem s) (phys s buf) bs\<rparr>) v"
    proof (cases "in_page v 1")
      case True
      then have "in_rng (phys s v) 1 (phys s v)" by (simp add: in_rng_def)
      then have "0x800000 \<le> unat (phys s v)" using page_addr(4)[OF assms(1) True] by simp
      with assms(2,4) True show ?thesis by (simp add: user_view_def phys_def)
    qed (simp add: user_view_def)
  qed
  also have "\<dots> = wr_bytes (user_view s) buf bs"
  proof
    fix v
    have d: "phys s v - phys s buf = v - buf" by (simp add: phys_def)
    have "in_page v 1" if "unat (v - buf) < length bs"
      using page_byte[OF assms(3) that] by simp
    with d show "user_view (s\<lparr>mem := wr_bytes (mem s) (phys s buf) bs\<rparr>) v = wr_bytes (user_view s) buf bs v"
      by (auto simp: user_view_def wr_bytes_def phys_def)
  qed
  finally show ?thesis .
qed

section \<open>The calls\<close>

lemma sti_step:
  assumes "user_ok env s"
  shows "user_ok env (sti s)" "world_of (sti s) = world_of s" "user_view (sti s) = user_view s"
proof -
  have f: "only_fields s (sti s)"
    unfolding only_fields_def sti_def
    by (intro exI[of _ "mem s"] exI[of _ "io_trace s"] exI[of _ True] exI[of _ "screen_x s"] exI[of _ "screen_y s"] exI[of _ "dr_index s"]) simp
  have "on_screen (sti s)" using assms by (simp add: user_ok_def sti_def on_screen_def)
  then show "user_ok env (sti s)" by (rule quiet_step(1)[OF assms f]) (simp add: sti_def)
  show "user_view (sti s) = user_view s" by (simp add: user_view_def sti_def phys_def cur_pid_def fun_eq_iff)
  show "world_of (sti s) = world_of s"
    by (simp add: world_of_def sti_def display_def glyphs_def handle_of_def entry_of_def fd_view_def ld_field_def cur_pid_def
        file_contents_def data_base_def inode_addr_def lookup_name_def fun_eq_iff cong: option.case_cong if_cong)
qed

lemma store_law:
  assumes ok: "user_ok env s" and m: "\<And>a. \<not> in_page a 1 \<Longrightarrow> m a = user_view s a"
  shows "user_view (user_store m s) = m" "world_of (user_store m s) = world_of s" "user_ok env (user_store m s)"
proof -
  let ?t = "user_store m s" and ?f = "user_frame (cur_pid s)"
  have r: "0 \<le> cur_pid s" "cur_pid s < 6" using ok by (simp_all add: user_ok_def proc_runs_def)
  have cp: "cur_pid ?t = cur_pid s" by (simp add: user_store_def)
  show "user_view ?t = m"
  proof
    fix v
    show "user_view ?t v = m v"
    proof (cases "in_page v 1")
      case True
      have "in_rng ?f 0x400000 (phys s v)" using page_addr(5)[OF ok True] by simp
      with True show ?thesis by (simp add: user_view_def user_store_def phys_def cp[unfolded user_store_def])
    qed (simp add: user_view_def m)
  qed
  have f: "only_fields s ?t"
    unfolding only_fields_def user_store_def
    by (intro exI[of _ "mem ?t"] exI[of _ "io_trace s"] exI[of _ "if_flag s"] exI[of _ "screen_x s"] exI[of _ "screen_y s"] exI[of _ "dr_index s"])
      (simp add: user_store_def)
  have mt: "mem ?t a = mem s a" if "\<not> 0x800000 \<le> unat a" for a
  proof -
    have "unat ?f + 0x400000 \<le> 4294967296" "0x800000 \<le> unat ?f" using user_frame_facts(3)[OF r] r by auto
    then have "\<not> in_rng ?f 0x400000 a" using that by (simp add: in_rng_unat)
    then show ?thesis by (simp add: user_store_def)
  qed
  have scr: "on_screen ?t" using ok by (simp add: user_ok_def user_store_def on_screen_def)
  have sc: "mem ?t a = mem s a" if "\<not> scratch env s a" for a
    using mt that by (simp add: scratch_def)
  show "user_ok env ?t" by (rule quiet_step(1)[OF ok f scr sc])
  have "display ?t = display s"
  proof (rule display_cong)
    fix a assume "in_rng (video_mem s) 4000 a"
    then have "unat a < 0x400000" using ok in_rng_mono[of _ 4000 a 4352] by (auto simp: user_ok_def user_layout_def)
    then show "mem ?t a = mem s a" by (intro mt) simp
  qed (simp_all add: user_store_def)
  moreover have "dr_index ?t = dr_index s" by (simp add: user_store_def)
  ultimately show "world_of ?t = world_of s"
    using quiet_step(2)[OF ok f scr sc] by (simp add: world_of_def)
qed

lemma only_fields_con: "only_fields s (s\<lparr>mem := m, io_trace := tr, screen_x := x, screen_y := y\<rparr>)"
  unfolding only_fields_def
  by (intro exI[of _ m] exI[of _ tr] exI[of _ "if_flag s"] exI[of _ x] exI[of _ y] exI[of _ "dr_index s"]) simp

lemma only_fields_dir: "only_fields s (s\<lparr>mem := m, dr_index := d\<rparr>)"
  unfolding only_fields_def
  by (intro exI[of _ m] exI[of _ "io_trace s"] exI[of _ "if_flag s"] exI[of _ "screen_x s"] exI[of _ "screen_y s"] exI[of _ d]) simp

text \<open>What the system call does on the state with interrupts enabled, the program sees.\<close>

lemma gate_law:
  assumes ok: "user_ok env s"
    and call: "\<And>u. user_ok env u \<Longrightarrow> user_view u = user_view s \<Longrightarrow> world_of u = world_of s \<Longrightarrow> u = sti s \<Longrightarrow>
      \<exists>t. sys_call env a b c d s = Some (Inr (Returned r, t)) \<and> P t"
  shows "\<exists>t. gate env a b c d s = Some (Inr (r, t)) \<and> P t"
  using call[OF sti_step(1)[OF ok] sti_step(3)[OF ok] sti_step(2)[OF ok] refl] by (auto simp: gate_def)

lemma fd_open:
  assumes "user_ok env s" "fd < 8" "fd_view (cur_pcb s) fd s = Some (fops, i, pos)"
  shows "ld_field (cur_pcb s) (fd_off fd FLAGS) s \<noteq> 0" "ld_field (cur_pcb s) (fd_off fd FOPS) s = fops"
    "driver_of fops s = Inr (if fops = terminal_funcs s then Terminal_Driver else if fops = rtc_funcs s then Rtc_Driver
      else if fops = fsys_funcs s then File_Driver else Dir_Driver)"
    "get_current_PCB s = Inr (cur_pcb s)" "deref (cur_pcb s) s = Inr (cur_pcb s)"
proof -
  show "ld_field (cur_pcb s) (fd_off fd FLAGS) s \<noteq> 0" "ld_field (cur_pcb s) (fd_off fd FOPS) s = fops"
    using assms(3) by (auto simp: fd_view_def split: if_splits)
  have "fd_ok s (Some (fops, i, pos))" using assms by (auto simp: user_ok_def fds_ok_def)
  then show "driver_of fops s = Inr (if fops = terminal_funcs s then Terminal_Driver else if fops = rtc_funcs s then Rtc_Driver
      else if fops = fsys_funcs s then File_Driver else Dir_Driver)"
    by (auto simp: fd_ok_def driver_of_def)
  show "get_current_PCB s = Inr (cur_pcb s)" "deref (cur_pcb s) s = Inr (cur_pcb s)"
    using current_pcb_eq[of s] assms(1) by (simp_all add: user_ok_def)
qed

lemma write_console_eq:
  assumes ok: "user_ok env s" and buf: "in_page buf n" "0 < n" "n \<le> 1024"
  shows "\<exists>t. write_fd env 1 buf (int n) s =
      Some (Inr (Returned (int (length (filter (\<lambda>c. c \<noteq> 0) (rd_bytes (user_view s) buf n)))), t)) \<and>
    user_ok env t \<and> user_view t = user_view s \<and>
    world_of t = (world_of s)\<lparr>shown := put_bytes (rd_bytes (user_view s) buf n) (shown (world_of s))\<rparr>"
proof -
  let ?p = "phys s buf" and ?wb = "write_buffer env"
  obtain i pos where v: "fd_view (cur_pcb s) 1 s = Some (terminal_funcs s, i, pos)"
    using ok by (force simp: user_ok_def fds_ok_def)
  note fd = fd_open[OF ok _ v, simplified] and pa = page_addr[OF ok buf(1,2)]
  have l: "user_layout env s" and scr: "on_screen s" "get_key_index s < 128" using ok by (simp_all add: user_ok_def)
  have wb: "0x400000 \<le> unat a \<and> unat a < 0x800000" if "in_rng ?wb n a" for a
    using l in_rng_mono[OF that buf(3)] by (auto simp: user_layout_def)
  have vm: "unat a < 0x400000" if "in_rng (video_mem s) 4000 a" for a
    using l in_rng_mono[OF that, of 4352] by (auto simp: user_layout_def)
  have "disjnt_rng (video_mem s) 4000 ?wb n" "disjnt_rng ?wb n ?p n"
    unfolding disjnt_rng_def using wb vm pa(4) by fastforce+
  moreover have "?wb \<noteq> NULL" using l by (simp add: user_layout_def)
  ultimately obtain t where t: "terminal_write ?wb 1 ?p (int n) s = (int (length (filter (\<lambda>c. c \<noteq> 0) (rd_bytes (mem s) ?p n))), t)"
    "on_screen t" "display t = fold (\<lambda>x. grid_write x (rd_bytes (mem s) ?p n ! x)) [0..<n] (display s)"
    "\<forall>a. \<not> in_rng (video_mem s) 4000 a \<and> \<not> in_rng ?wb n a \<longrightarrow> mem t a = mem s a"
    "t = s\<lparr>mem := mem t, io_trace := io_trace t, screen_x := screen_x t, screen_y := screen_y t\<rparr>"
    using terminal_write_eq[OF scr buf(2) _ pa(3), of ?wb 1] buf(3) by auto
  have f: "only_fields s t" by (subst t(5)) (rule only_fields_con)
  have "dr_index t = dr_index s" by (subst t(5)) simp
  have mt: "mem t a = mem s a" if "\<not> scratch env s a" for a
    using t(4) that in_rng_mono[of _ 4000 a 4352] in_rng_mono[of ?wb n a 1024] buf(3) by (auto simp: scratch_def)
  note st = quiet_step[OF ok f t(2) mt]
  have "mem t a = mem s a" if "0x800000 \<le> unat a" for a
    using t(4) that vm[of a] wb[of a] by auto
  then have vw: "user_view t = user_view s" using only_fieldsD(1)[OF f] by (intro view_same[OF ok])
  have bs: "rd_bytes (user_view s) buf n = rd_bytes (mem s) ?p n" by (rule view_rd[OF buf(1)])
  have "write_fd env 1 buf (int n) s = Some (Inr (Returned (int (length (filter (\<lambda>c. c \<noteq> 0) (rd_bytes (mem s) ?p n)))), t))"
    using fd pa(1,2) t(1) by (simp add: write_fd_def lift_def fbind_def call_write_def)
  moreover have "put_bytes (rd_bytes (mem s) ?p n) (display s) = display t" using t(3) by (simp add: put_bytes_def)
  ultimately show ?thesis
    using st vw \<open>dr_index t = dr_index s\<close> by (auto simp: bs world_of_def)
qed

lemma write_law:
  assumes "user_ok env s" "in_page buf n" "0 < n" "n \<le> 1024"
  shows "\<exists>t. gate env 4 1 buf (of_nat n) s =
      Some (Inr (int (length (filter (\<lambda>c. c \<noteq> 0) (rd_bytes (user_view s) buf n))), t)) \<and>
    user_ok env t \<and> user_view t = user_view s \<and>
    world_of t = (world_of s)\<lparr>shown := put_bytes (rd_bytes (user_view s) buf n) (shown (world_of s))\<rparr>"
proof (rule gate_law[OF assms(1)])
  fix u assume "user_ok env u" "user_view u = user_view s" "world_of u = world_of s" "u = sti s"
  with write_console_eq[of env u buf n] assms(2-4)
  show "\<exists>t. sys_call env 4 1 buf (of_nat n) s =
      Some (Inr (Returned (int (length (filter (\<lambda>c. c \<noteq> 0) (rd_bytes (user_view s) buf n)))), t)) \<and>
    user_ok env t \<and> user_view t = user_view s \<and>
    world_of t = (world_of s)\<lparr>shown := put_bytes (rd_bytes (user_view s) buf n) (shown (world_of s))\<rparr>"
    by (simp add: sys_call_def)
qed

lemma only_fields_mem: "only_fields s (s\<lparr>mem := m\<rparr>)"
  using only_fields_con[of s "screen_y s" "screen_x s" "io_trace s" m] by simp

lemma kernel_display:
  assumes "user_ok env s" "only_fields s t" "screen_x t = screen_x s" "screen_y t = screen_y s"
    and "\<And>a. unat a < 0x400000 \<Longrightarrow> mem t a = mem s a"
  shows "display t = display s" "on_screen t"
proof -
  have "unat a < 0x400000" if "in_rng (video_mem s) 4000 a" for a
    using assms(1) in_rng_mono[OF that, of 4352] by (auto simp: user_ok_def user_layout_def)
  with assms show "display t = display s" using only_fieldsD(6)[OF assms(2)] by (intro display_cong) auto
  show "on_screen t" using assms(1,3,4) by (simp add: user_ok_def on_screen_def)
qed

lemma stream_view:
  assumes ok: "user_ok env s" and fd: "fd < 8" "handles (world_of s) fd = Some (Stream bs)"
  shows "\<exists>i pos. fd_view (cur_pcb s) fd s = Some (fsys_funcs s, i, pos) \<and> bs = drop (unat pos) (file_contents i s) \<and>
    inode_wf i s \<and> unat pos \<le> length (file_contents i s) \<and> 2 \<le> fd"
proof -
  have h: "handle_of s (fd_view (cur_pcb s) fd s) = Some (Stream bs)" using fd by (simp add: world_of_def)
  then obtain fops i pos where v: "fd_view (cur_pcb s) fd s = Some (fops, i, pos)" by (auto simp: handle_of_def split: option.splits)
  with h have f: "fops = fsys_funcs s" "bs = drop (unat pos) (file_contents i s)" by (auto simp: handle_of_def split: if_splits)
  have "fds_ok s" "files_ok s" using ok by (simp_all add: user_ok_def)
  then have "2 \<le> fd" "fd_ok s (fd_view (cur_pcb s) fd s)"
    using v f(1) fd(1) by (auto simp: fds_ok_def files_ok_def not_less[symmetric])
  with v f show ?thesis by (auto simp: fd_ok_def)
qed

lemma read_stream_eq:
  assumes ok: "user_ok env s" and buf: "in_page buf n" "0 < n" "n \<le> 1024"
    and fd: "fd < 8" "handles (world_of s) fd = Some (Stream bs)"
  shows "\<exists>t. read_fd env (int fd) buf (int n) s = Some (Inr (Returned (int (length (take n bs))), t)) \<and>
    user_ok env t \<and> user_view t = wr_bytes (user_view s) buf (take n bs) \<and>
    world_of t = (world_of s)\<lparr>handles := (handles (world_of s))(fd := Some (Stream (drop n bs)))\<rparr>"
proof -
  let ?p = "phys s buf" and ?pcb = "cur_pcb s" and ?c = "take n bs"
  obtain i pos where v: "fd_view ?pcb fd s = Some (fsys_funcs s, i, pos)" and bs: "bs = drop (unat pos) (file_contents i s)"
    and i: "inode_wf i s" "unat pos \<le> length (file_contents i s)" and fd2: "2 \<le> fd"
    using stream_view[OF ok fd] by blast
  have o: "proc_runs s" "user_layout env s" "fs_wf s" "distinct [terminal_funcs s, rtc_funcs s, fsys_funcs s, dir_funcs s]"
    using ok by (simp_all add: user_ok_def files_ok_def)
  note f = fd_open[OF ok fd(1) v] and pa = page_addr[OF ok buf(1,2)] and pcb = pcb_range[OF o(1)]
  have im: "\<not> in_image s a" if "in_rng ?p n a" for a using o(2) pa(4)[OF that] by (auto simp: user_layout_def)
  have "disjnt_rng ?p n ?pcb 8192" unfolding disjnt_rng_def using pa(4) pcb by fastforce
  from file_read_eq[OF o(1) fd(1) v o(3) i(1) pa(1,3) _ this im] buf(3)
  have fr: "file_read (int fd) buf (int n) s = Inr (int (length ?c),
      st_field ?pcb (fd_off fd 8) (pos + of_nat (length ?c)) (s\<lparr>mem := wr_bytes (mem s) ?p ?c\<rparr>))" by (simp add: bs)
  define t where "t = st_field ?pcb (fd_off fd 8) (pos + of_nat (length ?c)) (s\<lparr>mem := wr_bytes (mem s) ?p ?c\<rparr>)"
  have tf: "only_fields s t" unfolding t_def st_field_def by (simp add: only_fields_mem)
  have low: "wr_bytes (mem s) ?p ?c a = mem s a" if "unat a < 0x800000" for a
    using pa(4)[of a] that in_rng_mono[of ?p "length ?c" a n] by (intro wr_bytes_out) auto
  have out: "mem t a = wr_bytes (mem s) ?p ?c a" if "\<not> in_rng ?pcb 384 a" for a
    unfolding t_def using that fd(1) by (subst st_field_out[of _ 384]) (simp_all add: fd_off_def)
  have np: "\<not> in_rng ?pcb 384 a" if "unat a < 0x7F4000 \<or> 0x800000 \<le> unat a" for a
    using pcb[of a] that in_rng_mono[of ?pcb 384 a 8192] by auto
  have "display t = display s \<and> on_screen t"
    using out np low by (intro conjI kernel_display[OF ok tf]) (simp_all add: t_def st_field_def)
  moreover have "mem t a = mem s a" if "\<not> scratch env s a" "\<not> in_rng ?pcb 384 a" for a
    using out[OF that(2)] low[of a] that(1) by (simp add: scratch_def)
  moreover
  let ?np = "pos + of_nat (length ?c)"
  have vt: "fd_view ?pcb j t = (if j = fd then Some (fsys_funcs s, i, ?np) else fd_view ?pcb j s)" if "j < 8" for j
  proof -
    let ?s1 = "s\<lparr>mem := wr_bytes (mem s) ?p ?c\<rparr>"
    have ld: "ld_field ?pcb (fd_off j k) ?s1 = ld_field ?pcb (fd_off j k) s" if "k \<le> 12" "j < 8" for k j
    proof (rule ld_field_cong)
      fix a assume "in_rng (?pcb + of_nat (fd_off j k)) 4 a"
      then have "in_rng ?pcb 8192 a" using that by (intro in_rng_offset[of ?pcb "fd_off j k" 4]) (auto simp: fd_off_def)
      then show "mem ?s1 a = mem s a" using low pcb by simp
    qed (use that in \<open>auto simp: fd_off_def\<close>)
    show ?thesis
      using v ld[of _ j] that fd(1) by (auto simp: t_def fd_view_def ld_st_fd split: if_splits)
  qed
  moreover have len: "length (file_contents i s) \<le> 1023 * 4096" using i(1) by (intro length_file_contents) (simp add: inode_wf_def)
  have un: "unat ?np = unat pos + length ?c"
  proof -
    have "unat pos + length ?c \<le> 1023 * 4096" using i(2) len by (auto simp: bs min_def)
    then show ?thesis using unat_of_nat32[of "unat pos + length ?c"] by simp
  qed
  then have "unat ?np \<le> length (file_contents i s)" using i(2) by (auto simp: bs min_def)
  then have fdo: "fd_ok s (Some (fsys_funcs s, i, ?np))" using i(1) by (simp add: fd_ok_def)
  ultimately have st: "user_ok env t" "world_of t = (world_of s)\<lparr>shown := display t,
      handles := (handles (world_of s))(fd := handle_of s (Some (fsys_funcs s, i, ?np))), next_entry := unat (dr_index t)\<rparr>"
    using fd_step[OF ok tf _ _ _ fd2 fd(1), of "Some (fsys_funcs s, i, ?np)"] by blast+
  have "user_view t = wr_bytes (user_view s) buf ?c"
    using out np buf(1) only_fieldsD(1)[OF tf] by (intro view_wr[OF ok]) (auto simp: in_page_def)
  moreover have "handle_of s (Some (fsys_funcs s, i, ?np)) = Some (Stream (drop n bs))"
    using o(4) un by (auto simp: handle_of_def bs min_def add.commute)
  moreover have "dr_index t = dr_index s" by (simp add: t_def st_field_def)
  moreover have "read_fd env (int fd) buf (int n) s = Some (Inr (Returned (int (length ?c)), t))"
    using f pa(2) fd2 fd(1) o(4) fr by (auto simp: read_fd_def call_read_def lift_def fbind_def t_def)
  ultimately show ?thesis
    using st \<open>display t = display s \<and> on_screen t\<close> by (auto simp: world_of_def)
qed

lemma read_directory_eq:
  assumes ok: "user_ok env s" and buf: "in_page buf 32"
    and fd: "fd < 8" "handles (world_of s) fd = Some Directory" and w: "w_read_dir (world_of s) = (bs, w)"
  shows "\<exists>t. read_fd env (int fd) buf 32 s = Some (Inr (Returned (int (length bs)), t)) \<and>
    user_ok env t \<and> user_view t = wr_bytes (user_view s) buf bs \<and> world_of t = w"
proof -
  let ?p = "phys s buf" and ?pcb = "cur_pcb s" and ?bb = "boot_block s" and ?i = "unat (dr_index s)"
  have h: "handle_of s (fd_view ?pcb fd s) = Some Directory" using fd by (simp add: world_of_def)
  then obtain fops i pos where v: "fd_view ?pcb fd s = Some (fops, i, pos)" by (auto simp: handle_of_def split: option.splits)
  with h have fo: "fops \<noteq> terminal_funcs s" "fops \<noteq> rtc_funcs s" "fops \<noteq> fsys_funcs s" by (auto simp: handle_of_def split: if_splits)
  have "\<exists>i pos. fd_view ?pcb 1 s = Some (terminal_funcs s, i, pos)" using ok by (force simp: user_ok_def fds_ok_def)
  then have fd2: "fd \<noteq> 1" using v fo(1) by auto
  have bb: "boot_ok ?bb" "unat (dentry_count ?bb) \<le> 63" using ok by (simp_all add: user_ok_def files_ok_def fs_wf_def)
  note f = fd_open[OF ok fd(1) v] and pa = page_addr[OF ok buf, simplified]
  have rd: "read_fd env (int fd) buf 32 s = fbind (lift (dir_read (int fd) ?p 32 s)) (\<lambda>(r, s). Some (Inr (Returned r, s)))"
    using f fo pa(1,2) fd2 fd(1) by (simp add: read_fd_def call_read_def lift_def fbind_def)
  have step: "user_ok env t \<and> user_view t = wr_bytes (user_view s) buf bs \<and> world_of t = (world_of s)\<lparr>next_entry := unat d\<rparr>"
    if t: "t = s\<lparr>mem := wr_bytes (mem s) ?p bs, dr_index := d\<rparr>" and len: "length bs \<le> 32" for t d bs
  proof -
    have tf: "only_fields s t" unfolding t by (rule only_fields_dir)
    have low: "mem t a = mem s a" if "unat a < 0x800000" for a
      unfolding t using pa(4)[of a] that in_rng_mono[of ?p "length bs" a 32] len by (simp, intro wr_bytes_out) auto
    have xy: "screen_x t = screen_x s" "screen_y t = screen_y s" by (simp_all add: t)
    have ds: "display t = display s" "on_screen t"
      by (rule kernel_display[OF ok tf xy]; use low in simp)+
    have sc: "mem t a = mem s a" if "\<not> scratch env s a" for a using low[of a] that by (simp add: scratch_def)
    have "user_view t = wr_bytes (user_view s) buf bs"
      using buf len by (intro view_wr[OF ok only_fieldsD(1)[OF tf]]) (auto simp: in_page_def t)
    moreover have "world_of t = (world_of s)\<lparr>next_entry := unat d\<rparr>"
      using quiet_step(2)[OF ok tf ds(2) sc] ds(1) by (simp add: world_of_def t)
    ultimately show ?thesis using quiet_step(1)[OF ok tf ds(2) sc] by blast
  qed
  show ?thesis
  proof (cases "?i < unat (dentry_count ?bb)")
    case True
    let ?d = "dentries ?bb ! ?i" and ?t = "s\<lparr>mem := wr_bytes (mem s) ?p (name (dentries ?bb ! ?i)), dr_index := dr_index s + 1\<rparr>"
    have d: "?d \<in> set (dentries ?bb)" using True bb by (simp add: boot_ok_def)
    then have l: "length (name ?d) = 32" using bb(1) by (simp add: boot_ok_def)
    have "take 32 (dentry_bytes ?d) = name ?d" using dentry_bytes_name[OF bb(1) d, of 32] l by simp
    then have "dir_read (int fd) ?p 32 s = Inr (32, ?t)"
      using True pa(3) by (simp add: dir_read_def next_dentry_eq[OF bb])
    moreover have "bs = name ?d" "w = (world_of s)\<lparr>next_entry := ?i + 1\<rparr>"
      using w True bb by (auto simp: w_read_dir_def world_of_def boot_ok_def)
    moreover have "unat (dr_index s + 1) = ?i + 1" using True bb(2) by (simp add: unat_word_ariths)
    ultimately show ?thesis using step[OF refl, of "name ?d" "dr_index s + 1"] l rd by (simp add: lift_def fbind_def)
  next
    case False
    have wr: "wr_bytes (mem s) ?p [] = mem s" by simp
    have "dir_read (int fd) ?p 32 s = Inr (0, s\<lparr>dr_index := 0\<rparr>)"
      using False by (simp add: dir_read_def next_dentry_eq[OF bb])
    moreover have "bs = []" "w = (world_of s)\<lparr>next_entry := 0\<rparr>"
      using w False bb by (auto simp: w_read_dir_def world_of_def boot_ok_def)
    ultimately show ?thesis using step[OF refl, of "[]" 0] rd by (simp add: lift_def fbind_def wr)
  qed
qed

lemma fresh_fd:
  assumes "user_ok env s"
  shows "fresh (world_of s) = free_fd (cur_pcb s) s"
proof -
  have "(handles (world_of s) j = None) = (ld_field (cur_pcb s) (fd_off j FLAGS) s = 0)" if "j \<in> set [2..<8]" for j
    using that fd_view_used[of "cur_pcb s" j s] by (auto simp: world_of_def handle_of_def split: option.splits)
  then show ?thesis unfolding fresh_def free_fd_def by (intro find_cong refl) auto
qed

lemma open_eq:
  assumes ok: "user_ok env s" and nm: "cstr (user_view s) p nm" "length nm \<le> 31" "in_page p 32"
    and w: "w_open nm (world_of s) = (r, w)"
  shows "\<exists>t. open_fd p s = Inr (r, t) \<and> user_ok env t \<and> user_view t = user_view s \<and> world_of t = w"
proof -
  let ?p = "phys s p" and ?pcb = "cur_pcb s"
  have o: "proc_runs s" "files_ok s" "user_layout env s" using ok by (simp_all add: user_ok_def)
  have bb: "boot_ok (boot_block s)" "unat (inode_count (boot_block s)) \<le> 63" using o(2) by (simp_all add: files_ok_def fs_wf_def)
  note pa = page_addr[OF ok nm(3), simplified] and pcb = pcb_range[OF o(1)] and c = current_pcb_eq[OF o(1)]
  have cs: "cstr (mem s) ?p nm" using nm(1,2) view_cstr[OF nm(3), of nm s] by simp
  have dj: "disjnt_rng ?pcb 8192 ?p (Suc (length nm))"
    unfolding disjnt_rng_def using pcb pa(4) in_rng_mono[of ?p "Suc (length nm)" _ 32] nm(2) by fastforce
  have arg: "name_arg p ?p nm s" using pa(1,3) cs nm(2) dj by (simp add: name_arg_def)
  have rd: "read_dentry_by_name ?p s = Inr (lookup_name nm s)"
    using read_dentry_by_name_eq[OF bb(1) cs pa(3)] bb(2) by (simp split: option.splits)
  have sl: "string_length (mem s) ?p = int (length nm)" using cs pa(3) nm(2) by (simp add: string_length_cstr)
  show ?thesis
  proof (cases "entry (world_of s) nm = None \<or> fresh (world_of s) = None")
    case True
    then have "open_fd p s = Inr (- 1, s)"
      using rd sl nm(2) unfolding fresh_fd[OF ok]
      by (auto simp: open_fd_def c pa(1) open_file_def world_of_def entry_of_def split: option.splits if_splits)
    moreover have "(r, w) = (- 1, world_of s)" using w True by (auto simp: w_open_def split: option.splits)
    ultimately show ?thesis using ok by auto
  next
    case False
    then obtain h fd where h: "entry (world_of s) nm = Some h" and fr: "fresh (world_of s) = Some fd" by auto
    then obtain d where d: "lookup_name nm s = Some d" by (auto simp: world_of_def entry_of_def split: option.splits)
    have ty: "file_type d = 0 \<and> h = Clock_File \<or> file_type d = 1 \<and> h = Directory \<or>
        file_type d = 2 \<and> h = Stream (file_contents (inode_index d) s)"
      using h d by (auto simp: world_of_def entry_of_def split: if_splits)
    then have "unat (file_type d) \<le> 2" by auto
    moreover have "fdt.first_free ?pcb s = Some fd" using fr fresh_fd[OF ok] first_fd by metis
    ultimately obtain m where m: "open_fd p s = Inr (int fd, s\<lparr>mem := m\<rparr>)"
      "\<And>j. j < 8 \<Longrightarrow> fd_view ?pcb j (s\<lparr>mem := m\<rparr>) = (if j = fd then Some (fops_of d s, inode_of d, 0) else fd_view ?pcb j s)"
      "\<And>a. \<not> in_rng (?pcb + of_nat (48 * fd)) 48 a \<Longrightarrow> m a = mem s a"
      using open_fd_eq[OF o(1) arg bb(1) d] by blast
    let ?t = "s\<lparr>mem := m\<rparr>"
    have fd: "2 \<le> fd" "fd < 8" using fresh_range[OF fr] by simp_all
    have dist: "distinct [terminal_funcs s, rtc_funcs s, fsys_funcs s, dir_funcs s]" using o(2) by (simp add: files_ok_def)
    have wf: "inode_wf (inode_index d) s" if "file_type d = 2" using o(2) d that by (auto simp: files_ok_def)
    have fdo: "fd_ok s (Some (fops_of d s, inode_of d, 0))" "handle_of s (Some (fops_of d s, inode_of d, 0)) = Some h"
      using ty wf dist by (auto simp: fd_ok_def handle_of_def fops_of_def inode_of_def)
    have slot: "in_rng ?pcb 384 a" if "in_rng (?pcb + of_nat (48 * fd)) 48 a" for a
      using that fd(2) by (intro in_rng_offset[of ?pcb "48 * fd" 48]) simp_all
    have np: "m a = mem s a" if "unat a < 0x7F4000 \<or> 0x800000 \<le> unat a" for a
      using pcb[of a] that in_rng_mono[OF slot, of a 8192] by (intro m(3)) auto
    note tf = only_fields_mem[of s m]
    have ds: "display ?t = display s" "on_screen ?t"
      using np by (auto intro!: kernel_display[OF ok tf])
    have st: "user_ok env ?t" "world_of ?t = (world_of s)\<lparr>shown := display ?t,
        handles := (handles (world_of s))(fd := Some h), next_entry := unat (dr_index ?t)\<rparr>"
      using fd_step[OF ok tf ds(2) _ m(2) fd fdo(1)] m(3) slot fdo(2) by force+
    moreover have "user_view ?t = user_view s" using np by (intro view_same[OF ok]) simp_all
    moreover have "(r, w) = (int fd, (world_of s)\<lparr>handles := (handles (world_of s))(fd := Some h)\<rparr>)"
      using w h fr by (simp add: w_open_def)
    ultimately show ?thesis using m(1) ds(1) by (auto simp: world_of_def)
  qed
qed

lemma close_eq:
  assumes ok: "user_ok env s" and fd: "2 \<le> fd" "fd < 8" "handles (world_of s) fd \<noteq> None"
  shows "\<exists>t. close_fd (int fd) s = Inr (0, t) \<and> user_ok env t \<and> user_view t = user_view s \<and>
    world_of t = (world_of s)\<lparr>handles := (handles (world_of s))(fd := None)\<rparr>"
proof -
  let ?pcb = "cur_pcb s"
  have o: "proc_runs s" "fds_ok s" using ok by (simp_all add: user_ok_def)
  note pcb = pcb_range[OF o(1)]
  obtain fops i pos where v: "fd_view ?pcb fd s = Some (fops, i, pos)"
    using fd by (auto simp: world_of_def handle_of_def split: option.splits)
  then have "fd_ok s (Some (fops, i, pos))" using o(2) fd(2) by (auto simp: fds_ok_def)
  then have "fops \<in> {terminal_funcs s, rtc_funcs s, fsys_funcs s, dir_funcs s}" by (simp add: fd_ok_def)
  from close_fd_eq[OF o(1) fd(1,2) v this] obtain tr where
    c: "close_fd (int fd) s = Inr (0, reset_fd ?pcb fd (s\<lparr>io_trace := tr\<rparr>))" by blast
  obtain m where m: "reset_fd ?pcb fd (s\<lparr>io_trace := tr\<rparr>) = s\<lparr>io_trace := tr, mem := m\<rparr>"
    using fill_reset_frame(2)[of ?pcb fd "s\<lparr>io_trace := tr\<rparr>"] by auto
  let ?t = "s\<lparr>io_trace := tr, mem := m\<rparr>"
  have e: "?t = s\<lparr>mem := m, io_trace := tr\<rparr>" by simp
  have tf: "only_fields s ?t" unfolding e using only_fields_con[of s "screen_y s" "screen_x s" tr m] by simp
  have vt: "fd_view ?pcb j ?t = (if j = fd then None else fd_view ?pcb j s)" if "j < 8" for j
    using fd_view_reset[OF fd(2) that, of ?pcb "s\<lparr>io_trace := tr\<rparr>"] by (simp add: m)
  have out: "m a = mem s a" if "\<not> in_rng (?pcb + of_nat (48 * fd)) 48 a" for a
    using fill_reset_out(2)[OF fd(2) that, of "s\<lparr>io_trace := tr\<rparr>"] by (simp add: m)
  have slot: "in_rng ?pcb 384 a" if "in_rng (?pcb + of_nat (48 * fd)) 48 a" for a
    using that fd(2) by (intro in_rng_offset[of ?pcb "48 * fd" 48]) simp_all
  have np: "m a = mem s a" if "unat a < 0x7F4000 \<or> 0x800000 \<le> unat a" for a
    using pcb[of a] that in_rng_mono[OF slot, of a 8192] by (intro out) auto
  have ds: "display ?t = display s" "on_screen ?t"
    using np by (auto intro!: kernel_display[OF ok tf])
  have fdo: "fd_ok s None" by (simp add: fd_ok_def)
  have "user_ok env ?t" "world_of ?t = (world_of s)\<lparr>shown := display ?t,
      handles := (handles (world_of s))(fd := None), next_entry := unat (dr_index ?t)\<rparr>"
    using fd_step[OF ok tf ds(2) _ vt fd(1,2) fdo] out slot by (force simp: handle_of_def)+
  moreover have "user_view ?t = user_view s" using np by (intro view_same[OF ok]) (simp_all add: cur_pid_def)
  ultimately show ?thesis using c m ds(1) by (auto simp: world_of_def)
qed

lemma takeWhile_cstr:
  assumes "cstr m p bs" "length bs < n"
  shows "takeWhile (\<lambda>c. c \<noteq> 0) (rd_bytes m p n) = bs"
proof -
  have z: "rd_bytes m p (length bs) = bs" "m (p + of_nat (length bs)) = 0" "\<forall>c \<in> set bs. c \<noteq> 0"
    using cstr_rd_bytes[OF assms(1)] cstr_end[OF assms(1)] cstr_nonzero[OF assms(1)] by auto
  obtain k where "n = length bs + Suc k" using assms(2) less_iff_Suc_add by auto
  then have "rd_bytes m p n = bs @ 0 # rd_bytes m (p + of_nat (length bs) + 1) k"
    using z by (simp add: rd_bytes_add rd_bytes_Suc del: add_Suc_right)
  then show ?thesis using z(3) by simp
qed

lemma args_cstr:
  assumes "user_ok env s"
  shows "cstr (mem s) (cur_pcb s + 384) (args (world_of s))" "length (args (world_of s)) < 128"
  using assms takeWhile_cstr[of "mem s" "cur_pcb s + 384" _ 128] by (auto simp: user_ok_def world_of_def)

lemma fold_putc_display:
  "on_screen s \<Longrightarrow> get_key_index s < 128 \<Longrightarrow>
    on_screen (fold putc bs s) \<and> screen_step 4000 s (fold putc bs s) \<and> display (fold putc bs s) = fold grid_putc bs (display s)"
proof (induction bs arbitrary: s)
  case (Cons b bs)
  have st: "on_screen (putc b s)" "screen_step 4000 s (putc b s)" using putc_step(3,4)[OF on_near[OF Cons(2)]] Cons(2) by blast+
  then have "get_key_index (putc b s) < 128" using screen_stepD(4) Cons(3) by metis
  from Cons(1)[OF st(1) this] st(2) display_putc[OF Cons(2,3)] show ?case
    using screen_step_trans by fastforce
qed simp

text \<open>A line break after a string undoes the column that \<open>puts\<close> leaves.\<close>

lemma emit_line:
  "fold (emit str) (map Chr cs @ [StrAt p, Chr 10]) s = fold putc (cs @ str p @ [10]) s"
proof -
  have "fold (emit str) (map Chr cs) s = fold putc cs s" by (induction cs arbitrary: s) simp_all
  moreover have "putc 10 (u\<lparr>screen_x := x\<rparr>) = putc 10 u" for u x by (simp add: putc_def Let_def)
  ultimately show ?thesis by (simp add: put_str_def)
qed

lemma getargs_eq:
  assumes ok: "user_ok env s" and buf: "in_page buf n" "n \<le> 1024"
    and a: "args (world_of s) = str" "str \<noteq> []" "length str < n"
  shows "\<exists>t. getargs (conv_buf (env_loc env)) buf (of_nat n) s = Some (Inr (0, t)) \<and> user_ok env t \<and>
    user_view t = wr_bytes (user_view s) buf (str @ [0]) \<and>
    world_of t = (world_of s)\<lparr>shown := fold grid_putc (asc ''getargs buf: '' @ str @ [10]) (shown (world_of s))\<rparr>"
proof -
  let ?p = "phys s buf" and ?ab = "cur_pcb s + 384" and ?conv = "conv_buf (env_loc env)" and ?pre = "asc ''getargs buf: ''"
  have o: "proc_runs s" "user_layout env s" "on_screen s" "get_key_index s < 128" using ok by (simp_all add: user_ok_def)
  have n: "0 < n" using a by simp
  note pa = page_addr[OF ok buf(1) n] and pcb = pcb_range[OF o(1)]
  have cs: "cstr (mem s) ?ab str" "length str < 128" using args_cstr[OF ok] a(1) by simp_all
  have ne: "?ab \<noteq> NULL" using PCB_nonnull[of "cur_pid s" 384] o(1) by (simp add: proc_runs_def)
  have ab: "in_rng (cur_pcb s) 8192 x" if "in_rng ?ab (Suc (length str)) x" for x
    using that cs(2) by (intro in_rng_offset[of "cur_pcb s" 384 "Suc (length str)"]) simp_all
  have up: "0x800000 \<le> unat x" if "in_rng ?p (Suc (length str)) x" for x
    using pa(4)[of x] in_rng_mono[OF that, of n] a(3) by simp
  have "\<not> in_rng ?ab (length str) x" if "in_rng ?p (length str) x" for x
    using up[of x] ab[of x] pcb[of x] in_rng_mono[OF that, of "Suc (length str)"] in_rng_mono[of ?ab "length str" x "Suc (length str)"] by auto
  then have "disjnt_rng ?p (length str) ?ab (length str)" by (auto simp: disjnt_rng_def)
  then have cp: "copy_string (mem s) ?ab ?p = (0, wr_bytes (mem s) ?p (str @ [0]))"
    using cs ne pa(3) by (intro copy_string_cstr) simp_all
  let ?s1 = "s\<lparr>mem := wr_bytes (mem s) ?p (str @ [0])\<rparr>"
  let ?qs = "map Chr ?pre @ [StrAt ?p, Chr 10]"
  have ren: "render (asc ''getargs buf: %s'' @ [10]) [?p] = Some ?qs"
    by (simp add: asc_def of_char_def render_arg_def)
  have lowc: "0x400000 \<le> unat x \<and> unat x < 0x800000" if "in_rng ?conv 64 x" for x using o(2) that by (auto simp: user_layout_def)
  have lowv: "unat x < 0x400000" if "in_rng (video_mem s) 4352 x" for x using o(2) that by (auto simp: user_layout_def)
  have dj: "disjnt_rng (video_mem s) 4352 ?conv 64" "disjnt_rng (video_mem s) 4352 ?p (Suc (length str))" "disjnt_rng ?conv 64 ?p (Suc (length str))"
    unfolding disjnt_rng_def using lowc lowv up by fastforce+
  have "0 \<notin> set str" using cstr_nonzero[OF cs(1)] by auto
  then have "cstr (mem ?s1) ?p str" using cs(2) by (simp del: wr_bytes_append) (rule cstr_wr_bytes, simp_all)
  then have pk: "pieces_ok ?conv (\<lambda>_. str) ?qs ?s1"
    using o(3) dj cs(2) on_near[of ?s1] by (auto simp: pieces_ok_def str_ok_def on_screen_def)
  define u where "u = fold putc (?pre @ str @ [10]) ?s1"
  obtain t where t: "printf ?conv (asc ''getargs buf: %s'' @ [10]) [?p] ?s1 = Some (Inr (of_nat (length (asc ''getargs buf: %s'' @ [10])), t))"
    "but_for ?conv u t"
    using printf_loop_render(1)[OF ren but_for_refl pk, unfolded prints_def emit_line] unfolding u_def by (auto simp: printf_def fbind_def)
  have "on_screen ?s1" "get_key_index ?s1 < 128" using o(3,4) by (simp_all add: on_screen_def get_key_index_def)
  note pu = fold_putc_display[OF this, of "?pre @ str @ [10]", folded u_def]
  obtain m where m: "t = u\<lparr>mem := m\<rparr>" "\<And>x. \<not> in_rng ?conv 64 x \<Longrightarrow> m x = mem u x" using t(2) by (auto simp: but_for_def)
  have ueq: "u = ?s1\<lparr>mem := mem u, io_trace := io_trace u, screen_x := screen_x u, screen_y := screen_y u\<rparr>"
    using pu by (simp add: screen_step_def)
  have teq: "t = s\<lparr>mem := m, io_trace := io_trace u, screen_x := screen_x u, screen_y := screen_y u\<rparr>"
    unfolding m(1) by (subst ueq) simp
  have tf: "only_fields s t" unfolding teq by (rule only_fields_con)
  have mu: "mem u x = wr_bytes (mem s) ?p (str @ [0]) x" if "\<not> in_rng (video_mem s) 4352 x" for x
    using pu that screen_stepD(5)[of 4000 ?s1 u x] in_rng_mono[of "video_mem s" 4000 x 4352] by auto
  have wr: "wr_bytes (mem s) ?p (str @ [0]) x = mem s x" if "unat x < 0x800000" for x
    using up[of x] that wr_bytes_out[of ?p "str @ [0]" x "mem s"] by auto
  have mt: "mem t x = mem s x" if "\<not> scratch env s x" for x
    using that m(2)[of x] mu[of x] wr[of x] by (auto simp: scratch_def m(1))
  have "display t = display u"
    unfolding m(1)
  proof (rule display_cong)
    fix x assume "in_rng (video_mem u) 4000 x"
    then have "in_rng (video_mem s) 4352 x" using pu screen_stepD(1)[of 4000 ?s1 u] in_rng_mono[of "video_mem s" 4000 x 4352] by auto
    then have "\<not> in_rng ?conv 64 x" using lowv lowc by fastforce
    then show "mem (u\<lparr>mem := m\<rparr>) x = mem u x" using m(2) by simp
  qed simp_all
  moreover have "display ?s1 = display s"
  proof (rule kernel_display(1)[OF ok only_fields_mem])
  qed (simp_all add: wr)
  ultimately have d: "display t = fold grid_putc (?pre @ str @ [10]) (display s)" using pu by simp
  have scr: "on_screen t" using pu by (simp add: m(1) on_screen_def)
  have "mem t x = wr_bytes (mem s) ?p (str @ [0]) x" if "0x800000 \<le> unat x" for x
  proof -
    have "\<not> in_rng ?conv 64 x" "\<not> in_rng (video_mem s) 4352 x" using that lowc[of x] lowv[of x] by linarith+
    then show ?thesis using m(2)[of x] mu[of x] by (simp add: m(1))
  qed
  then have vw: "user_view t = wr_bytes (user_view s) buf (str @ [0])"
    using only_fieldsD(1)[OF tf] buf(1) a(3) by (intro view_wr[OF ok]) (auto simp: in_page_def)
  have sl: "string_length (mem s) ?ab = int (length str)" using cs ne by (simp add: string_length_cstr)
  have "unat (word_of_int (int (length str) + 1) :: u32) = Suc (length str)"
    using cs(2) unat_of_nat32[of "Suc (length str)"] by (simp add: add.commute)
  then have "\<not> (word_of_int (int (length str) + 1) :: u32) > of_nat n"
    using a(3) buf(2) by (simp add: word_less_nat_alt)
  then have "getargs ?conv buf (of_nat n) s = Some (Inr (0, t))"
    using t(1) ne pa(1,2) cp sl a(2) current_pcb_eq(3)[OF o(1)] by (simp add: getargs_def lift_def fbind_def)
  moreover have "dr_index t = dr_index s" by (simp add: teq)
  ultimately show ?thesis using quiet_step[OF ok tf scr mt] vw d by (auto simp: world_of_def)
qed

lemma refuse_law:
  assumes "user_ok env s" "w_refuses a b c d (world_of s)"
  shows "\<exists>t. gate env a b c d s = Some (Inr (- 1, t)) \<and> user_ok env t \<and> user_view t = user_view s \<and> world_of t = world_of s"
proof -
  have run: "proc_runs s" using assms(1) by (simp add: user_ok_def)
  have closed: "closed_fd fd s" if "no_handle (world_of s) fd" for fd
    using that by (auto simp: no_handle_def closed_fd_def world_of_def handle_of_def nat_less_iff split: if_splits option.splits)
  have ne: "cur_pcb s + 384 \<noteq> NULL" using PCB_nonnull[of "cur_pid s" 384] run by (simp add: proc_runs_def)
  have "string_length (mem s) (cur_pcb s + 384) = 0" if "args (world_of s) = []"
    using args_cstr(1)[OF assms(1)] string_length_cstr[of "mem s" "cur_pcb s + 384" "[]"] ne that by simp
  then have "refused a b c d s" using assms(2) closed unfolding w_refuses_def refused_def by blast
  then show ?thesis using refused_call[OF run] sti_step[OF assms(1)] by (simp add: gate_def)
qed

section \<open>The kernel keeps the laws\<close>

lemma read_stream_law:
  assumes "user_ok env s" "in_page buf n" "0 < n" "n \<le> 1024" "fd < 8" "handles (world_of s) fd = Some (Stream bs)"
  shows "\<exists>t. gate env 3 (of_nat fd) buf (of_nat n) s = Some (Inr (int (length (take n bs)), t)) \<and>
    user_ok env t \<and> user_view t = wr_bytes (user_view s) buf (take n bs) \<and>
    world_of t = (world_of s)\<lparr>handles := (handles (world_of s))(fd := Some (Stream (drop n bs)))\<rparr>"
proof (rule gate_law[OF assms(1)])
  fix u assume u: "user_ok env u" "user_view u = user_view s" "world_of u = world_of s" "u = sti s"
  have "handles (world_of u) fd = Some (Stream bs)" using assms(6) u(3) by simp
  from read_stream_eq[OF u(1) assms(2-5) this] u assms(4,5)
  show "\<exists>t. sys_call env 3 (of_nat fd) buf (of_nat n) s = Some (Inr (Returned (int (length (take n bs))), t)) \<and>
    user_ok env t \<and> user_view t = wr_bytes (user_view s) buf (take n bs) \<and>
    world_of t = (world_of s)\<lparr>handles := (handles (world_of s))(fd := Some (Stream (drop n bs)))\<rparr>"
    by (simp add: sys_call_def del: fun_upd_apply)
qed

lemma read_directory_law:
  assumes "user_ok env s" "in_page buf 32" "fd < 8" "handles (world_of s) fd = Some Directory" "w_read_dir (world_of s) = (bs, w)"
  shows "\<exists>t. gate env 3 (of_nat fd) buf 32 s = Some (Inr (int (length bs), t)) \<and>
    user_ok env t \<and> user_view t = wr_bytes (user_view s) buf bs \<and> world_of t = w"
proof (rule gate_law[OF assms(1)])
  fix u assume "user_ok env u" "user_view u = user_view s" "world_of u = world_of s" "u = sti s"
  with read_directory_eq[of env u buf fd bs w] assms(2-5)
  show "\<exists>t. sys_call env 3 (of_nat fd) buf 32 s = Some (Inr (Returned (int (length bs)), t)) \<and>
    user_ok env t \<and> user_view t = wr_bytes (user_view s) buf bs \<and> world_of t = w"
    by (simp add: sys_call_def)
qed

lemma open_law:
  assumes "user_ok env s" "cstr (user_view s) p nm" "length nm \<le> 31" "in_page p 32" "w_open nm (world_of s) = (r, w)"
  shows "\<exists>t. gate env 5 p 0 0 s = Some (Inr (r, t)) \<and> user_ok env t \<and> user_view t = user_view s \<and> world_of t = w"
proof (rule gate_law[OF assms(1)])
  fix u assume "user_ok env u" "user_view u = user_view s" "world_of u = world_of s" "u = sti s"
  with open_eq[of env u p nm r w] assms(2-5)
  show "\<exists>t. sys_call env 5 p 0 0 s = Some (Inr (Returned r, t)) \<and> user_ok env t \<and> user_view t = user_view s \<and> world_of t = w"
    by (auto simp: sys_call_def lift_def fbind_def)
qed

lemma close_law:
  assumes "user_ok env s" "2 \<le> fd" "fd < 8" "handles (world_of s) fd \<noteq> None"
  shows "\<exists>t. gate env 6 (of_nat fd) 0 0 s = Some (Inr (0, t)) \<and> user_ok env t \<and> user_view t = user_view s \<and>
    world_of t = (world_of s)\<lparr>handles := (handles (world_of s))(fd := None)\<rparr>"
proof (rule gate_law[OF assms(1)])
  fix u assume u: "user_ok env u" "user_view u = user_view s" "world_of u = world_of s" "u = sti s"
  have "handles (world_of u) fd \<noteq> None" using assms(4) u(3) by simp
  from close_eq[OF u(1) assms(2,3) this] u assms(3)
  show "\<exists>t. sys_call env 6 (of_nat fd) 0 0 s = Some (Inr (Returned 0, t)) \<and> user_ok env t \<and> user_view t = user_view s \<and>
    world_of t = (world_of s)\<lparr>handles := (handles (world_of s))(fd := None)\<rparr>"
    by (auto simp: sys_call_def lift_def fbind_def)
qed

lemma getargs_law:
  assumes "user_ok env s" "in_page buf n" "args (world_of s) \<noteq> []" "length (args (world_of s)) < n" "n \<le> 1024"
  shows "\<exists>t. gate env 7 buf (of_nat n) 0 s = Some (Inr (0, t)) \<and> user_ok env t \<and>
    user_view t = wr_bytes (user_view s) buf (args (world_of s) @ [0]) \<and>
    world_of t = (world_of s)\<lparr>shown := fold grid_putc (asc ''getargs buf: '' @ args (world_of s) @ [10]) (shown (world_of s))\<rparr>"
proof (rule gate_law[OF assms(1)])
  fix u assume u: "user_ok env u" "user_view u = user_view s" "world_of u = world_of s" "u = sti s"
  from getargs_eq[OF u(1) assms(2,5) refl] u assms(3,4) obtain t where
    "getargs (conv_buf (env_loc env)) buf (of_nat n) u = Some (Inr (0, t))" "user_ok env t"
    "user_view t = wr_bytes (user_view s) buf (args (world_of s) @ [0])"
    "world_of t = (world_of s)\<lparr>shown := fold grid_putc (asc ''getargs buf: '' @ args (world_of s) @ [10]) (shown (world_of s))\<rparr>"
    by auto
  with u(4) show "\<exists>t. sys_call env 7 buf (of_nat n) 0 s = Some (Inr (Returned 0, t)) \<and> user_ok env t \<and>
    user_view t = wr_bytes (user_view s) buf (args (world_of s) @ [0]) \<and>
    world_of t = (world_of s)\<lparr>shown := fold grid_putc (asc ''getargs buf: '' @ args (world_of s) @ [10]) (shown (world_of s))\<rparr>"
    by (auto simp: sys_call_def fbind_def)
qed

lemma names_law:
  assumes "user_ok env s" "bs \<in> set (listing (world_of s))"
  shows "length bs = 32"
proof -
  have "boot_ok (boot_block s)" using assms(1) by (simp add: user_ok_def files_ok_def fs_wf_def)
  then show ?thesis using assms(2) by (auto simp: world_of_def boot_ok_def dest: in_set_takeD)
qed

interpretation prog: program_calls "kernel_if env" world_of "user_ok env" for env
proof unfold_locales
  fix s :: "'a kernel_scheme" and m
  assume s: "user_ok env s" "\<And>a. \<not> in_page a 1 \<Longrightarrow> m a = umem (kernel_if env) s a"
  then show "umem (kernel_if env) (set_umem (kernel_if env) m s) = m \<and> world_of (set_umem (kernel_if env) m s) = world_of s \<and>
      user_ok env (set_umem (kernel_if env) m s)"
    using store_law[OF s(1), of m] by simp
qed (unfold kernel_if_simps, (rule write_law read_stream_law read_directory_law open_law close_law getargs_law refuse_law names_law;
    assumption)+)

section \<open>Programs on the kernel\<close>

lemma entry_lookup:
  "entry (world_of s) nm = (case lookup_name nm s of None \<Rightarrow> None | Some d \<Rightarrow>
     if file_type d = 0 then Some Clock_File else if file_type d = 1 then Some Directory
     else if file_type d = 2 then Some (Stream (file_contents (inode_index d) s)) else None)"
  by (simp add: world_of_def entry_of_def)

lemma world_shown [simp]: "shown (world_of s) = display s" "next_entry (world_of s) = unat (dr_index s)"
  by (simp_all add: world_of_def)

lemma args_of:
  assumes "cstr (mem s) (cur_pcb s + 384) nm" "length nm < 128"
  shows "args (world_of s) = nm" "0 \<notin> set nm"
  using takeWhile_cstr[OF assms] cstr_nonzero[OF assms(1)] by (auto simp: world_of_def)

text \<open>
  C6: \<open>cat\<close>, from the argument to the screen. In a process with the name of a file as its argument and
  a free descriptor, the program terminates without a fault. After the line with which the kernel
  echoes the arguments the screen shows the contents of the file, written in pieces of 1024 bytes, and the result
  is 0; if there is no such file, the screen shows the error message and the result is 2.
\<close>

theorem cat_prints_file:
  assumes ok: "user_ok env s" and buf: "in_page buf 1024"
    and arg: "cstr (mem s) (find_PCB (cur_pid s) + 384) nm" "nm \<noteq> []" "length nm \<le> 31"
    and ty: "\<forall>d. lookup_name nm s = Some d \<longrightarrow> file_type d = 2" and fd: "free_fd (find_PCB (cur_pid s)) s \<noteq> None"
    and msg: "says (kernel_if env) (lit (asc ''file not found'' @ [10])) (asc ''file not found'' @ [10]) s"
      "disjnt_rng buf 1024 (lit (asc ''file not found'' @ [10])) 16"
  defines "echoed \<equiv> fold grid_putc (asc ''getargs buf: '' @ nm @ [10]) (display s)"
  shows "\<exists>t. user_ok env t \<and> (case lookup_name nm s of
      None \<Rightarrow> cat_main (kernel_if env) lit buf s = Some (Inr (2, t)) \<and>
        display t = put_bytes (asc ''file not found'' @ [10]) echoed
    | Some d \<Rightarrow> cat_main (kernel_if env) lit buf s = Some (Inr (0, t)) \<and>
        display t = fold put_bytes (chunks (file_contents (inode_index d) s)) echoed)"
proof -
  have a: "args (world_of s) = nm" "0 \<notin> set nm" using args_of[OF arg(1)] arg(3) by simp_all
  show ?thesis
  proof (cases "lookup_name nm s")
    case None
    then have "entry (world_of s) nm = None" by (simp add: entry_lookup)
    from prog.cat_main_missing[where lit = lit, OF ok buf a(1) arg(2,3) a(2) this msg] None show ?thesis by (auto simp: echoed_def)
  next
    case (Some d)
    then have e: "entry (world_of s) nm = Some (Stream (file_contents (inode_index d) s))" using ty by (simp add: entry_lookup)
    obtain k where k: "fresh (world_of s) = Some k" using fd fresh_fd[OF ok] by auto
    from prog.cat_main_shows[where lit = lit, OF ok buf a(1) arg(2,3) a(2) k e] Some show ?thesis by (auto simp: echoed_def)
  qed
qed

text \<open>
  C8: \<open>ls\<close>. If the directory is an entry of its own and a descriptor is free, the program terminates
  with result 0. The screen shows the names of the directory in order, each once and on a line of its
  own, from the position at which the last reader left the directory: opening it does not go back
  to the beginning. So all names are shown when the position is 0, which it is after \<open>ls\<close>.
\<close>

theorem ls_lists_directory:
  assumes ok: "user_ok env s" and buf: "in_page buf 33"
    and dot: "cstr (user_view s) (lit (asc ''.'')) (asc ''.'')" "in_page (lit (asc ''.'')) 32"
    and dir: "lookup_name (asc ''.'') s = Some d" "file_type d = 1" and fd: "free_fd (find_PCB (cur_pid s)) s \<noteq> None"
  shows "\<exists>t. ls_main (kernel_if env) lit buf s = Some (Inr (0, t)) \<and> user_ok env t \<and> dr_index t = 0 \<and>
    display t = fold grid_putc
      (concat (map (\<lambda>d. filter (\<lambda>c. c \<noteq> 0) (name d) @ [10])
        (drop (unat (dr_index s)) (take (unat (dentry_count (boot_block s))) (dentries (boot_block s))))))
      (display s)"
proof -
  let ?ds = "drop (unat (dr_index s)) (take (unat (dentry_count (boot_block s))) (dentries (boot_block s)))"
  obtain k where k: "fresh (world_of s) = Some k" using fd fresh_fd[OF ok] by auto
  have "entry (world_of s) (asc ''.'') = Some Directory" using dir by (simp add: entry_lookup)
  then obtain t where t: "ls_main (kernel_if env) lit buf s = Some (Inr (0, t))" "user_ok env t" "unat (dr_index t) = 0"
    "display t = fold (\<lambda>nm. put_bytes (nm @ [10])) (drop (unat (dr_index s)) (listing (world_of s))) (display s)"
    using prog.ls_main_shows[where lit = lit, OF ok buf _ dot(2) k] dot(1) by auto
  have lines: "fold (\<lambda>nm. put_bytes (nm @ [10])) ns e = fold grid_putc (concat (map (\<lambda>nm. filter (\<lambda>c. c \<noteq> 0) nm @ [10]) ns)) e"
    if "\<And>nm. nm \<in> set ns \<Longrightarrow> length nm = 32" for ns e
    using that by (induction ns arbitrary: e) (simp_all add: put_bytes_short)
  have "drop (unat (dr_index s)) (listing (world_of s)) = map name ?ds" by (simp add: world_of_def drop_map)
  moreover have "length nm = 32" if "nm \<in> set (drop (unat (dr_index s)) (listing (world_of s)))" for nm
    using names_law[OF ok in_set_dropD[OF that]] .
  ultimately have "display t = fold grid_putc (concat (map (\<lambda>d. filter (\<lambda>c. c \<noteq> 0) (name d) @ [10]) ?ds)) (display s)"
    using t(4) lines[of "drop (unat (dr_index s)) (listing (world_of s))"] by (simp only: map_map comp_def)
  then show ?thesis using t by (auto simp: unat_eq_0)
qed

text \<open>
  C7: the tests of the kernel by the program \<open>syserr\<close>. In a process that has opened no file, with
  the directory an entry of its own and no file under the two misspelt names, all eight tests pass:
  the kernel refuses each of the bad requests, six files can be opened and no seventh, and the
  screen shows the nine lines that say so. The result is 0, and the descriptors are as before.
\<close>

theorem syserr_all_pass:
  assumes "user_ok env s" "syserr_ready (kernel_if env) lit (world_of s) s"
  shows "\<exists>t. syserr_select (kernel_if env) lit locals 0 s = Some (Inr (0, t)) \<and> user_ok env t \<and>
    display t = fold put_bytes (map pass_message syserr_names @ [pass_overall]) (display s) \<and>
    handles (world_of t) = handles (world_of s)"
proof -
  obtain t where t: "syserr_select (kernel_if env) lit locals 0 s = Some (Inr (0, t))" "user_ok env t"
    "world_of t = (world_of s)\<lparr>shown := fold put_bytes (map pass_message syserr_names @ [pass_overall]) (shown (world_of s))\<rparr>"
    using prog.syserr_passes[OF assms, of locals] by blast
  have "display t = shown (world_of t)" by simp
  also have "\<dots> = fold put_bytes (map pass_message syserr_names @ [pass_overall]) (display s)" unfolding t(3) by simp
  finally show ?thesis using t by auto
qed

section \<open>Witnesses\<close>

text \<open>
  Process 0 with the argument \<^verbatim>\<open>prog\<close> on a file system with the directory and a file; its page
  holds the strings of the programs from 0x8100000 on, 64 bytes apart.
\<close>

definition demo_lits :: "bytes list" where
  "demo_lits = [asc ''file not found'' @ [10], asc ''.'', asc ''helloo'', asc ''shel'', []] @ map pass_message syserr_names @ [pass_overall]"

definition demo_lit :: "bytes \<Rightarrow> ptr" where
  "demo_lit bs = 0x8100000 + 64 * of_nat (length (takeWhile (\<lambda>l. l \<noteq> bs) demo_lits))"

definition demo_page :: mem where
  "demo_page a = (let q = unat a - 0x900000; l = demo_lits ! (q div 64) in
     if 0x900000 \<le> unat a \<and> q div 64 < length demo_lits \<and> q mod 64 < length l then l ! (q mod 64) else 0)"

definition demo_low :: mem where
  "demo_low = wr_bytes (wr_bytes (st32 (st32 (st32 (st32 demo_kmem 0x7FE000 0x410000) 0x7FE00C 1) 0x7FE030 0x410000) 0x7FE03C 1)
     0x503000 demo_file) 0x7FE180 (asc ''prog'' @ [0])"

definition demo_umem :: mem where
  "demo_umem a = (if unat a < 0x800000 then demo_low a else demo_page a)"

definition demo_dot :: dentry where
  "demo_dot = \<lparr>name = asc ''.'' @ replicate 31 0, file_type = 1, inode_index = 0, reserved = replicate 24 0\<rparr>"

definition demo_bb :: boot_block_t where
  "demo_bb = \<lparr>dentry_count = 2, inode_count = 2, data_count = 1, dentries = demo_dot # replicate 62 demo_dentry\<rparr>"

definition demo_user :: kernel where
  "demo_user = (snd (map_v_p 0x8000000 0x800000 1 1 1 demo_kernel))\<lparr>mem := demo_umem, boot_block := demo_bb\<rparr>"

definition demo_uenv :: sys_env where
  "demo_uenv = \<lparr>env_loc = demo_locals, prompt_str = 0x410060, read_buffer = 0x700500, write_buffer = 0x700800, arrivals = []\<rparr>"

lemma demo_user_eq:
  obtains pd where "demo_user = demo_kernel\<lparr>page_dir := pd, mem := demo_umem, boot_block := demo_bb\<rparr>"
    "kernel_mapped demo_user" "own_frame 0 demo_user"
proof -
  have f: "user_frame 0 = 0x800000" by (simp add: user_frame_def)
  obtain pd where pd: "snd (map_v_p 0x8000000 0x800000 1 1 1 demo_kernel) = demo_kernel\<lparr>page_dir := pd\<rparr>"
    "kernel_mapped (demo_kernel\<lparr>page_dir := pd\<rparr>)" "own_frame 0 (demo_kernel\<lparr>page_dir := pd\<rparr>)"
    using map_user_page[OF demo_kernel_mapped, of 0] unfolding f own_frame_def by auto
  have e: "demo_user = demo_kernel\<lparr>page_dir := pd, mem := demo_umem, boot_block := demo_bb\<rparr>"
    by (simp add: demo_user_def pd(1))
  have "low_mapped (demo_kernel\<lparr>page_dir := pd\<rparr>)" using pd(2) by (simp add: kernel_mapped_def)
  note w = walk_cong[OF this, of demo_user]
  show thesis using that[OF e] pd(2,3) w by (simp add: e own_frame_def)
qed

lemma demo_user_fields [simp]:
  "mem demo_user = demo_umem" "filesys_addr demo_user = 0x500000" "boot_block demo_user = demo_bb" "dr_index demo_user = 0"
  "terminal_funcs demo_user = 0x410000" "rtc_funcs demo_user = 0x410010" "fsys_funcs demo_user = 0x410020" "dir_funcs demo_user = 0x410030"
  "video_mem demo_user = VIDEO" "screen_x demo_user = 5" "screen_y demo_user = 3" "cur_pid demo_user = 0" "get_key_index demo_user = 0"
  "running_terminal demo_user = 0"
proof -
  obtain pd where e: "demo_user = demo_kernel\<lparr>page_dir := pd, mem := demo_umem, boot_block := demo_bb\<rparr>" by (rule demo_user_eq)
  show "mem demo_user = demo_umem" "filesys_addr demo_user = 0x500000" "boot_block demo_user = demo_bb" "dr_index demo_user = 0"
    "terminal_funcs demo_user = 0x410000" "rtc_funcs demo_user = 0x410010" "fsys_funcs demo_user = 0x410020" "dir_funcs demo_user = 0x410030"
    "video_mem demo_user = VIDEO" "screen_x demo_user = 5" "screen_y demo_user = 3" "cur_pid demo_user = 0" "get_key_index demo_user = 0"
    "running_terminal demo_user = 0"
    unfolding e by (simp_all add: cur_pid_def get_key_index_def)
qed

lemma demo_bb_fields [simp]:
  "dentry_count demo_bb = 2" "inode_count demo_bb = 2" "data_count demo_bb = 1" "dentries demo_bb = demo_dot # replicate 62 demo_dentry"
  by (simp_all add: demo_bb_def)

lemma demo_pcb [simp]: "find_PCB 0 = 0x7FE000"
  by (simp add: find_PCB_def)

lemma demo_user_lits:
  assumes "l \<in> set demo_lits"
  shows "cstr (user_view demo_user) (demo_lit l) l" "in_page (demo_lit l) 64"
proof -
  let ?i = "length (takeWhile (\<lambda>x. x \<noteq> l) demo_lits)"
  have len: "length demo_lits = 14" by (simp add: demo_lits_def syserr_names_def)
  have all: "\<forall>l \<in> set demo_lits. length l < 64 \<and> 0 \<notin> set l"
    by (simp add: demo_lits_def syserr_names_def pass_message_def pass_overall_def asc_def of_char_def)
  have lt: "?i < length demo_lits" 
    using assms takeWhile_eq_all_conv[of "\<lambda>x. x \<noteq> l" demo_lits] length_takeWhile_le[of "\<lambda>x. x \<noteq> l" demo_lits]
      takeWhile_eq_take[of "\<lambda>x. x \<noteq> l" demo_lits] by (cases "?i = length demo_lits") auto
  have at: "demo_lits ! ?i = l" using nth_length_takeWhile[OF lt] by simp
  have i: "?i < 14" using lt len by simp
  have ad: "unat (demo_lit l) = 0x8100000 + 64 * ?i" using i by (simp add: demo_lit_def unat_word_ariths)
  show "in_page (demo_lit l) 64" using i ad by (simp add: in_page_def)
  have byte: "user_view demo_user (demo_lit l + of_nat k) = (if k < length l then l ! k else 0)" if "k < 64" for k
  proof -
    have u: "unat (demo_lit l + of_nat k) = 0x8100000 + 64 * ?i + k" using ad i that by (simp add: unat_word_ariths)
    have "in_page (demo_lit l + of_nat k) 1" using u i that by (simp add: in_page_def)
    moreover have p: "phys demo_user (demo_lit l + of_nat k) = 0x900000 + of_nat (64 * ?i + k)"
      by (simp add: phys_def user_frame_def demo_lit_def)
    moreover have "unat (0x900000 + of_nat (64 * ?i + k) :: u32) = 0x900000 + (64 * ?i + k)"
      using i that by (simp add: unat_word_ariths)
    moreover have "(64 * ?i + k) div 64 = ?i" "(64 * ?i + k) mod 64 = k" using that by simp_all
    ultimately show ?thesis
      using at lt by (simp add: user_view_def demo_umem_def demo_page_def del: of_nat_add of_nat_mult)
  qed
  have l: "length l < 64" "0 \<notin> set l" using all assms by auto
  have "rd_bytes (user_view demo_user) (demo_lit l) (length l) = l"
    using l(1) byte by (intro nth_equalityI) simp_all
  then show "cstr (user_view demo_user) (demo_lit l) l" using l byte by (simp add: cstr_iff)
qed

lemma demo_user_fds:
  "j < 2 \<Longrightarrow> fd_view 0x7FE000 j demo_user = Some (0x410000, 0, 0)"
  "2 \<le> j \<Longrightarrow> j < 8 \<Longrightarrow> fd_view 0x7FE000 j demo_user = None"
proof -
  have m: "ld_field 0x7FE000 i demo_user = ld32 (st32 (st32 (st32 (st32 demo_kmem 0x7FE000 0x410000) 0x7FE00C 1) 0x7FE030 0x410000) 0x7FE03C 1)
    (0x7FE000 + of_nat i)" if "i + 4 \<le> 384" for i
    unfolding ld_field_def
  proof (rule ld32_cong)
    fix a :: u32
    assume a: "in_rng (0x7FE000 + of_nat i) 4 a"
    have "unat (0x7FE000 + of_nat i :: u32) = 0x7FE000 + i" using that by (simp add: unat_word_ariths)
    then have "0x7FE000 \<le> unat a" "unat a < 0x7FE180" using a that by (auto simp: in_rng_unat)
    then show "mem demo_user a = st32 (st32 (st32 (st32 demo_kmem 0x7FE000 0x410000) 0x7FE00C 1) 0x7FE030 0x410000) 0x7FE03C 1 a"
      by (simp add: demo_umem_def demo_low_def wr_bytes_out in_rng_unat length_demo_file asc_def)
  qed
  show "fd_view 0x7FE000 j demo_user = Some (0x410000, 0, 0)" if "j < 2"
    using that by (auto simp: less_2_cases_iff fd_view_def fd_off_def m ld32_apart demo_unused)
  show "fd_view 0x7FE000 j demo_user = None" if "2 \<le> j" "j < 8"
  proof -
    have "j \<in> {2, 3, 4, 5, 6, 7}" using that by auto
    then show ?thesis by (auto simp: fd_view_def fd_off_def m ld32_apart demo_unused)
  qed
qed

lemma demo_user_free: "free_fd (find_PCB (cur_pid demo_user)) demo_user \<noteq> None"
  using demo_user_fds(2)[of 2] by (auto simp: free_fd_def upt_rec[of 2] fd_view_def split: if_splits)

lemma demo_user_args: "cstr demo_umem 0x7FE180 (asc ''prog'')"
proof -
  have "cstr demo_low 0x7FE180 (asc ''prog'')"
    unfolding demo_low_def by (rule cstr_wr_bytes) (simp_all add: asc_def of_char_def)
  then show ?thesis by (subst cstr_cong[of _ _ _ demo_low]) (auto simp: demo_umem_def in_rng_unat asc_def)
qed

lemma demo_entries: "take 2 (dentries demo_bb) = [demo_dot, demo_dentry]"
  by simp

lemma demo_user_lookup:
  "lookup_name (asc ''.'') demo_user = Some demo_dot" "lookup_name (asc ''prog'') demo_user = Some demo_dentry"
  "lookup_name (asc ''helloo'') demo_user = None" "lookup_name (asc ''shel'') demo_user = None"
  "lookup_name nm demo_user = Some d \<Longrightarrow> d = demo_dot \<or> d = demo_dentry"
proof -
  have l: "lookup_name nm demo_user = (if nm = [] then None else find (named nm) [demo_dot, demo_dentry])" for nm
    using demo_entries by (simp add: lookup_name_def)
  show "lookup_name nm demo_user = Some d \<Longrightarrow> d = demo_dot \<or> d = demo_dentry" by (auto simp: l split: if_splits)
  have n: "dname demo_dot = asc ''.''" "dname demo_dentry = asc ''prog''"
    by (simp_all add: dname_def demo_dot_def demo_dentry_def asc_def of_char_def)
  show "lookup_name (asc ''.'') demo_user = Some demo_dot" "lookup_name (asc ''prog'') demo_user = Some demo_dentry"
    "lookup_name (asc ''helloo'') demo_user = None" "lookup_name (asc ''shel'') demo_user = None"
    unfolding l by (simp_all add: named_def n asc_def of_char_def)
qed

lemma demo_user_inode: "length_of (load_inode demo_umem 0x501000) = 28" "data_indices (load_inode demo_umem 0x501000) ! 0 = 0"
proof -
  have "demo_umem a = demo_fs_mem a" if "0x501000 \<le> unat a" "unat a < 0x502000" for a
    using that by (simp add: demo_umem_def demo_low_def demo_kmem_def wr_bytes_out st32_out in_rng_unat length_demo_file asc_def)
  then have "ld32 demo_umem p = ld32 demo_fs_mem p" if "p = 0x501000 \<or> p = 0x501004" for p
    using that by (intro ld32_cong) (auto simp: in_rng_unat)
  then show "length_of (load_inode demo_umem 0x501000) = 28" "data_indices (load_inode demo_umem 0x501000) ! 0 = 0"
    by (simp_all add: load_inode_def demo_ld)
qed

lemma demo_user_contents: "file_contents 0 demo_user = demo_file"
proof -
  have "data_addr 0x503000 (load_inode demo_umem 0x501000) (of_nat p) = 0x503000 + of_nat p" if "p < 28" for p
  proof -
    have "(of_nat p :: u32) AND 0xFFF = of_nat p"
      unfolding page_masks(3) using that by (intro less_mask_eq) (simp add: word_less_nat_alt)
    then show ?thesis using that demo_user_inode(2) by (simp add: data_addr_def drop_low_bits)
  qed
  moreover have "demo_umem (0x503000 + of_nat p) = demo_file ! p" if "p < 28" for p
  proof -
    have u: "unat (0x503000 + of_nat p :: u32) = 0x503000 + p" using that by (simp add: unat_word_ariths)
    have "wr_bytes m 0x503000 demo_file (0x503000 + of_nat p) = demo_file ! p" for m
      using that by (intro wr_bytes_in) (simp_all add: length_demo_file)
    then show ?thesis using that by (simp add: demo_umem_def demo_low_def wr_bytes_out in_rng_unat u asc_def)
  qed
  ultimately show ?thesis
    by (intro nth_equalityI) (simp_all add: file_contents_def contents_def data_base_def inode_addr_def demo_user_inode length_demo_file)
qed

lemma demo_user_ok: "user_ok demo_uenv demo_user"
proof -
  have img: "in_image demo_user a \<longleftrightarrow> in_rng 0x500000 16384 a" for a by (simp add: in_image_def image_size_def)
  have lay: "user_layout demo_uenv demo_user"
    unfolding user_layout_def img by (auto simp: demo_uenv_def demo_locals_def in_rng_unat)
  have "inode_wf 0 demo_user"
    by (simp add: inode_wf_def inode_ok_def inode_addr_def demo_user_inode)
  moreover have "file_type demo_dot = 1" "inode_index demo_dentry = 0" by (simp_all add: demo_dot_def demo_dentry_def)
  ultimately have "inode_wf (inode_index d) demo_user" if "lookup_name nm demo_user = Some d" "file_type d = 2" for nm d
    using demo_user_lookup(5)[OF that(1)] that(2) by auto
  moreover have "fs_wf demo_user" by (auto simp: fs_wf_def boot_ok_def image_size_def demo_dot_def demo_dentry_def asc_def)
  ultimately have "files_ok demo_user" unfolding files_ok_def by auto
  moreover have "fd_ok demo_user (fd_view 0x7FE000 j demo_user)" if "j < 8" for j
    using demo_user_fds[of j] that by (cases "j < 2") (simp_all add: fd_ok_def)
  then have "fds_ok demo_user" unfolding fds_ok_def using demo_user_fds(1) by simp
  moreover have "proc_runs demo_user" "own_frame 0 demo_user"
    using demo_user_eq by (auto simp: proc_runs_def)
  ultimately show ?thesis
    using lay demo_user_args by (auto simp: user_ok_def on_screen_def asc_def intro!: exI[of _ "asc ''prog''"])
qed

theorem cat_prints_file_witness:
  "\<exists>t. cat_main (kernel_if demo_uenv) demo_lit 0x8200000 demo_user = Some (Inr (0, t)) \<and>
    display t = put_bytes demo_file (fold grid_putc (asc ''getargs buf: prog'' @ [10]) (display demo_user))"
proof -
  have in1: "asc ''file not found'' @ [10] \<in> set demo_lits" by (simp add: demo_lits_def)
  note m = demo_user_lits[OF in1]
  have says: "says (kernel_if demo_uenv) (demo_lit (asc ''file not found'' @ [10])) (asc ''file not found'' @ [10]) demo_user"
    using m by (simp add: says_def in_page_def asc_def)
  have dj: "disjnt_rng 0x8200000 1024 (demo_lit (asc ''file not found'' @ [10])) 16"
    by (rule disjnt_rng_sym, rule disjnt_rng_below) (simp_all add: demo_lit_def demo_lits_def)
  have ch: "chunks demo_file = [demo_file]"
    using length_demo_file by (simp add: chunks.simps[of demo_file] chunks.simps[of "[]"]) auto
  have ty: "\<forall>d. lookup_name (asc ''prog'') demo_user = Some d \<longrightarrow> file_type d = 2"
    by (simp add: demo_user_lookup demo_dentry_def)
  have p: "in_page 0x8200000 1024" by (simp add: in_page_def)
  have a: "cstr (mem demo_user) (find_PCB (cur_pid demo_user) + 384) (asc ''prog'')" "asc ''prog'' \<noteq> []" "length (asc ''prog'') \<le> 31"
    using demo_user_args by (simp_all add: asc_def)
  have "\<exists>t. user_ok demo_uenv t \<and> cat_main (kernel_if demo_uenv) demo_lit 0x8200000 demo_user = Some (Inr (0, t)) \<and>
    display t = fold put_bytes (chunks demo_file) (fold grid_putc (asc ''getargs buf: '' @ asc ''prog'' @ [10]) (display demo_user))"
    using cat_prints_file[where lit = demo_lit, OF demo_user_ok p a ty demo_user_free says dj] demo_user_contents
    by (simp add: demo_user_lookup(2) demo_dentry_def)
  then show ?thesis unfolding ch by (auto simp: asc_def)
qed

theorem ls_lists_directory_witness:
  "\<exists>t. ls_main (kernel_if demo_uenv) demo_lit 0x8200000 demo_user = Some (Inr (0, t)) \<and>
    display t = fold grid_putc (asc ''.'' @ [10] @ asc ''prog'' @ [10]) (display demo_user)"
proof -
  have in1: "asc ''.'' \<in> set demo_lits" by (simp add: demo_lits_def)
  note m = demo_user_lits[OF in1]
  have p: "in_page 0x8200000 33" and p2: "in_page (demo_lit (asc ''.'')) 32" using m(2) by (simp_all add: in_page_def)
  have ty: "file_type demo_dot = 1" by (simp add: demo_dot_def)
  have names: "filter (\<lambda>c. c \<noteq> 0) (name demo_dot) = asc ''.''" "filter (\<lambda>c. c \<noteq> 0) (name demo_dentry) = asc ''prog''"
    by (simp_all add: demo_dot_def demo_dentry_def asc_def of_char_def)
  show ?thesis
    using ls_lists_directory[where lit = demo_lit, OF demo_user_ok p m(1) p2 demo_user_lookup(1) ty demo_user_free] names demo_entries by auto
qed

theorem syserr_all_pass_witness:
  "\<exists>t. syserr_select (kernel_if demo_uenv) demo_lit (\<lambda>i. 0x8200000 + 64 * of_nat i) 0 demo_user = Some (Inr (0, t)) \<and>
    display t = fold put_bytes (map pass_message syserr_names @ [pass_overall]) (display demo_user)"
proof -
  have "entry (world_of demo_user) (asc ''.'') = Some Directory" "entry (world_of demo_user) (asc ''helloo'') = None"
    "entry (world_of demo_user) (asc ''shel'') = None" "entry (world_of demo_user) [] = None"
    using demo_user_lookup by (simp_all add: entry_lookup demo_dot_def) (simp add: lookup_name_def)
  moreover have "handles (world_of demo_user) j = None" if "2 \<le> j" "j < 8" for j
    using demo_user_fds(2)[OF that] by (simp add: world_of_def handle_of_def)
  moreover have "says (kernel_if demo_uenv) (demo_lit m) m demo_user" if "m \<in> set (map pass_message syserr_names @ [pass_overall])" for m
  proof -
    have "m \<in> set demo_lits" using that by (auto simp: demo_lits_def)
    note l = demo_user_lits[OF this]
    have "\<forall>m \<in> set (map pass_message syserr_names @ [pass_overall]). 0 < length m \<and> length m \<le> 64"
      by (simp add: syserr_names_def pass_message_def pass_overall_def asc_def)
    then show ?thesis using that l by (auto simp: says_def in_page_def)
  qed
  moreover have "cstr (user_view demo_user) (demo_lit n) n \<and> in_page (demo_lit n) 32" if "n \<in> {asc ''.'', asc ''helloo'', asc ''shel'', []}" for n
    using that demo_user_lits[of n] by (auto simp: demo_lits_def in_page_def)
  ultimately have "syserr_ready (kernel_if demo_uenv) demo_lit (world_of demo_user) demo_user"
    unfolding syserr_ready_def by simp
  from syserr_all_pass[OF demo_user_ok this, of "\<lambda>i. 0x8200000 + 64 * of_nat i"] show ?thesis by auto
qed

end
