(* ===== verification/Spec2Isabelle.thy ===== *)
theory Spec2Isabelle
  imports Prelude Char_Util Arg_Util Lib_String Machine Console Rtc Paging Filesys Terminal Process
    Proc_Table File_Io Exec Keyboard Term_Read Syscalls Interrupts Boot User_Lib User_Prog User_Run
begin

text \<open>
  \<^bold>\<open>A verification development for the teaching kernel under \<^verbatim>\<open>src/student-distrib\<close>.\<close>

  The program is a small operating system for the x86: three terminals on one screen, a read-only
  file system in memory, up to six processes, ten system calls, and drivers for the keyboard, the
  real time clock, the interrupt controller and the text screen. Everything is one state that the
  handlers of interrupts and system calls update. The development follows this: a record of the
  machine that each theory extends by the variables of its component, and one function per C
  function, in the order of the code, that takes and returns the state.

  \<^bold>\<open>Conventions.\<close> Machine integers are words of their width, except that an \<^verbatim>\<open>int32_t\<close> that cannot
  overflow is an \<open>int\<close>. Memory is a function from 32-bit addresses to bytes; structures in memory
  are read and written at their offsets. A pointer that a program passes is translated through the
  page tables of the state (\<open>deref\<close> and \<open>lin\<close>). Faults of the processor and array indices out of range are the left side
  of a sum, loops that need not end are \<open>partial_function (option)\<close>, and where both can happen the
  result is \<open>(fault + 'a) option\<close>. Device registers are a trace of port accesses together with a function
  that answers reads from the trace. Control that does not come back to its caller is a value too:
  \<open>flow\<close> for \<open>execute\<close> and \<open>halt\<close>, \<open>kflow\<close> for handlers that may resume another process, \<open>ending\<close>
  for interrupts. Addresses of local variables, of literals and of functions are parameters.

  \<^bold>\<open>Theories, and the files that they model.\<close>

  \<^item> \<open>Prelude\<close>: types, ranges of memory, C strings, reachable states, and the interface of an
    invariant that operations preserve.
  \<^item> \<open>Char_Util\<close>, \<open>Arg_Util\<close>: \<^verbatim>\<open>utils/char_util.c\<close>, \<^verbatim>\<open>utils/arg_util.c\<close>. The argument functions
    return exactly the words of the command line.
  \<^item> \<open>Lib_String\<close>, \<open>Console\<close>: \<^verbatim>\<open>lib.c\<close>. The three-phase memory routines copy and fill what they
    should; the console refines a grid of characters with a cursor, and \<open>printf\<close> prints what a
    reference rendering of its format gives.
  \<^item> \<open>Machine\<close>: ports, the interrupt flag, \<^verbatim>\<open>i8259.c\<close> over a model of the two controllers.
  \<^item> \<open>Rtc\<close>: \<^verbatim>\<open>rtc.c\<close>, \<^verbatim>\<open>utils/clock_util.c\<close>, \<^verbatim>\<open>pit.c\<close>. Reachability by rule induction shows the
    handler free of faults; readers return after one period of the virtual clock.
  \<^item> \<open>Paging\<close>: \<^verbatim>\<open>paging.c\<close> and the entries of \<^verbatim>\<open>x86_desc.h\<close>, against a page walk as the processor
    does it.
  \<^item> \<open>Filesys\<close>: \<^verbatim>\<open>filesys.c\<close>, \<^verbatim>\<open>filesys.h\<close>, \<open>is_executable\<close>. Reads are slices of the abstract
    contents of a file, the directory is its list of entries.
  \<^item> \<open>Terminal\<close>: the terminals of \<^verbatim>\<open>terminal.c\<close>, their screens and writing.
  \<^item> \<open>Process\<close>, \<open>Proc_Table\<close>, \<open>File_Io\<close>: the control blocks, descriptors and process table of
    \<^verbatim>\<open>syscalls.c\<close>, \<open>open\<close> and \<open>close\<close>, \<^verbatim>\<open>sched.c\<close>, and \<open>file_read\<close> as a stream.
  \<^item> \<open>Exec\<close>: \<open>execute\<close>, from the command line to the entry of the program.
  \<^item> \<open>Keyboard\<close>, \<open>Term_Read\<close>: the keyboard handler and \<open>terminal_read\<close> of \<^verbatim>\<open>terminal.c\<close>, against a
    reference line editor.
  \<^item> \<open>Syscalls\<close>: \<open>halt\<close> and the remaining system calls, the dispatch of \<^verbatim>\<open>syscall_link.S\<close>.
  \<^item> \<open>Interrupts\<close>: \<^verbatim>\<open>idt.c\<close>, \<^verbatim>\<open>irq_handle.c\<close>, \<^verbatim>\<open>link_idt.S\<close>, \<open>pit_handler\<close>, and the delivery of
    an interrupt through the table.
  \<^item> \<open>Boot\<close>: \<open>entry\<close> of \<^verbatim>\<open>kernel.c\<close> (\<open>entry_point\<close>), the segment descriptors, and the proof that the
    initialisers establish the invariants that the other theories assume.
  \<^item> \<open>User_Lib\<close>, \<open>User_Prog\<close>: the library and the programs under \<^verbatim>\<open>src/syscalls\<close>, over an interface
    of a program to its memory and to the kernel. The locale \<open>program_calls\<close> states what programs
    rely on; from it follows what \<^verbatim>\<open>cat\<close>, \<^verbatim>\<open>ls\<close> and \<^verbatim>\<open>syserr\<close> do. The library agrees with that of the
    kernel.
  \<^item> \<open>User_Run\<close>: the system calls of \<open>Syscalls\<close> as an instance of that locale, and so the programs
    on this kernel, from their arguments to the screen.

  \<^bold>\<open>What the theorems show.\<close> For each component that its operations do what their callers rely
  on, on every branch: functional behaviour and refinement of an abstract view, the invariants
  that all operations keep, termination of the loops, round trips, and the refusal of bad
  requests. Some theorems state what the code does where that is not what it is meant to do, among them that
  \<open>halt\<close> closes the files of the parent, that one frequency of the clock makes the next interrupt
  divide by zero, that lines of the slave controller without a driver are acknowledged at the
  master only, that \<open>ls\<close> begins where the last reader of the directory stopped, and that a file name of 32
  characters and a full line of input overrun their buffers.

  \<^bold>\<open>Bounds.\<close> There is no fuel: loops over memory are partial functions in \<open>option\<close> and the theorems
  state that they return. Waiting loops take the interrupts that arrive as a list, or run the clock handler as
  often as needed; a reader that is still waiting at the end of the list is \<open>None\<close>. To a program a
  system call that resumes or enters another process does not come back, which is \<open>None\<close> too.

  \<^bold>\<open>Not modelled.\<close> The cache of the page tables (a mapping is in force at once), the saving of
  general registers on kernel stacks, preemption inside of a handler except where the code waits
  with interrupts enabled, the assembly of \<^verbatim>\<open>boot.S\<close> before \<open>entry\<close>, the self-tests, which are not
  called, and the debugging aid \<^verbatim>\<open>print_file_info\<close>. Of the programs, \<^verbatim>\<open>sigtest\<close>, which needs the signals
  that the kernel does not have and otherwise stores through a null pointer, \<^verbatim>\<open>fish\<close>, whose animation is
  assembly, and \<^verbatim>\<open>ece391emulate.c\<close>, which replaces the kernel by Linux. What programs do is proved for
  \<^verbatim>\<open>cat\<close>, \<^verbatim>\<open>ls\<close> and \<^verbatim>\<open>syserr\<close>; those that read lines, wait for the clock or start programs are
  modelled, and their parts that only compute are proved.
\<close>


section \<open>From the boot loader to the first program\<close>

text \<open>
  What the first shell needs of the loaded image: the file system that the boot loader placed at
  \<open>fs\<close> is in the page of the kernel and contains a program \<^verbatim>\<open>shell\<close>, the two literals are where the
  linker put them, and the local variables of \<open>execute\<close> are apart from all that.
\<close>

definition shell_image :: "exec_locals \<Rightarrow> dentry \<Rightarrow> 'a kernel_scheme \<Rightarrow> bool" where
  "shell_image loc d s \<longleftrightarrow> exec_layout loc s \<and> fs_wf s \<and> elf_program (asc ''shell'') d s \<and>
    (\<forall>a. in_image s a \<longrightarrow> 0x400000 \<le> unat a) \<and>
    cstr (mem s) (elf_str s) (asc ''ELF'') \<and> cstr (mem s) (shell_str s) (asc ''shell'') \<and>
    0x400000 \<le> unat (elf_str s) \<and> unat (elf_str s) < 0x7FFF00 \<and>
    0x400000 \<le> unat (shell_str s) \<and> unat (shell_str s) < 0x7FFF00 \<and>
    disjnt_rng (all_arguments_copy loc) 128 (shell_str s) 128"

lemma kernel_strings:
  assumes "cstr m p bs" "0x400000 \<le> unat p" "unat p < 0x7FFF00" "length bs < 128"
    and "\<And>a. 0x400000 \<le> unat a \<Longrightarrow> m' a = m a"
  shows "cstr m' p bs"
proof -
  have "m' a = m a" if "in_rng p (Suc (length bs)) a" for a
    using that assms(2-5) in_rng_unat[of p "Suc (length bs)" a] by auto
  then show ?thesis using assms(1,4) cstr_cong[of p bs m m'] by auto
qed

text \<open>
  C3: the first program. From a loaded image with a file system that contains a shell, the
  initialisation succeeds and \<open>execute\<close> enters the shell in slot 0 on the first terminal, without a
  parent: its page holds the contents of the file, its control block the empty argument string and
  the two descriptors of the terminal, and the entry point is the one in the header of the file.
\<close>

theorem boot_starts_shell:
  assumes ld: "loaded s" and img: "shell_image (boot_loc be) d (init_filesys (mod_start (mods_addr mbi s) s) s)"
  defines "prog \<equiv> file_contents (inode_index d) (init_filesys (mod_start (mods_addr mbi s) s) s)"
  shows "\<exists>t u eip. init_devices be mbi s = Some (Inr t) \<and>
    start_shell (boot_loc be) t = Some (Inr (Runs (To_User eip USER_PROCESS_STACK), u)) \<and>
    le_bytes4 eip = take 4 (drop 24 prog) \<and> started 0 (- 1) (asc ''shell'') prog t u \<and>
    procs u = [1, 0, 0, 0, 0, 0] \<and> term_procs u = [0, - 1, - 1, - 1, - 1, - 1] \<and> cur_pid u = 0 \<and> table_ok u"
proof -
  let ?f = "init_filesys (mod_start (mods_addr mbi s) s) s" and ?loc = "boot_loc be" and ?w = "asc ''shell''"
  obtain t where t: "init_devices be mbi s = Some (Inr t)" "kernel_mapped t" "table_ok t" "procs t = replicate 6 0" "running_terminal t = 0"
    "cur_pid t = - 1" "filesys_addr t = filesys_addr ?f" "boot_block t = boot_block ?f"
    "\<And>a. \<not> in_rng VIDEO 4000 a \<Longrightarrow> \<not> in_terms a \<Longrightarrow> mem t a = mem s a"
    "term_procs t = replicate 6 (- 1)" "running_procs t = [- 1, - 1, - 1]" "elf_str t = elf_str ?f" "shell_str t = shell_str ?f"
    using init_devices_state[OF ld, of be mbi] by (auto simp: init_filesys_def)
  have mt: "mem t a = mem ?f a" if "0x400000 \<le> unat a" for a
    using that t(9)[of a] by (simp add: in_terms_def in_rng_unat init_filesys_def)
  note im = img[unfolded shell_image_def]
  have same: "same_fs ?f t" using im mt t(7,8) by (auto simp: same_fs_def)
  have lay: "exec_layout ?loc t" using im t(12) in_image_cong[OF same] by (simp add: exec_layout_def)
  have fs: "fs_wf t" using im t(7,8) by (simp add: fs_wf_def image_size_def)
  have elf: "cstr (mem t) (elf_str t) (asc ''ELF'')"
    unfolding t(12) by (rule kernel_strings[of "mem ?f"]) (use im mt in \<open>simp_all add: asc_def\<close>)
  have cs: "cstr (mem t) (shell_str t) ?w"
    unfolding t(13) by (rule kernel_strings[of "mem ?f"]) (use im mt in \<open>simp_all add: asc_def\<close>)
  have "deref (shell_str t) t = Inr (shell_str t)" using deref_kernel[OF t(2)] im t(13) by simp
  then have cmd: "command_arg ?loc (dechar (shell_str t)) (shell_str t) ?w t"
    using im cs t(13) by (auto simp: command_arg_def lin_def dechar_def asc_def)
  have words: "arg_words ?w = [?w]" by (simp add: asc_def of_char_def)
  note pr = same_fs_program[OF same, of ?w d]
  have prog: "elf_program ?w d t" "file_contents (inode_index d) t = prog" using im pr by (simp_all add: prog_def)
  obtain pid eip u where u: "execute ?loc (dechar (shell_str t)) t = Some (Inr (To_User eip USER_PROCESS_STACK, u))" "0 \<le> pid" "pid < 6"
    "\<forall>j < nat pid. procs t ! j \<noteq> 0" "le_bytes4 eip = take 4 (drop 24 prog)" "started pid (- 1) ?w prog t u"
    "procs u = (procs t)[nat pid := 1]" "cur_pid u = pid" "term_procs u = (term_procs t)[nat pid := 0]" "table_ok u"
    using execute_eq[OF lay cmd words fs elf prog(1) t(2,3)] t(5,6,10,11) prog(2) by (auto simp: tcount_def)
  have "pid = 0"
  proof (rule ccontr)
    assume "pid \<noteq> 0"
    then have "0 < nat pid" using u(2) by simp
    with u(4)[rule_format, of 0] show False using t(4) by simp
  qed
  with u t show ?thesis
    by (intro exI[of _ t] exI[of _ u] exI[of _ eip]) (simp add: start_shell_def numeral_eq_Suc)
qed


section \<open>Witness\<close>

text \<open>
  An image: the boot information at 0x9000 with one module at 0x500000, which is a file system with
  one file, the shell.
\<close>

definition demo_imem :: mem where
  "demo_imem = wr_bytes (wr_bytes (wr_bytes (st32 (st32 (st32 (st32 (st32 (st32 demo_fs_mem 0x500000 1) 0x500004 1) 0x500008 1)
     0x500060 2) 0x9018 0x9100) 0x9100 0x500000) 0x500040 (asc ''shell'' @ [0])) 0x410040 (asc ''ELF'' @ [0])) 0x410050 (asc ''shell'' @ [0])"

definition demo_image_boot :: boot where
  "demo_image_boot = demo_loaded\<lparr>mem := demo_imem\<rparr>"

lemma demo_imem_loads:
  "ld32 demo_imem 0x500004 = 1" "ld32 demo_imem 0x500008 = 1" "ld32 demo_imem 0x500064 = 0"
  "ld32 demo_imem 0x9018 = 0x9100" "ld32 demo_imem 0x9100 = 0x500000"
  "cstr demo_imem 0x410040 (asc ''ELF'')" "cstr demo_imem 0x410050 (asc ''shell'')" "cstr demo_imem 0x500040 (asc ''shell'')"
  by (simp_all add: demo_imem_def demo_fs_mem_def ld32_def wr_bytes_def st32_def le_bytes4_def asc_def of_char_def demo_file_def
      unsigned_minus_1_eq_mask mask_eq_exp_minus_1)

lemma demo_imem_file: "0x501000 \<le> unat a \<Longrightarrow> unat a < 0x503000 \<Longrightarrow> demo_imem a = demo_fs_mem a"
  by (simp add: demo_imem_def wr_bytes_out st32_out in_rng_unat asc_def)

definition demo_shell_dentry :: dentry where
  "demo_shell_dentry = load_dentry demo_imem 0x500040"

lemma demo_boot_block:
  "inode_count (load_boot_block demo_imem 0x500000) = 1" "data_count (load_boot_block demo_imem 0x500000) = 1"
  "dentries (load_boot_block demo_imem 0x500000) ! 0 = demo_shell_dentry" "length (dentries (load_boot_block demo_imem 0x500000)) = 63"
  "named (asc ''shell'') demo_shell_dentry" "inode_index demo_shell_dentry = 0"
  using takeWhile_cstr[OF demo_imem_loads(8), of 32] demo_imem_loads
  by (simp_all add: load_boot_block_def demo_shell_dentry_def load_dentry_def named_def dname_def asc_def)

lemma demo_imem_inode: "load_inode demo_imem 0x501000 = load_inode demo_fs_mem 0x501000"
proof -
  have "ld32 demo_imem (0x501000 + 4 * of_nat i) = ld32 demo_fs_mem (0x501000 + 4 * of_nat i)" if "i < 1024" for i
  proof (rule ld32_cong)
    fix a :: u32
    assume a: "in_rng (0x501000 + 4 * of_nat i) 4 a"
    have "unat (4 * of_nat i :: u32) = 4 * i" using that by (simp add: unat_word_ariths)
    then have "unat (0x501000 + 4 * of_nat i :: u32) = 0x501000 + 4 * i" using that by (simp add: unat_word_ariths)
    then show "demo_imem a = demo_fs_mem a" using a that by (intro demo_imem_file) (auto simp: in_rng_unat)
  qed
  from this[of 0] this[of "Suc _"] show ?thesis by (simp add: load_inode_def algebra_simps)
qed

lemma demo_imem_data:
  assumes "p < 28"
  shows "demo_imem (data_addr 0x502000 (load_inode demo_fs_mem 0x501000) (of_nat p)) =
    demo_fs_mem (data_addr 0x502000 (load_inode demo_fs_mem 0x501000) (of_nat p))"
proof -
  have "(of_nat p :: u32) AND 0xFFF = of_nat p"
    unfolding page_masks(3) using assms by (intro less_mask_eq) (simp add: word_less_nat_alt)
  moreover have "data_indices (load_inode demo_fs_mem 0x501000) ! 0 = 0" by (simp add: load_inode_def demo_ld)
  ultimately have "data_addr 0x502000 (load_inode demo_fs_mem 0x501000) (of_nat p) = 0x502000 + of_nat p"
    using assms by (simp add: data_addr_def drop_low_bits)
  then show ?thesis using assms by (intro demo_imem_file) (simp_all add: unat_word_ariths)
qed

lemma demo_image_fs:
  defines "f \<equiv> init_filesys 0x500000 demo_image_boot"
  shows "mem f = demo_imem" "filesys_addr f = 0x500000" "boot_block f = load_boot_block demo_imem 0x500000"
    "elf_str f = 0x410040" "shell_str f = 0x410050"
  by (simp_all add: f_def init_filesys_def demo_image_boot_def demo_loaded_def demo_booting_def interrupts.defs boot.defs kernel.defs)

lemma demo_shell_contents: "file_contents 0 (init_filesys 0x500000 demo_image_boot) = demo_file"
proof -
  have l: "unat (length_of (load_inode demo_fs_mem 0x501000)) = 28" by (simp add: load_inode_def demo_ld)
  have "file_contents 0 (init_filesys 0x500000 demo_image_boot) = contents 0x502000 (load_inode demo_fs_mem 0x501000) demo_imem"
    by (simp add: file_contents_def data_base_def inode_addr_def demo_image_fs demo_boot_block demo_imem_inode)
  also have "\<dots> = contents 0x502000 (load_inode demo_fs_mem 0x501000) demo_fs_mem"
    unfolding contents_def l by (intro map_cong refl demo_imem_data) simp
  also have "\<dots> = file_contents 0 demo_fs" by (simp add: file_contents_def data_base_def inode_addr_def)
  finally show ?thesis by (simp add: demo_contents)
qed

lemma demo_shell_program: "elf_program (asc ''shell'') demo_shell_dentry (init_filesys 0x500000 demo_image_boot)"
proof -
  let ?f = "init_filesys 0x500000 demo_image_boot"
  have "take 1 (dentries (load_boot_block demo_imem 0x500000)) = [demo_shell_dentry]"
    using demo_boot_block(3,4) by (cases "dentries (load_boot_block demo_imem 0x500000)") auto
  then have "lookup_name (asc ''shell'') ?f = Some demo_shell_dentry"
    using demo_boot_block(1,5) by (simp add: lookup_name_def demo_image_fs asc_def)
  moreover have "length_of (load_inode demo_fs_mem 0x501000) = 28" "data_indices (load_inode demo_fs_mem 0x501000) ! 0 = 0"
    by (simp_all add: load_inode_def demo_ld)
  then have "inode_wf 0 ?f"
    by (simp add: inode_wf_def inode_ok_def inode_addr_def demo_image_fs demo_boot_block demo_imem_inode)
  moreover have "take 4 demo_file = 127 # asc ''ELF''" by (simp add: demo_file_def asc_def of_char_def)
  ultimately show ?thesis
    using demo_shell_contents length_demo_file by (auto simp: elf_program_def demo_boot_block)
qed

lemma demo_shell_image: "shell_image demo_locals demo_shell_dentry (init_filesys 0x500000 demo_image_boot)"
proof -
  let ?f = "init_filesys 0x500000 demo_image_boot"
  have img: "in_image ?f a \<longleftrightarrow> in_image demo_exec a" for a
    by (simp add: demo_image) (simp add: in_image_def image_size_def demo_image_fs demo_boot_block)
  have low: "0x400000 \<le> unat a" if "in_image ?f a" for a
    using that demo_ranges(1)[of a] by (simp add: img demo_image)
  have "elf_str demo_exec = 0x410040" by (simp add: demo_exec_def)
  then have "exec_layout demo_locals ?f" using demo_layout by (simp add: exec_layout_def img demo_image_fs)
  moreover have "fs_wf ?f" by (simp add: fs_wf_def image_size_def demo_image_fs demo_boot_block boot_ok_load)
  moreover have "disjnt_rng (all_arguments_copy demo_locals) 128 0x410050 128"
    by (rule disjnt_rng_sym, rule disjnt_rng_below) (simp_all add: demo_locals_def)
  ultimately show ?thesis
    unfolding shell_image_def using low demo_shell_program demo_imem_loads(6,7) by (simp add: demo_image_fs)
qed

theorem boot_starts_shell_witness:
  "\<exists>t u. init_devices demo_boot_env 0x9000 demo_image_boot = Some (Inr t) \<and>
    start_shell demo_locals t = Some (Inr (Runs (To_User 0x8048074 USER_PROCESS_STACK), u)) \<and>
    procs u = [1, 0, 0, 0, 0, 0] \<and> rd_bytes (mem u) 0x848000 28 = demo_file"
proof -
  have ld: "loaded demo_image_boot"
    using demo_loaded_ok by (simp add: demo_image_boot_def loaded_def term_wf_def)
  have at: "mod_start (mods_addr 0x9000 demo_image_boot) demo_image_boot = 0x500000" "boot_loc demo_boot_env = demo_locals"
    using demo_imem_loads(4,5) by (simp_all add: mod_start_def mods_addr_def demo_image_boot_def demo_boot_env_def)
  obtain t u eip where x: "init_devices demo_boot_env 0x9000 demo_image_boot = Some (Inr t)"
    "start_shell demo_locals t = Some (Inr (Runs (To_User eip USER_PROCESS_STACK), u))"
    "le_bytes4 eip = take 4 (drop 24 demo_file)" "started 0 (- 1) (asc ''shell'') demo_file t u" "procs u = [1, 0, 0, 0, 0, 0]"
    using boot_starts_shell[OF ld, of demo_boot_env demo_shell_dentry "0x9000", unfolded at demo_boot_block(6) demo_shell_contents,
      OF demo_shell_image] by blast
  have "le_bytes4 eip = le_bytes4 0x8048074" using x(3) by (simp add: demo_file_def le_bytes4_def)
  then have "eip = 0x8048074" by (rule le_bytes4_inj)
  moreover have "rd_bytes (mem u) 0x848000 28 = demo_file"
    using x(4) by (simp add: started_def user_frame_def length_demo_file)
  ultimately show ?thesis using x by blast
qed

end
